(* ===== verification/Prelude.thy ===== *)
theory Prelude
  imports Main "HOL-Library.Word" "HOL-Library.List_Lexorder" "HOL-Library.Product_Lexorder"
    "HOL-Library.Option_ord" "HOL-Library.Sublist"
begin

text \<open>
  Shared vocabulary of the development: bytes and machine words, the little-endian codecs of
  the Rust standard library, results and the question-mark operator, slices and bounded readers,
  byte strings with their UTF-8 validity test, splitting and joining on a separator byte, Unix
  path components, and the ordered-collection facts the components share.

  A Rust \<open>String\<close> or \<open>&str\<close> is a list of bytes, so that lengths, prefixes, ordering and
  separators mean what they mean in the source (Rust strings are ordered by their bytes).
  A \<open>usize\<close> is a natural number; where the code checks an addition or a conversion, the
  check is written out against the width of the platform.
\<close>

unbundle bit_operations_syntax

named_theorems codec_simps \<open>round trips and lengths of the byte codecs\<close>
named_theorems result_simps \<open>unfolding of results that are known to be successes\<close>

section \<open>Bytes and machine words\<close>

type_synonym u8 = "8 word"
type_synonym u16 = "16 word"
type_synonym u32 = "32 word"
type_synonym u64 = "64 word"
type_synonym bytes = "u8 list"

text \<open>A byte string literal \<open>b"..."\<close>.\<close>

definition lit :: "string \<Rightarrow> bytes" where
  "lit s = map of_char s"

lemma length_lit [simp]: "length (lit s) = length s"
  by (simp add: lit_def)

lemma lit_eq_Nil [simp]: "lit s = [] \<longleftrightarrow> s = []"
  by (simp add: lit_def)

lemma lit_inject [simp]: "lit s = lit t \<longleftrightarrow> s = t"
proof
  assume "lit s = lit t"
  then have "map (of_char :: char \<Rightarrow> u8) s = map of_char t" by (simp add: lit_def)
  moreover have "inj (of_char :: char \<Rightarrow> u8)"
  proof (rule injI)
    fix c d :: char assume "(of_char c :: u8) = of_char d"
    then have "unat (of_char c :: u8) = unat (of_char d :: u8)" by simp
    moreover have "unat (of_char e :: u8) = of_char e" for e :: char
    proof -
      have "(of_char e :: u8) = of_nat (of_char e)" by (simp only: of_nat_of_char)
      then show ?thesis using nat_of_char_less_256 [of e] by (simp add: unat_of_nat)
    qed
    ultimately show "c = d" by simp
  qed
  ultimately show "s = t" by (rule map_injective)
qed simp

text \<open>\<open>to_le_bytes\<close> and \<open>from_le_bytes\<close> of the integer types, by number of bytes.\<close>

primrec le_bytes :: "nat \<Rightarrow> 'a::len word \<Rightarrow> bytes" where
  "le_bytes 0 w = []"
| "le_bytes (Suc n) w = ucast w # le_bytes n (drop_bit 8 w)"

primrec le_value :: "bytes \<Rightarrow> 'a::len word" where
  "le_value [] = 0"
| "le_value (b # bs) = ucast b OR push_bit 8 (le_value bs)"

lemma length_le_bytes [simp]: "length (le_bytes n w) = n"
  by (induction n arbitrary: w) auto

lemma le_value_le_bytes: "le_value (le_bytes n w) = take_bit (8 * n) (w :: 'a::len word)"
proof (induction n arbitrary: w)
  case 0
  then show ?case by simp
next
  case (Suc n)
  show ?case
    by (rule bit_word_eqI) (auto simp: Suc bit_simps)
qed

lemma le_value_le_bytes_full [codec_simps]:
  "LENGTH('a) \<le> 8 * n \<Longrightarrow> le_value (le_bytes n w) = (w :: 'a::len word)"
  by (simp add: le_value_le_bytes take_bit_word_eq_self)

lemma le_bytes_inject [simp]:
  "LENGTH('a) \<le> 8 * n \<Longrightarrow> le_bytes n (v :: 'a::len word) = le_bytes n w \<longleftrightarrow> v = w"
  by (metis le_value_le_bytes_full)

lemma bit_le_value:
  "bit (le_value bs :: 'a::len word) k \<longleftrightarrow>
     k < LENGTH('a) \<and> k div 8 < length bs \<and> bit (bs ! (k div 8)) (k mod 8)"
proof (induction bs arbitrary: k)
  case Nil
  then show ?case by simp
next
  case (Cons b bs)
  show ?case
  proof (cases "k < 8")
    case True
    then show ?thesis by (auto simp: bit_simps)
  next
    case False
    then obtain j where k: "k = j + 8" by (metis add.commute le_Suc_ex not_less)
    have "(j + 8) div 8 = Suc (j div 8)" and "(j + 8) mod 8 = j mod 8" by simp_all
    then show ?thesis using False Cons [of j] unfolding k
      by (auto simp: bit_simps dest: bit_imp_le_length)
  qed
qed

lemma le_bytes_nth: "i < n \<Longrightarrow> le_bytes n w ! i = ucast (drop_bit (8 * i) w)"
proof (induction n arbitrary: w i)
  case 0
  then show ?case by simp
next
  case (Suc n)
  then show ?case by (cases i) (simp_all add: algebra_simps)
qed

lemma le_bytes_le_value:
  assumes "8 * length bs \<le> LENGTH('a::len)"
  shows "le_bytes (length bs) (le_value bs :: 'a word) = bs"
proof (rule nth_equalityI)
  fix i assume "i < length (le_bytes (length bs) (le_value bs :: 'a word))"
  then have i: "i < length bs" by simp
  show "le_bytes (length bs) (le_value bs :: 'a word) ! i = bs ! i"
  proof (rule bit_word_eqI)
    fix k assume k: "k < LENGTH(8)"
    then have "8 * i + k < LENGTH('a)" using i assms by simp
    with k i show "bit (le_bytes (length bs) (le_value bs :: 'a word) ! i) k = bit (bs ! i) k"
      by (simp add: le_bytes_nth bit_simps bit_le_value)
  qed
qed simp

lemma le_bytes_le_value_eq [codec_simps]:
  "length bs = n \<Longrightarrow> 8 * n \<le> LENGTH('a::len) \<Longrightarrow> le_bytes n (le_value bs :: 'a word) = bs"
  using le_bytes_le_value [where 'a = 'a] by auto

lemma le_bytes_eval:
  "le_bytes 2 w = [ucast w, ucast (drop_bit 8 w)]"
  "le_bytes 4 w = [ucast w, ucast (drop_bit 8 w), ucast (drop_bit 16 w), ucast (drop_bit 24 w)]"
  "le_bytes 8 w = [ucast w, ucast (drop_bit 8 w), ucast (drop_bit 16 w), ucast (drop_bit 24 w),
     ucast (drop_bit 32 w), ucast (drop_bit 40 w), ucast (drop_bit 48 w), ucast (drop_bit 56 w)]"
  by (simp_all add: eval_nat_numeral)


lemma unat_bounds:
  "unat (a :: u8) < 2 ^ 8" "unat (b :: u16) < 2 ^ 16" "unat (c :: u32) < 2 ^ 32"
  "unat (d :: u64) < 2 ^ 64"
  by (rule order_less_le_trans [OF unsigned_less], simp)+

lemma unat_ucast_u32_u64 [simp]: "unat (ucast (w :: u32) :: u64) = unat w"
  using unat_bounds(3) [of w] by (simp add: unsigned_ucast_eq take_bit_nat_eq_self)

section \<open>Results and the question-mark operator\<close>

text \<open>
  A fallible function returns \<open>Inl\<close> an error or \<open>Inr\<close> a value. \<open>tryE m f\<close> is
  \<open>let x = m?; f x\<close>: an error returns at once.
\<close>

definition tryE :: "'e + 'a \<Rightarrow> ('a \<Rightarrow> 'e + 'b) \<Rightarrow> 'e + 'b" where
  "tryE m f = (case m of Inl e \<Rightarrow> Inl e | Inr x \<Rightarrow> f x)"

lemma tryE_simps [simp]:
  "tryE (Inl e) f = Inl e"
  "tryE (Inr x) f = f x"
  by (simp_all add: tryE_def)

lemma tryE_InrE:
  assumes "tryE m f = Inr y"
  obtains x where "m = Inr x" "f x = Inr y"
  using assms by (cases m) (simp_all add: tryE_def)

lemma check_InrE:
  assumes "(if c then Inl e else m) = Inr y"
  obtains "\<not> c" "m = Inr y"
  using assms by (cases c) simp_all

lemma tryE_Inr_iff: "tryE m f = Inr y \<longleftrightarrow> (\<exists>x. m = Inr x \<and> f x = Inr y)"
  by (cases m) simp_all

lemma tryE_Inl_iff: "tryE m f = Inl e \<longleftrightarrow> m = Inl e \<or> (\<exists>x. m = Inr x \<and> f x = Inl e)"
  by (cases m) auto

lemma tryE_cong [fundef_cong]:
  "m = m' \<Longrightarrow> (\<And>x. m' = Inr x \<Longrightarrow> f x = g x) \<Longrightarrow> tryE m f = tryE m' g"
  by (cases m') (auto simp: tryE_def)

lemma if_Inl_eq_Inr [simp]:
  "(if c then Inl e else m) = Inr x \<longleftrightarrow> \<not> c \<and> m = Inr x"
  "(if c then m else Inl e) = Inr x \<longleftrightarrow> c \<and> m = Inr x"
  by simp_all

text \<open>The question mark on options, and \<open>let Some(x) = m else { return d }; f x\<close>.\<close>

definition bind_opt :: "'a option \<Rightarrow> ('a \<Rightarrow> 'b option) \<Rightarrow> 'b option" where
  "bind_opt m f = (case m of None \<Rightarrow> None | Some x \<Rightarrow> f x)"

lemma bind_opt_simps [simp]: "bind_opt None f = None" "bind_opt (Some x) f = f x"
  by (simp_all add: bind_opt_def)

lemma bind_opt_Some_iff: "bind_opt m f = Some y \<longleftrightarrow> (\<exists>x. m = Some x \<and> f x = Some y)"
  by (cases m) simp_all

lemma bind_opt_cong [fundef_cong]:
  "m = m' \<Longrightarrow> (\<And>x. m' = Some x \<Longrightarrow> f x = g x) \<Longrightarrow> bind_opt m f = bind_opt m' g"
  by (cases m') simp_all

definition let_else :: "'a option \<Rightarrow> 'b \<Rightarrow> ('a \<Rightarrow> 'b) \<Rightarrow> 'b" where
  "let_else m d f = (case m of None \<Rightarrow> d | Some x \<Rightarrow> f x)"

lemma let_else_simps [simp]: "let_else None d f = d" "let_else (Some x) d f = f x"
  by (simp_all add: let_else_def)

lemma let_else_cong [fundef_cong]:
  "m = m' \<Longrightarrow> d = d' \<Longrightarrow> (\<And>x. m' = Some x \<Longrightarrow> f x = g x) \<Longrightarrow>
     let_else m d f = let_else m' d' g"
  by (cases m') simp_all

text \<open>\<open>map_err\<close>, \<open>ok_or_else\<close> and a loop that stops at the first error.\<close>

definition map_err :: "('e \<Rightarrow> 'f) \<Rightarrow> 'e + 'a \<Rightarrow> 'f + 'a" where
  "map_err g m = (case m of Inl e \<Rightarrow> Inl (g e) | Inr x \<Rightarrow> Inr x)"

lemma map_err_simps [simp]:
  "map_err g (Inl e) = Inl (g e)"
  "map_err g (Inr x) = Inr x"
  by (simp_all add: map_err_def)

lemma map_err_Inr_iff [simp]: "map_err g m = Inr x \<longleftrightarrow> m = Inr x"
  by (cases m) simp_all

definition ok_or :: "'e \<Rightarrow> 'a option \<Rightarrow> 'e + 'a" where
  "ok_or e v = (case v of None \<Rightarrow> Inl e | Some x \<Rightarrow> Inr x)"

lemma ok_or_simps [simp]:
  "ok_or e None = Inl e"
  "ok_or e (Some x) = Inr x"
  by (simp_all add: ok_or_def)

lemma ok_or_Inr_iff [simp]: "ok_or e v = Inr x \<longleftrightarrow> v = Some x"
  by (cases v) simp_all

fun foldE :: "('a \<Rightarrow> 's \<Rightarrow> 'e + 's) \<Rightarrow> 'a list \<Rightarrow> 's \<Rightarrow> 'e + 's" where
  "foldE f [] s = Inr s"
| "foldE f (x # xs) s = tryE (f x s) (foldE f xs)"

fun eachE :: "('a \<Rightarrow> 'e + unit) \<Rightarrow> 'a list \<Rightarrow> 'e + unit" where
  "eachE f [] = Inr ()"
| "eachE f (x # xs) = tryE (f x) (\<lambda>_. eachE f xs)"

lemma eachE_Inr_iff [simp]: "eachE f xs = Inr u \<longleftrightarrow> (\<forall>x \<in> set xs. f x = Inr ())"
  by (induction xs) (auto simp: tryE_Inr_iff)

lemma foldE_append: "foldE f (xs @ ys) s = tryE (foldE f xs s) (foldE f ys)"
  by (induction xs arbitrary: s) (auto simp: tryE_def split: sum.splits)

lemma foldE_cong [fundef_cong]:
  "xs = ys \<Longrightarrow> s = t \<Longrightarrow> (\<And>x s. x \<in> set ys \<Longrightarrow> f x s = g x s) \<Longrightarrow> foldE f xs s = foldE g ys t"
  by (induction xs arbitrary: ys s t) (auto simp: tryE_def split: sum.splits)

text \<open>
  The errors of \<open>std::io\<close> the code returns, each invalid-data error with its message; a
  message that formats a number or a string carries it beside the message.
\<close>

datatype io_error =
    UnexpectedEof
  | InvalidData string
  | InvalidDataOf string nat
  | InvalidDataAt string bytes

section \<open>Slices and checked arithmetic\<close>

text \<open>\<open>xs[a..b]\<close> on a range already known to be in bounds, and \<open>xs.get(a..b)\<close>.\<close>

definition slice :: "nat \<Rightarrow> nat \<Rightarrow> 'a list \<Rightarrow> 'a list" where
  "slice a b xs = take (b - a) (drop a xs)"

definition get_slice :: "'a list \<Rightarrow> nat \<Rightarrow> nat \<Rightarrow> 'a list option" where
  "get_slice xs a b = (if a \<le> b \<and> b \<le> length xs then Some (slice a b xs) else None)"

lemma length_slice: "length (slice a b xs) = min (b - a) (length xs - a)"
  by (simp add: slice_def min.commute)

lemma length_slice_eq [simp]: "b \<le> length xs \<Longrightarrow> length (slice a b xs) = b - a"
  by (simp add: length_slice)

lemma slice_0_all: "b = length xs \<Longrightarrow> slice 0 b xs = xs"
  by (simp add: slice_def)

lemma slice_join: "a \<le> b \<Longrightarrow> b \<le> c \<Longrightarrow> slice a b xs @ slice b c xs = slice a c xs"
proof -
  assume "a \<le> b" "b \<le> c"
  then obtain m n where "b = a + m" "c = a + m + n" by (metis le_Suc_ex)
  then show ?thesis by (simp add: slice_def take_add add.commute)
qed

lemma slice_append_left: "b \<le> length xs \<Longrightarrow> slice a b (xs @ ys) = slice a b xs"
  by (simp add: slice_def)

lemma slice_append_right:
  "length xs \<le> a \<Longrightarrow> slice a b (xs @ ys) = slice (a - length xs) (b - length xs) ys"
  by (simp add: slice_def)

lemma get_slice_Some_iff:
  "get_slice xs a b = Some ys \<longleftrightarrow> a \<le> b \<and> b \<le> length xs \<and> ys = slice a b xs"
  by (auto simp: get_slice_def)

lemma nth_slice: "i < b - a \<Longrightarrow> b \<le> length xs \<Longrightarrow> slice a b xs ! i = xs ! (a + i)"
  by (simp add: slice_def)

text \<open>
  \<open>checked_add\<close> and \<open>saturating_mul\<close> on \<open>u64\<close>. A \<open>usize\<close> is a natural number below
  \<open>2 ^ 64\<close> (the 64-bit targets); its checked operations compare against that bound.
\<close>

definition checked_add_u64 :: "u64 \<Rightarrow> u64 \<Rightarrow> u64 option" where
  "checked_add_u64 a b = (if unat a + unat b < 2 ^ 64 then Some (a + b) else None)"

definition saturating_mul_u64 :: "u64 \<Rightarrow> u64 \<Rightarrow> u64" where
  "saturating_mul_u64 a b = (if unat a * unat b < 2 ^ 64 then a * b else - 1)"

definition saturating_add_u64 :: "u64 \<Rightarrow> u64 \<Rightarrow> u64" where
  "saturating_add_u64 a b = (if unat a + unat b < 2 ^ 64 then a + b else - 1)"

definition usize_max :: nat where
  "usize_max = 2 ^ 64 - 1"

definition checked_add :: "nat \<Rightarrow> nat \<Rightarrow> nat option" where
  "checked_add a b = (if a + b \<le> usize_max then Some (a + b) else None)"

definition checked_mul :: "nat \<Rightarrow> nat \<Rightarrow> nat option" where
  "checked_mul a b = (if a * b \<le> usize_max then Some (a * b) else None)"

lemma checked_add_u64_Some_iff:
  "checked_add_u64 a b = Some c \<longleftrightarrow> unat a + unat b < 2 ^ 64 \<and> unat c = unat a + unat b"
  by (auto simp: checked_add_u64_def unat_add_lem [where 'a = 64, simplified] word_unat_eq_iff)

lemma unat_saturating_mul_u64:
  "unat (saturating_mul_u64 a b) = min (unat a * unat b) (2 ^ 64 - 1)"
  using unat_mult_lem [of a b]
  by (cases "unat a * unat b < 2 ^ 64")
    (simp_all add: saturating_mul_u64_def unsigned_minus_1_eq_mask mask_eq_exp_minus_1)

lemma unat_saturating_add_u64:
  "unat (saturating_add_u64 a b) = min (unat a + unat b) (2 ^ 64 - 1)"
  using unat_add_lem [of a b]
  by (cases "unat a + unat b < 2 ^ 64")
    (simp_all add: saturating_add_u64_def unsigned_minus_1_eq_mask mask_eq_exp_minus_1)

lemma checked_add_Some_iff: "checked_add a b = Some c \<longleftrightarrow> c = a + b \<and> a + b \<le> usize_max"
  by (auto simp: checked_add_def)

lemma checked_mul_Some_iff: "checked_mul a b = Some c \<longleftrightarrow> c = a * b \<and> a * b \<le> usize_max"
  by (auto simp: checked_mul_def)

section \<open>Byte streams\<close>

text \<open>\<open>Read::read_exact\<close> on the bytes a reader has left.\<close>

definition read_exact :: "nat \<Rightarrow> bytes \<Rightarrow> io_error + bytes \<times> bytes" where
  "read_exact n bs = (if n \<le> length bs then Inr (take n bs, drop n bs) else Inl UnexpectedEof)"

lemma read_exact_append [codec_simps]: "length xs = n \<Longrightarrow> read_exact n (xs @ ys) = Inr (xs, ys)"
  by (simp add: read_exact_def)

lemma read_exact_Inr_iff:
  "read_exact n bs = Inr (x, r) \<longleftrightarrow> bs = x @ r \<and> length x = n"
  by (auto simp: read_exact_def)

text \<open>\<open>for _ in 0..n { out.push(read(r)?) }\<close>.\<close>

fun read_n :: "(bytes \<Rightarrow> 'e + 'a \<times> bytes) \<Rightarrow> nat \<Rightarrow> bytes \<Rightarrow> 'e + 'a list \<times> bytes" where
  "read_n rd 0 bs = Inr ([], bs)"
| "read_n rd (Suc n) bs =
     tryE (rd bs) (\<lambda>(x, bs'). tryE (read_n rd n bs') (\<lambda>(xs, bs''). Inr (x # xs, bs'')))"

lemma read_n_length: "read_n rd n bs = Inr (xs, r) \<Longrightarrow> length xs = n"
proof (induction n arbitrary: bs xs)
  case 0
  then show ?case by simp
next
  case (Suc n)
  then show ?case by (auto simp: tryE_Inr_iff split: prod.splits)
qed

section \<open>Fallible steps over a state\<close>

text \<open>
  A step that reads and changes a state and may fail; what it changed before it failed stays
  changed. \<open>seqS m f\<close> is the question-mark operator on such steps.
\<close>

type_synonym ('s, 'e, 'a) step = "'s \<Rightarrow> ('e + 'a) \<times> 's"

definition seqS :: "('s, 'e, 'a) step \<Rightarrow> ('a \<Rightarrow> ('s, 'e, 'b) step) \<Rightarrow> ('s, 'e, 'b) step" where
  "seqS m f s = (case m s of (Inl e, s') \<Rightarrow> (Inl e, s') | (Inr x, s') \<Rightarrow> f x s')"

definition returnS :: "'a \<Rightarrow> ('s, 'e, 'a) step" where "returnS x s = (Inr x, s)"

definition failS :: "'e \<Rightarrow> ('s, 'e, 'a) step" where "failS e s = (Inl e, s)"

definition liftS :: "'e + 'a \<Rightarrow> ('s, 'e, 'a) step" where "liftS r s = (r, s)"

fun eachS :: "('a \<Rightarrow> ('s, 'e, unit) step) \<Rightarrow> 'a list \<Rightarrow> ('s, 'e, unit) step" where
  "eachS f [] = returnS ()"
| "eachS f (x # xs) = seqS (f x) (\<lambda>_. eachS f xs)"

definition map_errS :: "('e \<Rightarrow> 'f) \<Rightarrow> ('s, 'e, 'a) step \<Rightarrow> ('s, 'f, 'a) step" where
  "map_errS g m s = (case m s of (r, t) \<Rightarrow> (map_err g r, t))"

lemma map_errS_Inr [simp]: "map_errS g m s = (Inr x, t) \<longleftrightarrow> m s = (Inr x, t)"
  by (auto simp: map_errS_def split: prod.splits)

lemma seqS_Inr:
  assumes "seqS m f s = (Inr y, t)"
  obtains x u where "m s = (Inr x, u)" "f x u = (Inr y, t)"
  using assms by (auto simp: seqS_def split: prod.splits sum.splits)

lemma seqS_simps [simp]:
  "m s = (Inr x, u) \<Longrightarrow> seqS m f s = f x u"
  "m s = (Inl e, u) \<Longrightarrow> seqS m f s = (Inl e, u)"
  by (simp_all add: seqS_def)

lemma stepS_simps [simp]:
  "returnS x s = (r, t) \<longleftrightarrow> r = Inr x \<and> t = s"
  "failS e s = (r, t) \<longleftrightarrow> r = Inl e \<and> t = s"
  "liftS v s = (r, t) \<longleftrightarrow> v = r \<and> t = s"
  by (auto simp: returnS_def failS_def liftS_def)

lemma seqS_cong [fundef_cong]:
  "m s = m' s' \<Longrightarrow> (\<And>x u. m' s' = (Inr x, u) \<Longrightarrow> f x u = f' x u) \<Longrightarrow> seqS m f s = seqS m' f' s'"
  by (auto simp: seqS_def split: prod.splits sum.splits)

lemma seqS_liftE:
  assumes "seqS (liftS r) f s = (Inr y, t)"
  obtains x where "r = Inr x" "f x s = (Inr y, t)"
  using assms by (cases r) (auto simp: seqS_def liftS_def)

text \<open>A property every step keeps is kept by the loop.\<close>

lemma eachS_invariant:
  assumes "eachS f xs s = (r, t)" "P s"
    and "\<And>x s r t. x \<in> set xs \<Longrightarrow> f x s = (r, t) \<Longrightarrow> P s \<Longrightarrow> P t"
  shows "P t"
  using assms
proof (induction xs arbitrary: s)
  case (Cons x xs)
  obtain r1 s1 where 1: "f x s = (r1, s1)" by fastforce
  have p: "P s1" using Cons.prems(3) [OF _ 1] Cons.prems(2) by simp
  show ?case
  proof (cases r1)
    case (Inl e)
    then show ?thesis using Cons.prems(1) 1 p by (simp add: seqS_def)
  next
    case (Inr u)
    then have "eachS f xs s1 = (r, t)" using Cons.prems(1) 1 by (simp add: seqS_def)
    then show ?thesis by (rule Cons.IH [OF _ p]) (use Cons.prems(3) in auto)
  qed
qed simp

section \<open>Loops that collect a set\<close>

text \<open>
  A loop that checks each element and inserts its key into an ordered set, failing on a key it
  has seen: it succeeds when every check passes and the keys are distinct and new.
\<close>

lemma foldE_invariant:
  assumes "foldE f xs s = Inr t" "P s"
    and "\<And>x s t. x \<in> set xs \<Longrightarrow> f x s = Inr t \<Longrightarrow> P s \<Longrightarrow> P t"
  shows "P t"
  using assms
proof (induction xs arbitrary: s)
  case (Cons x xs)
  from Cons.prems(1) obtain u where u: "f x s = Inr u" "foldE f xs u = Inr t"
    by (auto simp: tryE_Inr_iff)
  have "P u" using Cons.prems(3) [OF _ u(1)] Cons.prems(2) by simp
  then show ?case by (rule Cons.IH [OF u(2)]) (use Cons.prems(3) in auto)
qed simp

lemma foldE_unique:
  assumes "\<And>x s s'. f x s = Inr s' \<longleftrightarrow> P x \<and> k x \<notin> s \<and> s' = insert (k x) s"
  shows "foldE f xs s = Inr s' \<longleftrightarrow> (\<forall>x \<in> set xs. P x) \<and> distinct (map k xs)
    \<and> k ` set xs \<inter> s = {} \<and> s' = s \<union> k ` set xs"
proof (induction xs arbitrary: s)
  case Nil
  then show ?case by auto
next
  case (Cons x xs)
  have "foldE f (x # xs) s = Inr s' \<longleftrightarrow>
      P x \<and> k x \<notin> s \<and> foldE f xs (insert (k x) s) = Inr s'"
    by (auto simp: tryE_Inr_iff assms)
  then show ?case unfolding Cons.IH by auto
qed

lemma sum_list_sort_key [simp]: "(\<Sum>x\<leftarrow>sort_key k xs. f x) = (\<Sum>x\<leftarrow>xs. f x :: nat)"
proof (induction xs)
  case (Cons x xs)
  have "(\<Sum>z\<leftarrow>insort_key k y ys. f z) = f y + (\<Sum>z\<leftarrow>ys. f z)" for y ys
    by (induction ys) auto
  then show ?case using Cons by simp
qed simp

section \<open>Sums of words\<close>

lemma word_add_unat: "unat a + unat b < 2 ^ 64 \<Longrightarrow> unat (a + b) = unat a + unat b" for a b :: u64
  using unat_add_lem [of a b] by simp

lemma checked_add_u64_SomeD:
  "checked_add_u64 a b = Some c \<Longrightarrow> c = a + b \<and> unat (a + b) = unat a + unat b \<and> unat a + unat b < 2 ^ 64"
  using checked_add_u64_Some_iff [of a b c] by (simp add: checked_add_u64_def split: if_splits)

end
