(* ===== verification/Strings.thy ===== *)
theory Strings
  imports Prelude
begin

text \<open>
  The parts of \<open>str\<close>, \<open>String\<close> and \<open>Path\<close> the code uses, on byte strings: the UTF-8
  validity test of \<open>std::str::from_utf8\<close>, ASCII classes, prefixes, splitting and joining on a
  separator byte, lines, decimal and hexadecimal printing, and Unix path components.
\<close>

section \<open>UTF-8\<close>

definition utf8_cont :: "u8 \<Rightarrow> bool" where
  "utf8_cont b \<longleftrightarrow> 0x80 \<le> b \<and> b \<le> 0xBF"

text \<open>The well-formed byte sequences, by their first byte, as \<open>from_utf8\<close> accepts them.\<close>

fun utf8 :: "bytes \<Rightarrow> bool" where
  "utf8 [] = True"
| "utf8 (b # bs) =
     (if b < 0x80 then utf8 bs
      else if 0xC2 \<le> b \<and> b \<le> 0xDF then
        (case bs of c # r \<Rightarrow> utf8_cont c \<and> utf8 r | [] \<Rightarrow> False)
      else if 0xE0 \<le> b \<and> b \<le> 0xEF then
        (case bs of c # d # r \<Rightarrow>
             utf8_cont c \<and> (b = 0xE0 \<longrightarrow> 0xA0 \<le> c) \<and> (b = 0xED \<longrightarrow> c \<le> 0x9F)
             \<and> utf8_cont d \<and> utf8 r
           | _ \<Rightarrow> False)
      else if 0xF0 \<le> b \<and> b \<le> 0xF4 then
        (case bs of c # d # e # r \<Rightarrow>
             utf8_cont c \<and> (b = 0xF0 \<longrightarrow> 0x90 \<le> c) \<and> (b = 0xF4 \<longrightarrow> c \<le> 0x8F)
             \<and> utf8_cont d \<and> utf8_cont e \<and> utf8 r
           | _ \<Rightarrow> False)
      else False)"

declare utf8.simps(2) [simp del]

lemma utf8_ascii: "\<forall>b \<in> set bs. b < 0x80 \<Longrightarrow> utf8 bs"
  by (induction bs) (simp_all add: utf8.simps(2))

text \<open>\<open>std::str::from_utf8(bytes)\<close>, as an option.\<close>

definition from_utf8 :: "bytes \<Rightarrow> bytes option" where
  "from_utf8 bs = (if utf8 bs then Some bs else None)"

lemma from_utf8_Some_iff [simp]: "from_utf8 bs = Some s \<longleftrightarrow> utf8 bs \<and> s = bs"
  by (auto simp: from_utf8_def)

section \<open>ASCII classes\<close>

definition is_ascii_digit :: "u8 \<Rightarrow> bool" where
  "is_ascii_digit b \<longleftrightarrow> 0x30 \<le> b \<and> b \<le> 0x39"

definition is_ascii_alphabetic :: "u8 \<Rightarrow> bool" where
  "is_ascii_alphabetic b \<longleftrightarrow> 0x41 \<le> b \<and> b \<le> 0x5A \<or> 0x61 \<le> b \<and> b \<le> 0x7A"

definition is_ascii_alphanumeric :: "u8 \<Rightarrow> bool" where
  "is_ascii_alphanumeric b \<longleftrightarrow> is_ascii_alphabetic b \<or> is_ascii_digit b"

definition is_ascii_control :: "u8 \<Rightarrow> bool" where
  "is_ascii_control b \<longleftrightarrow> b < 0x20 \<or> b = 0x7F"

definition to_ascii_lowercase :: "bytes \<Rightarrow> bytes" where
  "to_ascii_lowercase = map (\<lambda>b. if 0x41 \<le> b \<and> b \<le> 0x5A then b + 0x20 else b)"

definition is_lower_hex :: "u8 \<Rightarrow> bool" where
  "is_lower_hex b \<longleftrightarrow> is_ascii_digit b \<or> 0x61 \<le> b \<and> b \<le> 0x66"

text \<open>The bytes the code names most often.\<close>

abbreviation slash :: u8 where "slash \<equiv> 0x2F"
abbreviation dot :: u8 where "dot \<equiv> 0x2E"
abbreviation newline :: u8 where "newline \<equiv> 0x0A"
abbreviation tab :: u8 where "tab \<equiv> 0x09"

section \<open>Prefixes, splitting and joining\<close>

text \<open>\<open>s.starts_with(p)\<close> is \<open>prefix p s\<close>; \<open>s.strip_prefix(p)\<close> removes it.\<close>

definition strip_prefix :: "bytes \<Rightarrow> bytes \<Rightarrow> bytes option" where
  "strip_prefix p s = (if prefix p s then Some (drop (length p) s) else None)"

lemma strip_prefix_append [simp]: "strip_prefix p (p @ s) = Some s"
  by (simp add: strip_prefix_def)

lemma strip_prefix_Some_iff: "strip_prefix p s = Some r \<longleftrightarrow> s = p @ r"
  by (auto simp: strip_prefix_def prefix_def)

text \<open>\<open>s.split(c)\<close> on a separator byte, and \<open>parts.join(c)\<close>.\<close>

fun split_on :: "'a \<Rightarrow> 'a list \<Rightarrow> 'a list list" where
  "split_on c [] = [[]]"
| "split_on c (x # xs) =
     (if x = c then [] # split_on c xs
      else (case split_on c xs of [] \<Rightarrow> [[x]] | p # ps \<Rightarrow> (x # p) # ps))"

fun join_with :: "'a \<Rightarrow> 'a list list \<Rightarrow> 'a list" where
  "join_with c [] = []"
| "join_with c [p] = p"
| "join_with c (p # q # ps) = p @ c # join_with c (q # ps)"

lemma split_on_not_Nil [simp]: "split_on c xs \<noteq> []"
  by (cases xs) (auto split: list.splits)

lemma join_split [simp]: "join_with c (split_on c xs) = xs"
proof (induction xs)
  case Nil
  then show ?case by simp
next
  case (Cons x xs)
  obtain p ps where eq: "split_on c xs = p # ps" by (cases "split_on c xs") auto
  show ?case using Cons by (cases ps) (auto simp: eq)
qed

lemma split_on_no_sep: "p \<in> set (split_on c xs) \<Longrightarrow> c \<notin> set p"
proof (induction xs arbitrary: p)
  case Nil
  then show ?case by simp
next
  case (Cons x xs)
  obtain q qs where eq: "split_on c xs = q # qs" by (cases "split_on c xs") auto
  show ?case using Cons.prems Cons.IH [of q] Cons.IH [of p] by (auto simp: eq split: if_splits)
qed

lemma split_on_fresh: "c \<notin> set xs \<Longrightarrow> split_on c xs = [xs]"
  by (induction xs) auto

lemma split_on_append_sep: "c \<notin> set p \<Longrightarrow> split_on c (p @ c # xs) = p # split_on c xs"
  by (induction p) auto

lemma split_join: "ps \<noteq> [] \<Longrightarrow> \<forall>p \<in> set ps. c \<notin> set p \<Longrightarrow> split_on c (join_with c ps) = ps"
  by (induction c ps rule: join_with.induct) (auto simp: split_on_fresh split_on_append_sep)

lemma set_split_on_subset: "p \<in> set (split_on c xs) \<Longrightarrow> set p \<subseteq> set xs"
proof (induction xs arbitrary: p)
  case Nil
  then show ?case by simp
next
  case (Cons x xs)
  obtain q qs where eq: "split_on c xs = q # qs" by (cases "split_on c xs") auto
  show ?case using Cons.prems Cons.IH [of q] Cons.IH [of p] by (auto simp: eq split: if_splits)
qed

text \<open>\<open>s.split_once(c)\<close> and \<open>s.rsplit_once(c)\<close>.\<close>

definition split_once :: "'a \<Rightarrow> 'a list \<Rightarrow> ('a list \<times> 'a list) option" where
  "split_once c xs =
     (if c \<in> set xs then Some (takeWhile (\<lambda>x. x \<noteq> c) xs, tl (dropWhile (\<lambda>x. x \<noteq> c) xs)) else None)"

definition rsplit_once :: "'a \<Rightarrow> 'a list \<Rightarrow> ('a list \<times> 'a list) option" where
  "rsplit_once c xs =
     (case split_once c (rev xs) of None \<Rightarrow> None | Some (t, h) \<Rightarrow> Some (rev h, rev t))"

lemma split_once_append [simp]: "c \<notin> set p \<Longrightarrow> split_once c (p @ c # xs) = Some (p, xs)"
proof -
  assume "c \<notin> set p"
  then have "\<forall>x \<in> set p. x \<noteq> c" by auto
  then show ?thesis by (simp add: split_once_def takeWhile_append dropWhile_append)
qed

lemma split_once_Some_iff:
  "split_once c xs = Some (p, q) \<longleftrightarrow> xs = p @ c # q \<and> c \<notin> set p"
proof
  assume a: "split_once c xs = Some (p, q)"
  then have "c \<in> set xs" by (auto simp: split_once_def split: if_splits)
  then obtain u v where "xs = u @ c # v" and "c \<notin> set u" by (meson split_list_first)
  then show "xs = p @ c # q \<and> c \<notin> set p" using a by simp
qed auto

lemma split_once_None_iff: "split_once c xs = None \<longleftrightarrow> c \<notin> set xs"
  by (simp add: split_once_def)

lemma rsplit_once_Some_iff:
  "rsplit_once c xs = Some (p, q) \<longleftrightarrow> xs = p @ c # q \<and> c \<notin> set q"
proof -
  have "rsplit_once c xs = Some (p, q) \<longleftrightarrow> split_once c (rev xs) = Some (rev q, rev p)"
    by (auto simp: rsplit_once_def split: option.splits)
  also have "\<dots> \<longleftrightarrow> rev xs = rev q @ c # rev p \<and> c \<notin> set q"
    by (simp add: split_once_Some_iff)
  also have "rev xs = rev q @ c # rev p \<longleftrightarrow> xs = p @ c # q"
    by (metis append.assoc append_Cons append_Nil rev.simps(2) rev_append rev_rev_ident)
  finally show ?thesis .
qed

lemma rsplit_once_None_iff: "rsplit_once c xs = None \<longleftrightarrow> c \<notin> set xs"
  by (auto simp: rsplit_once_def split_once_def split: option.splits)

text \<open>\<open>s.lines()\<close>: the fragments newlines end, each without the carriage return before its
  newline, and a last fragment no newline ends as it stands.\<close>

definition strip_cr :: "bytes \<Rightarrow> bytes" where
  "strip_cr l = (if l \<noteq> [] \<and> last l = 0x0D then butlast l else l)"

definition lines :: "bytes \<Rightarrow> bytes list" where
  "lines s =
     (let ps = split_on newline s
      in map strip_cr (butlast ps) @ (if last ps = [] then [] else [last ps]))"


lemma lines_Nil [simp]: "lines [] = []"
  by (simp add: lines_def)

lemma lines_append_newline:
  assumes "newline \<notin> set l" and "l = [] \<or> last l \<noteq> 0x0D"
  shows "lines (l @ newline # s) = l # lines s"
  using assms by (auto simp: lines_def split_on_append_sep Let_def strip_cr_def)

section \<open>Printing numbers\<close>

text \<open>\<open>{}\<close> of an unsigned integer, and \<open>{:02x}\<close> of a byte.\<close>

definition digit_byte :: "nat \<Rightarrow> u8" where
  "digit_byte d = (if d < 10 then 0x30 + of_nat d else 0x57 + of_nat d)"

fun show_nat :: "nat \<Rightarrow> bytes" where
  "show_nat n = (if n < 10 then [digit_byte n] else show_nat (n div 10) @ [digit_byte (n mod 10)])"

declare show_nat.simps [simp del]

definition show_hex2 :: "u8 \<Rightarrow> bytes" where
  "show_hex2 b = [digit_byte (unat b div 16), digit_byte (unat b mod 16)]"

lemma unat_digit_byte: "d < 16 \<Longrightarrow> unat (digit_byte d) = (if d < 10 then 48 + d else 87 + d)"
  by (auto simp: digit_byte_def unat_word_ariths unat_of_nat)

lemma digit_byte_inject: "d < 16 \<Longrightarrow> e < 16 \<Longrightarrow> digit_byte d = digit_byte e \<longleftrightarrow> d = e"
  by (auto simp: word_unat_eq_iff unat_digit_byte split: if_splits)

lemma is_ascii_digit_unat: "is_ascii_digit b \<longleftrightarrow> 48 \<le> unat b \<and> unat b \<le> 57"
  by (simp add: is_ascii_digit_def word_le_nat_alt)

lemma show_nat_digits: "b \<in> set (show_nat n) \<Longrightarrow> is_ascii_digit b"
proof (induction n rule: show_nat.induct)
  case (1 n)
  have "is_ascii_digit (digit_byte d)" if "d < 10" for d
    using that by (simp add: is_ascii_digit_unat unat_digit_byte)
  then show ?case using 1 by (subst (asm) show_nat.simps) (auto split: if_splits)
qed

text \<open>\<open>str::parse\<close> of an unsigned decimal, without the bound of the integer type.\<close>

definition digit_value :: "u8 \<Rightarrow> nat" where
  "digit_value b = unat b - 48"

definition parse_digits :: "bytes \<Rightarrow> nat" where
  "parse_digits = foldl (\<lambda>n b. 10 * n + digit_value b) 0"

lemma parse_show_nat: "parse_digits (show_nat n) = n"
proof (induction n rule: show_nat.induct)
  case (1 n)
  show ?case
    by (subst show_nat.simps)
      (use 1 in \<open>auto simp: parse_digits_def digit_value_def unat_digit_byte\<close>)
qed

lemma show_nat_inject [simp]: "show_nat m = show_nat n \<longleftrightarrow> m = n"
  by (metis parse_show_nat)

lemma show_nat_not_Nil [simp]: "show_nat n \<noteq> []"
  by (subst show_nat.simps) simp

lemma show_hex2_inject [simp]: "show_hex2 a = show_hex2 b \<longleftrightarrow> a = b"
proof -
  have lt: "unat c < 256" for c :: u8 using unsigned_less [of c] by simp
  have "unat a div 16 < 16" "unat b div 16 < 16"
    by (rule less_mult_imp_div_less, use lt in simp)+
  moreover have "unat a mod 16 < 16" "unat b mod 16 < 16" by simp_all
  ultimately show ?thesis
    by (metis div_mod_decomp digit_byte_inject list.inject show_hex2_def word_unat_eq_iff)
qed

section \<open>Unix path components\<close>

text \<open>
  \<open>Path::components\<close> on Unix: a leading slash is the root, empty and \<open>.\<close> components are
  dropped, except that a relative path keeps a leading \<open>.\<close>.
\<close>

datatype component = RootDir | CurDir | ParentDir | Normal bytes

definition classify :: "bytes \<Rightarrow> component" where
  "classify p = (if p = [dot, dot] then ParentDir else Normal p)"

definition body_components :: "bytes list \<Rightarrow> component list" where
  "body_components ps = map classify (filter (\<lambda>p. p \<noteq> [] \<and> p \<noteq> [dot]) ps)"

definition components :: "bytes \<Rightarrow> component list" where
  "components path =
     (let ps = split_on slash path
      in if prefix [slash] path then RootDir # body_components ps
         else if hd ps = [dot] then CurDir # body_components (tl ps)
         else body_components ps)"

definition is_absolute :: "bytes \<Rightarrow> bool" where
  "is_absolute path \<longleftrightarrow> prefix [slash] path"

lemma RootDir_in_components: "RootDir \<in> set (components p) \<Longrightarrow> is_absolute p"
  by (auto simp: components_def is_absolute_def body_components_def classify_def Let_def
      split: if_splits)

lemma Normal_in_components:
  "Normal s \<in> set (components p) \<Longrightarrow>
     s \<noteq> [] \<and> s \<noteq> [dot] \<and> s \<noteq> [dot, dot] \<and> slash \<notin> set s \<and> set s \<subseteq> set p"
proof -
  assume "Normal s \<in> set (components p)"
  then have "s \<in> set (split_on slash p) \<and> s \<noteq> [] \<and> s \<noteq> [dot] \<and> s \<noteq> [dot, dot]"
    by (auto simp: components_def body_components_def classify_def Let_def
        split: if_splits dest: list.set_sel(2) [rotated])
  then show ?thesis by (blast dest: split_on_no_sep set_split_on_subset)
qed


text \<open>\<open>Path::parent\<close>, by its components: nothing for the root and the empty path.\<close>

definition parent_components :: "bytes \<Rightarrow> component list option" where
  "parent_components path =
     (let cs = components path
      in if cs = [] \<or> last cs = RootDir then None else Some (butlast cs))"

text \<open>\<open>PathBuf::push\<close>, which an absolute argument replaces the path by.\<close>

definition path_push :: "bytes \<Rightarrow> bytes \<Rightarrow> bytes" where
  "path_push path part =
     (if is_absolute part then part
      else if path = [] \<or> last path = slash then path @ part
      else path @ slash # part)"

definition lead :: "bytes \<Rightarrow> component list" where
  "lead path = (if is_absolute path then [RootDir]
     else if hd (split_on slash path) = [dot] then [CurDir] else [])"

lemma components_lead: "components path = lead path @ body_components (split_on slash path)"
  by (cases "split_on slash path")
    (auto simp: components_def lead_def is_absolute_def body_components_def Let_def)

lemma split_on_append: "split_on c (xs @ c # ys) = split_on c xs @ split_on c ys"
proof (induction xs)
  case Nil
  then show ?case by simp
next
  case (Cons x xs)
  then show ?case by (cases "split_on c xs") auto
qed

lemma body_components_append: "body_components (ps @ qs) = body_components ps @ body_components qs"
  by (simp add: body_components_def)

lemma hd_split_on_append: "hd (split_on c (xs @ c # ys)) = hd (split_on c xs)"
  by (simp add: split_on_append)

lemma lead_append: "lead (r @ slash # d) = lead (r @ [slash])"
proof -
  have "hd (split_on slash (r @ slash # d)) = hd (split_on slash (r @ [slash]))"
    by (simp only: hd_split_on_append)
  moreover have "is_absolute (r @ slash # d) = is_absolute (r @ [slash])"
    by (cases r) (simp_all add: is_absolute_def)
  ultimately show ?thesis by (simp only: lead_def)
qed

lemma lead_append_sep: "root \<noteq> [] \<Longrightarrow> lead (root @ [slash]) = lead root"
proof -
  assume "root \<noteq> []"
  then have "is_absolute (root @ [slash]) = is_absolute root"
    by (cases root) (simp_all add: is_absolute_def)
  then show ?thesis by (simp only: lead_def hd_split_on_append)
qed

text \<open>Pushing a relative path appends its components, a leading dot dropped.\<close>

lemma components_push:
  assumes "\<not> is_absolute d" and "root \<noteq> []"
  shows "components (path_push root d) = components root @ body_components (split_on slash d)"
proof (cases "last root = slash")
  case True
  then obtain r where "root = r @ [slash]" using assms(2) by (metis append_butlast_last_id)
  then show ?thesis using assms lead_append [of r d]
    by (simp add: path_push_def components_lead split_on_append body_components_append)
       (simp add: body_components_def)
next
  case False
  then show ?thesis using assms lead_append [of root d] lead_append_sep [of root]
    by (simp add: path_push_def components_lead split_on_append body_components_append)
qed

lemma components_relative:
  "list_all (\<lambda>c. c \<noteq> RootDir \<and> c \<noteq> CurDir) (components d) \<Longrightarrow>
     \<not> is_absolute d \<and> components d = body_components (split_on slash d)"
  by (auto simp: components_lead lead_def split: if_splits)

lemma components_eq_Nil [simp]: "components d = [] \<longleftrightarrow> d = []"
proof (cases d)
  case (Cons c cs)
  obtain p ps where "split_on slash cs = p # ps" by (cases "split_on slash cs") auto
  then show ?thesis using Cons
    by (auto simp: components_lead lead_def is_absolute_def body_components_def)
qed (simp add: components_lead lead_def is_absolute_def body_components_def)

lemma components_single:
  "s \<noteq> [] \<Longrightarrow> s \<noteq> [dot] \<Longrightarrow> s \<noteq> [dot, dot] \<Longrightarrow> slash \<notin> set s \<Longrightarrow>
     body_components (split_on slash s) = [Normal s] \<and> \<not> is_absolute s
     \<and> components s = [Normal s]"
  by (cases s) (auto simp: components_lead lead_def is_absolute_def split_on_fresh
      body_components_def classify_def)

section \<open>Trimming and parsing numbers\<close>

text \<open>The UTF-8 encodings of the characters \<open>char::is_whitespace\<close> holds of.\<close>

definition white_space :: "bytes list" where
  "white_space = [[9], [10], [11], [12], [13], [32], [0xC2, 0x85], [0xC2, 0xA0], [0xE1, 0x9A, 0x80],
     [0xE2, 0x80, 0x80], [0xE2, 0x80, 0x81], [0xE2, 0x80, 0x82], [0xE2, 0x80, 0x83],
     [0xE2, 0x80, 0x84], [0xE2, 0x80, 0x85], [0xE2, 0x80, 0x86], [0xE2, 0x80, 0x87],
     [0xE2, 0x80, 0x88], [0xE2, 0x80, 0x89], [0xE2, 0x80, 0x8A], [0xE2, 0x80, 0xA8],
     [0xE2, 0x80, 0xA9], [0xE2, 0x80, 0xAF], [0xE2, 0x81, 0x9F], [0xE3, 0x80, 0x80]]"

function trim_by :: "bytes list \<Rightarrow> bytes \<Rightarrow> bytes" where
  "trim_by ws s =
     (case List.find (\<lambda>w. w \<noteq> [] \<and> prefix w s) ws of
        None \<Rightarrow> s | Some w \<Rightarrow> trim_by ws (drop (length w) s))"
  by pat_completeness auto
termination
  by (relation "measure (length \<circ> snd)") (auto simp: find_Some_iff prefix_def)

declare trim_by.simps [simp del]

definition trim_start :: "bytes \<Rightarrow> bytes" where "trim_start = trim_by white_space"

definition trim_end :: "bytes \<Rightarrow> bytes" where
  "trim_end s = rev (trim_by (map rev white_space) (rev s))"

definition trim :: "bytes \<Rightarrow> bytes" where "trim s = trim_end (trim_start s)"

text \<open>\<open>str::parse::<u64>\<close>: one leading plus sign is allowed, and the number must fit.\<close>

definition parse_u64 :: "bytes \<Rightarrow> u64 option" where
  "parse_u64 s =
     (let d = (case s of [] \<Rightarrow> [] | b # r \<Rightarrow> if b = 0x2B then r else s)
      in if d \<noteq> [] \<and> list_all is_ascii_digit d \<and> parse_digits d < 2 ^ 64
         then Some (of_nat (parse_digits d)) else None)"

lemma parse_u64_show_nat: "n < 2 ^ 64 \<Longrightarrow> parse_u64 (show_nat n) = Some (of_nat n)"
proof -
  assume n: "n < 2 ^ 64"
  obtain b r where br: "show_nat n = b # r" using show_nat_not_Nil by (cases "show_nat n") auto
  then have "is_ascii_digit b" using show_nat_digits [of b n] by simp
  then have "b \<noteq> 0x2B" by (auto simp: is_ascii_digit_def)
  then show ?thesis
    using n br show_nat_digits [of _ n] parse_show_nat [of n]
    by (simp add: parse_u64_def list_all_iff)
qed

lemma trim_by_id: "(\<And>w. w \<in> set ws \<Longrightarrow> w \<noteq> [] \<Longrightarrow> \<not> prefix w s) \<Longrightarrow> trim_by ws s = s"
  by (subst trim_by.simps) (auto simp: find_None_iff split: option.splits dest: find_Some_iff [THEN iffD1])

text \<open>A text that begins and ends with a visible ASCII character has nothing to trim.\<close>

definition is_ascii_graphic :: "u8 \<Rightarrow> bool" where
  "is_ascii_graphic b \<longleftrightarrow> 0x21 \<le> b \<and> b \<le> 0x7E"

lemma trim_graphic:
  assumes "s \<noteq> []" "is_ascii_graphic (hd s)" "is_ascii_graphic (last s)"
  shows "trim s = s"
proof -
  have hd: "\<not> prefix w s" if "w \<in> set white_space" for w
    using that assms(1,2)
    by (cases s) (auto simp: white_space_def is_ascii_graphic_def)
  have "\<not> prefix w (rev s)" if "w \<in> set (map rev white_space)" for w
    using that assms(1,3)
    by (cases s rule: rev_cases) (auto simp: white_space_def is_ascii_graphic_def)
  then have "trim_by (map rev white_space) (rev s) = rev s" by (rule trim_by_id)
  moreover have "trim_by white_space s = s" by (rule trim_by_id) (rule hd)
  ultimately show ?thesis by (simp add: trim_def trim_end_def trim_start_def)
qed

end
