(* ===== verification/Codec.thy ===== *)
theory Codec
  imports Strings
begin

text \<open>
  The interface between a record of the package format and the tables made of it: an encoder
  that appends the record's bytes and a decoder that reads them back from the front of a stream.
  A table of records is written one after the other and read back by a counted loop, so what
  holds for one record holds for the table.
\<close>

locale stream_codec =
  fixes enc :: "'a \<Rightarrow> bytes"
    and dec :: "bytes \<Rightarrow> io_error + 'a \<times> bytes"
    and wf :: "'a \<Rightarrow> bool"
  assumes dec_enc: "wf x \<Longrightarrow> dec (enc x @ r) = Inr (x, r)"
begin

lemma table_enc: "\<forall>x \<in> set xs. wf x \<Longrightarrow> n = length xs \<Longrightarrow>
    read_n dec n (concat (map enc xs) @ r) = Inr (xs, r)"
  by (induction xs arbitrary: n) (simp_all add: dec_enc)

lemma enc_unique: "wf x \<Longrightarrow> wf y \<Longrightarrow> enc x @ r = enc y @ s \<Longrightarrow> x = y \<and> r = s"
  by (metis dec_enc old.prod.inject sum.inject(2))

end

text \<open>A decoder that accepts nothing but encodings: what it read re-encodes to the same bytes.\<close>

locale canonical_codec = stream_codec enc dec wf
  for enc :: "'a \<Rightarrow> bytes"
    and dec :: "bytes \<Rightarrow> io_error + 'a \<times> bytes"
    and wf :: "'a \<Rightarrow> bool" +
  assumes dec_canonical: "dec bs = Inr (x, r) \<Longrightarrow> bs = enc x @ r \<and> wf x"
begin

lemma table_canonical: "read_n dec n bs = Inr (xs, r) \<Longrightarrow>
    bs = concat (map enc xs) @ r \<and> length xs = n \<and> (\<forall>x \<in> set xs. wf x)"
proof (induction n arbitrary: bs xs)
  case 0
  then show ?case by simp
next
  case (Suc n)
  then obtain x bs' xs' where d: "dec bs = Inr (x, bs')"
    and rest: "read_n dec n bs' = Inr (xs', r)" and xs: "xs = x # xs'"
    by (auto simp: tryE_Inr_iff split: prod.splits)
  then show ?case using dec_canonical [OF d] Suc.IH [OF rest] by auto
qed

lemma dec_iff: "dec bs = Inr (x, r) \<longleftrightarrow> wf x \<and> bs = enc x @ r"
  using dec_canonical dec_enc by blast

end

end
