(* ===== verification/Bitflags.thy ===== *)
theory Bitflags
  imports Prelude
begin

text \<open>
  The flag sets of \<open>macros.rs\<close>: a flag set is its raw bits, every bit is retained whether or
  not it has a name, and \<open>contains\<close> asks for all bits of the other set.
\<close>

definition flags_empty :: "'a::len word" where
  "flags_empty = 0"

definition from_bits_retain :: "'a::len word \<Rightarrow> 'a word" where
  "from_bits_retain bits = bits"

definition flags_contains :: "'a::len word \<Rightarrow> 'a word \<Rightarrow> bool" where
  "flags_contains self other \<longleftrightarrow> self AND other = other"

definition flags_union :: "'a::len word \<Rightarrow> 'a word \<Rightarrow> 'a word" where
  "flags_union self other = self OR other"

lemma from_bits_retain_id [simp]: "from_bits_retain b = b"
  by (simp add: from_bits_retain_def)

lemma flags_contains_iff: "flags_contains s f \<longleftrightarrow> (\<forall>n. bit f n \<longrightarrow> bit s n)"
proof
  assume "flags_contains s f"
  then have "bit f n \<Longrightarrow> bit s n" for n by (metis bit_and_iff flags_contains_def)
  then show "\<forall>n. bit f n \<longrightarrow> bit s n" by blast
next
  assume "\<forall>n. bit f n \<longrightarrow> bit s n"
  then have "s AND f = f" by (intro bit_word_eqI) (auto simp: bit_simps)
  then show "flags_contains s f" by (simp add: flags_contains_def)
qed

lemma flags_contains_union [simp]:
  "flags_contains s (flags_union f g) \<longleftrightarrow> flags_contains s f \<and> flags_contains s g"
  by (auto simp: flags_contains_iff flags_union_def bit_simps)

lemma flags_contains_refl [simp]: "flags_contains f f"
  by (simp add: flags_contains_def)

lemma flags_contains_of_union: "flags_contains f h \<Longrightarrow> flags_contains (flags_union f g) h"
  by (auto simp: flags_contains_iff flags_union_def bit_simps)

lemma flags_contains_empty [simp]: "flags_contains s flags_empty"
  by (simp add: flags_contains_def flags_empty_def)

end
