(* ===== verification/Footer_Format.thy ===== *)
theory Footer_Format
  imports Codec Bitflags
begin

text \<open>
  \<open>footer.rs\<close>: the 76 bytes at the end of a package, their flag set, the host library policy
  two of the flags encode, and the structure hash that covers the footer. BLAKE3 is a parameter.
\<close>

section \<open>Constants and flags\<close>

definition FOOTER_SIZE :: nat where "FOOTER_SIZE = 76"
definition MAGIC :: bytes where "MAGIC = lit ''ONELF'' @ [0, 1, 0]"
definition END_MAGIC :: bytes where "END_MAGIC = lit ''FLENONE'' @ [0]"
definition FORMAT_VERSION :: u16 where "FORMAT_VERSION = 2"

definition HAS_DICT :: u16 where "HAS_DICT = 0x0001"
definition MEMFD_HINT :: u16 where "MEMFD_HINT = 0x0002"
definition STORED :: u16 where "STORED = 0x0008"
definition EXTERNAL_UPDATER :: u16 where "EXTERNAL_UPDATER = 0x0010"
definition NO_HOST_LIB_DIRS :: u16 where "NO_HOST_LIB_DIRS = 0x0020"
definition HOST_LIBS_ALWAYS :: u16 where "HOST_LIBS_ALWAYS = 0x0040"
definition CACHE_REQUESTED :: u16 where "CACHE_REQUESTED = 0x0080"
definition CACHE_PREFERRED :: u16 where "CACHE_PREFERRED = 0x0100"
definition STIPPLE_PAYLOAD :: u16 where "STIPPLE_PAYLOAD = 0x0200"

lemma length_magic [simp]: "length MAGIC = 8" "length END_MAGIC = 8"
  by (simp_all add: MAGIC_def END_MAGIC_def)

section \<open>The host library policy\<close>

datatype host_libs_policy = Never | Auto | Always

definition policy_from_flags :: "u16 \<Rightarrow> host_libs_policy" where
  "policy_from_flags flags =
     (if flags_contains flags NO_HOST_LIB_DIRS then Never
      else if flags_contains flags HOST_LIBS_ALWAYS then Always
      else Auto)"

definition policy_to_flags :: "host_libs_policy \<Rightarrow> u16" where
  "policy_to_flags p =
     (case p of Never \<Rightarrow> NO_HOST_LIB_DIRS | Auto \<Rightarrow> flags_empty | Always \<Rightarrow> HOST_LIBS_ALWAYS)"

definition policy_as_str :: "host_libs_policy \<Rightarrow> bytes" where
  "policy_as_str p =
     (case p of Never \<Rightarrow> lit ''never'' | Auto \<Rightarrow> lit ''auto'' | Always \<Rightarrow> lit ''always'')"

lemma policy_roundtrip: "policy_from_flags (policy_to_flags p) = p"
  by (cases p) (simp_all add: policy_from_flags_def policy_to_flags_def flags_contains_def
      NO_HOST_LIB_DIRS_def HOST_LIBS_ALWAYS_def flags_empty_def)

lemma policy_never_wins:
  "policy_from_flags (flags_union NO_HOST_LIB_DIRS flags) = Never"
  by (simp add: policy_from_flags_def flags_contains_of_union)

section \<open>The footer\<close>

record footer =
  f_format_version :: u16
  f_flags :: u16
  f_manifest_offset :: u64
  f_manifest_compressed :: u64
  f_manifest_original :: u64
  f_payload_offset :: u64
  f_payload_size :: u64
  f_dict_offset :: u64
  f_dict_size :: u32
  f_manifest_checksum :: bytes

definition is_stored :: "footer \<Rightarrow> bool" where
  "is_stored f \<longleftrightarrow> flags_contains (f_flags f) STORED"

definition is_stipple :: "footer \<Rightarrow> bool" where
  "is_stipple f \<longleftrightarrow> flags_contains (f_flags f) STIPPLE_PAYLOAD"

definition write_footer :: "footer \<Rightarrow> bytes" where
  "write_footer f =
     MAGIC
     @ le_bytes 2 (f_format_version f)
     @ le_bytes 2 (f_flags f)
     @ le_bytes 8 (f_manifest_offset f)
     @ le_bytes 8 (f_manifest_compressed f)
     @ le_bytes 8 (f_manifest_original f)
     @ le_bytes 8 (f_payload_offset f)
     @ le_bytes 8 (f_payload_size f)
     @ le_bytes 8 (f_dict_offset f)
     @ le_bytes 4 (f_dict_size f)
     @ f_manifest_checksum f
     @ END_MAGIC"

definition footer_from_bytes :: "bytes \<Rightarrow> io_error + footer" where
  "footer_from_bytes buf =
     (if slice 0 8 buf \<noteq> MAGIC then Inl (InvalidData ''invalid onelf magic'')
      else if slice 68 76 buf \<noteq> END_MAGIC then Inl (InvalidData ''invalid onelf end magic'')
      else
        let format_version = (le_value (slice 8 10 buf) :: u16) in
        if format_version \<noteq> 1 \<and> format_version \<noteq> FORMAT_VERSION
        then Inl (InvalidDataOf ''unsupported format version: '' (unat format_version))
        else
          let flags = from_bits_retain (le_value (slice 10 12 buf)) in
          Inr \<lparr> f_format_version = format_version,
                f_flags = flags,
                f_manifest_offset = le_value (slice 12 20 buf),
                f_manifest_compressed = le_value (slice 20 28 buf),
                f_manifest_original = le_value (slice 28 36 buf),
                f_payload_offset = le_value (slice 36 44 buf),
                f_payload_size = le_value (slice 44 52 buf),
                f_dict_offset = le_value (slice 52 60 buf),
                f_dict_size = le_value (slice 60 64 buf),
                f_manifest_checksum = slice 64 68 buf \<rparr>)"

definition read_footer :: "bytes \<Rightarrow> io_error + footer \<times> bytes" where
  "read_footer r =
     tryE (read_exact FOOTER_SIZE r) (\<lambda>(buf, r').
     tryE (footer_from_bytes buf) (\<lambda>f. Inr (f, r')))"

text \<open>\<open>buf[a..b].fill(0)\<close>.\<close>

definition fill_zero :: "nat \<Rightarrow> nat \<Rightarrow> bytes \<Rightarrow> bytes" where
  "fill_zero a b buf = take a buf @ replicate (b - a) 0 @ drop b buf"

definition structure_hash :: "(bytes \<Rightarrow> bytes) \<Rightarrow> footer \<Rightarrow> bytes" where
  "structure_hash blake3 f = blake3 (fill_zero 52 60 (fill_zero 20 44 (write_footer f)))"

text \<open>A footer a package can carry: a readable version, and a checksum of four bytes.\<close>

definition footer_wf :: "footer \<Rightarrow> bool" where
  "footer_wf f \<longleftrightarrow>
     (f_format_version f = 1 \<or> f_format_version f = FORMAT_VERSION)
     \<and> length (f_manifest_checksum f) = 4"

lemma length_write_footer:
  "length (f_manifest_checksum f) = 4 \<Longrightarrow> length (write_footer f) = FOOTER_SIZE"
  by (simp add: write_footer_def FOOTER_SIZE_def)

lemma footer_fields:
  assumes "length (f_manifest_checksum f) = 4"
  shows "slice 0 8 (write_footer f) = MAGIC"
    and "slice 8 10 (write_footer f) = le_bytes 2 (f_format_version f)"
    and "slice 10 12 (write_footer f) = le_bytes 2 (f_flags f)"
    and "slice 12 20 (write_footer f) = le_bytes 8 (f_manifest_offset f)"
    and "slice 20 28 (write_footer f) = le_bytes 8 (f_manifest_compressed f)"
    and "slice 28 36 (write_footer f) = le_bytes 8 (f_manifest_original f)"
    and "slice 36 44 (write_footer f) = le_bytes 8 (f_payload_offset f)"
    and "slice 44 52 (write_footer f) = le_bytes 8 (f_payload_size f)"
    and "slice 52 60 (write_footer f) = le_bytes 8 (f_dict_offset f)"
    and "slice 60 64 (write_footer f) = le_bytes 4 (f_dict_size f)"
    and "slice 64 68 (write_footer f) = f_manifest_checksum f"
    and "slice 68 76 (write_footer f) = END_MAGIC"
  using assms by (simp_all add: write_footer_def slice_def)

lemma footer_from_write: "footer_wf f \<Longrightarrow> footer_from_bytes (write_footer f) = Inr f"
  by (auto simp: footer_from_bytes_def footer_wf_def footer_fields codec_simps)

lemma footer_write_from:
  assumes rd: "footer_from_bytes buf = Inr f" and len: "length buf = FOOTER_SIZE"
  shows "write_footer f = buf \<and> footer_wf f"
proof -
  have len': "length buf = 76" using len by (simp add: FOOTER_SIZE_def)
  from rd have magic: "slice 0 8 buf = MAGIC" "slice 68 76 buf = END_MAGIC"
    and ver: "(le_value (slice 8 10 buf) :: u16) = 1
        \<or> (le_value (slice 8 10 buf) :: u16) = FORMAT_VERSION"
    and f: "f = \<lparr> f_format_version = le_value (slice 8 10 buf),
                f_flags = le_value (slice 10 12 buf),
                f_manifest_offset = le_value (slice 12 20 buf),
                f_manifest_compressed = le_value (slice 20 28 buf),
                f_manifest_original = le_value (slice 28 36 buf),
                f_payload_offset = le_value (slice 36 44 buf),
                f_payload_size = le_value (slice 44 52 buf),
                f_dict_offset = le_value (slice 52 60 buf),
                f_dict_size = le_value (slice 60 64 buf),
                f_manifest_checksum = slice 64 68 buf \<rparr>"
    by (auto simp: footer_from_bytes_def Let_def split: if_splits)
  have "write_footer f = slice 0 8 buf @ slice 8 10 buf @ slice 10 12 buf @ slice 12 20 buf
      @ slice 20 28 buf @ slice 28 36 buf @ slice 36 44 buf @ slice 44 52 buf @ slice 52 60 buf
      @ slice 60 64 buf @ slice 64 68 buf @ slice 68 76 buf"
    using len' by (simp add: f write_footer_def codec_simps flip: magic)
  also have "\<dots> = buf" using len' by (simp add: slice_join slice_0_all)
  finally show ?thesis using ver len' by (simp add: footer_wf_def f)
qed

lemma read_footer_write: "footer_wf f \<Longrightarrow> read_footer (write_footer f @ r) = Inr (f, r)"
  by (simp add: read_footer_def read_exact_append length_write_footer footer_from_write
      footer_wf_def [THEN iffD1, THEN conjunct2])

lemma read_footer_canonical: "read_footer bs = Inr (f, r) \<Longrightarrow> bs = write_footer f @ r \<and> footer_wf f"
  by (auto simp: read_footer_def tryE_Inr_iff read_exact_Inr_iff dest: footer_write_from)

interpretation footer_codec: canonical_codec write_footer read_footer footer_wf
  by unfold_locales (simp_all add: read_footer_write read_footer_canonical)

section \<open>What the structure hash covers\<close>

text \<open>A footer with the four layout fields zeroed, which is what the structure hash reads.\<close>

definition layout_erased :: "footer \<Rightarrow> footer" where
  "layout_erased f = f\<lparr> f_manifest_compressed := 0, f_manifest_original := 0,
     f_payload_offset := 0, f_dict_offset := 0 \<rparr>"

lemma le_bytes_8_zero: "le_bytes 8 (0 :: u64) = replicate 8 0"
  by (simp add: le_bytes_eval eval_nat_numeral)

lemma structure_preimage:
  "length (f_manifest_checksum f) = 4 \<Longrightarrow>
     fill_zero 52 60 (fill_zero 20 44 (write_footer f)) = write_footer (layout_erased f)"
  by (simp add: fill_zero_def write_footer_def layout_erased_def le_bytes_8_zero
      flip: replicate_add)

lemma layout_erased_wf [simp]: "footer_wf (layout_erased f) = footer_wf f"
  by (simp add: footer_wf_def layout_erased_def)


text \<open>
  C2: The footer codec is exact. Reading 76 bytes succeeds on precisely the bytes a footer of a
  supported version serializes to, and returns that footer, so no field is lost, reordered or
  truncated and no byte string with another magic, end magic or version is accepted.
\<close>

theorem footer_codec_exact:
  "read_footer bs = Inr (f, r) \<longleftrightarrow> footer_wf f \<and> bs = write_footer f @ r"
  by (rule footer_codec.dec_iff)

text \<open>
  C10: The structure hash covers exactly the footer without its four layout fields. Whatever the
  hash function is, two footers hash alike under every one of them just when they agree on all
  fields other than the manifest sizes, the payload offset and the dictionary offset.
\<close>

theorem structure_hash_covers:
  assumes "footer_wf f" and "footer_wf g"
  shows "(\<forall>blake3. structure_hash blake3 f = structure_hash blake3 g)
           \<longleftrightarrow> layout_erased f = layout_erased g"
proof -
  have pre: "structure_hash h x = h (write_footer (layout_erased x))" if "footer_wf x" for h x
    using that by (simp add: structure_hash_def structure_preimage footer_wf_def)
  show ?thesis
  proof
    assume "\<forall>blake3. structure_hash blake3 f = structure_hash blake3 g"
    then have "structure_hash id f = structure_hash id g" by (rule spec)
    then have "write_footer (layout_erased f) = write_footer (layout_erased g)"
      using assms by (simp add: pre)
    then show "layout_erased f = layout_erased g"
      using assms footer_codec.enc_unique [of "layout_erased f" "layout_erased g" "[]" "[]"] by simp
  qed (simp add: assms pre)
qed

definition sample_footer :: footer where
  "sample_footer = \<lparr> f_format_version = 2, f_flags = STORED, f_manifest_offset = 4096,
     f_manifest_compressed = 300, f_manifest_original = 900, f_payload_offset = 4396,
     f_payload_size = 100000, f_dict_offset = 0, f_dict_size = 0,
     f_manifest_checksum = [1, 2, 3, 4] \<rparr>"

lemma sample_footer_wf: "footer_wf sample_footer"
  by (simp add: footer_wf_def sample_footer_def FORMAT_VERSION_def)

theorem structure_hash_covers_witness:
  "(\<forall>blake3. structure_hash blake3 sample_footer
      = structure_hash blake3 (sample_footer\<lparr>f_payload_offset := 9\<rparr>))
   \<and> \<not> (\<forall>blake3. structure_hash blake3 sample_footer
      = structure_hash blake3 (sample_footer\<lparr>f_payload_size := 9\<rparr>))"
proof -
  have wf: "footer_wf (sample_footer\<lparr>f_payload_offset := 9\<rparr>)"
    "footer_wf (sample_footer\<lparr>f_payload_size := 9\<rparr>)"
    by (simp_all add: footer_wf_def sample_footer_def FORMAT_VERSION_def)
  show ?thesis
    using structure_hash_covers [OF sample_footer_wf wf(1)]
      structure_hash_covers [OF sample_footer_wf wf(2)]
    by (simp add: layout_erased_def sample_footer_def)
qed

end
