(* ===== verification/Entry_Format.thy ===== *)
theory Entry_Format
  imports Codec Bitflags
begin

text \<open>
  \<open>entry.rs\<close>: the fixed-layout records of a manifest (payload blocks, entrypoints and
  filesystem entries) with their serializers and the bounded readers, and the laws that make
  each a stream codec: what was written is read back, and what was read re-encodes to the
  bytes it was read from.
\<close>

section \<open>Kinds and working directories\<close>

datatype entry_kind = Dir | File | Symlink

definition kind_u8 :: "entry_kind \<Rightarrow> u8" where
  "kind_u8 k = (case k of Dir \<Rightarrow> 0 | File \<Rightarrow> 1 | Symlink \<Rightarrow> 2)"

definition entry_kind_try_from :: "u8 \<Rightarrow> io_error + entry_kind" where
  "entry_kind_try_from v =
     (if v = 0 then Inr Dir
      else if v = 1 then Inr File
      else if v = 2 then Inr Symlink
      else Inl (InvalidDataOf ''invalid entry kind: '' (unat v)))"

datatype working_dir = Inherit | PackageRoot | EntrypointParent

definition working_dir_u8 :: "working_dir \<Rightarrow> u8" where
  "working_dir_u8 w = (case w of Inherit \<Rightarrow> 0 | PackageRoot \<Rightarrow> 1 | EntrypointParent \<Rightarrow> 2)"

definition working_dir_try_from :: "u8 \<Rightarrow> io_error + working_dir" where
  "working_dir_try_from v =
     (if v = 0 then Inr Inherit
      else if v = 1 then Inr PackageRoot
      else if v = 2 then Inr EntrypointParent
      else Inl (InvalidDataOf ''invalid working_dir: '' (unat v)))"

lemma entry_kind_roundtrip [simp]: "entry_kind_try_from (kind_u8 k) = Inr k"
  by (cases k) (simp_all add: entry_kind_try_from_def kind_u8_def)

lemma entry_kind_try_from_Inr: "entry_kind_try_from v = Inr k \<longleftrightarrow> v = kind_u8 k"
  by (cases k) (auto simp: entry_kind_try_from_def kind_u8_def)

lemma working_dir_roundtrip [simp]: "working_dir_try_from (working_dir_u8 w) = Inr w"
  by (cases w) (simp_all add: working_dir_try_from_def working_dir_u8_def)

lemma working_dir_try_from_Inr: "working_dir_try_from v = Inr w \<longleftrightarrow> v = working_dir_u8 w"
  by (cases w) (auto simp: working_dir_try_from_def working_dir_u8_def)

section \<open>Blocks\<close>

record block =
  b_payload_offset :: u64
  b_compressed_size :: u64
  b_original_size :: u64
  b_content_hash :: bytes

definition BLOCK_SIZE :: nat where "BLOCK_SIZE = 56"
definition BLOCK_SIZE_V1 :: nat where "BLOCK_SIZE_V1 = 24"

definition zero_hash :: bytes where
  "zero_hash = replicate 32 0"

lemma length_zero_hash [simp]: "length zero_hash = 32"
  by (simp add: zero_hash_def)

definition write_block :: "block \<Rightarrow> bytes" where
  "write_block b =
     le_bytes 8 (b_payload_offset b) @ le_bytes 8 (b_compressed_size b)
     @ le_bytes 8 (b_original_size b) @ b_content_hash b"

definition read_block :: "u16 \<Rightarrow> bytes \<Rightarrow> io_error + block \<times> bytes" where
  "read_block version r =
     (let width = (if version \<ge> 2 then BLOCK_SIZE else BLOCK_SIZE_V1)
      in tryE (read_exact width r) (\<lambda>(got, r').
           let buf = got @ replicate (BLOCK_SIZE - width) 0
           in Inr (\<lparr> b_payload_offset = le_value (slice 0 8 buf),
                     b_compressed_size = le_value (slice 8 16 buf),
                     b_original_size = le_value (slice 16 24 buf),
                     b_content_hash = slice 24 56 buf \<rparr>, r')))"

definition has_content_hash :: "block \<Rightarrow> bool" where
  "has_content_hash b \<longleftrightarrow> b_content_hash b \<noteq> zero_hash"

text \<open>A digest field is a \<open>[u8; 32]\<close>, so it holds 32 bytes.\<close>

definition block_wf :: "block \<Rightarrow> bool" where
  "block_wf b \<longleftrightarrow> length (b_content_hash b) = 32"

lemma length_write_block [simp]: "block_wf b \<Longrightarrow> length (write_block b) = BLOCK_SIZE"
  by (simp add: write_block_def block_wf_def BLOCK_SIZE_def)

lemma read_write_block:
  assumes "2 \<le> version" and "block_wf b"
  shows "read_block version (write_block b @ r) = Inr (b, r)"
proof -
  have "read_exact BLOCK_SIZE (write_block b @ r) = Inr (write_block b, r)"
    using assms by (simp add: read_exact_append)
  moreover have "slice 0 8 (write_block b) = le_bytes 8 (b_payload_offset b)"
    "slice 8 16 (write_block b) = le_bytes 8 (b_compressed_size b)"
    "slice 16 24 (write_block b) = le_bytes 8 (b_original_size b)"
    "slice 24 56 (write_block b) = b_content_hash b"
    using assms(2) by (simp_all add: write_block_def slice_def block_wf_def)
  ultimately show ?thesis using assms(1) by (simp add: read_block_def codec_simps)
qed

lemma read_block_canonical:
  assumes v: "2 \<le> version" and rd: "read_block version bs = Inr (b, r)"
  shows "bs = write_block b @ r \<and> block_wf b"
proof -
  from rd v obtain got where got: "read_exact BLOCK_SIZE bs = Inr (got, r)"
    and b: "b = \<lparr> b_payload_offset = le_value (slice 0 8 got),
                  b_compressed_size = le_value (slice 8 16 got),
                  b_original_size = le_value (slice 16 24 got),
                  b_content_hash = slice 24 56 got \<rparr>"
    by (auto simp: read_block_def tryE_Inr_iff)
  from got have bs: "bs = got @ r" and len: "length got = 56"
    by (simp_all add: read_exact_Inr_iff BLOCK_SIZE_def)
  have "write_block b = slice 0 8 got @ slice 8 16 got @ slice 16 24 got @ slice 24 56 got"
    using len by (simp add: b write_block_def codec_simps)
  also have "\<dots> = got" using len by (simp add: slice_join slice_0_all)
  finally show ?thesis using bs len by (simp add: b block_wf_def)
qed

interpretation block_codec: canonical_codec write_block "read_block 2" block_wf
  by unfold_locales (auto simp: read_write_block dest: read_block_canonical [rotated])

text \<open>A version 1 block stops before the digest, which then reads as zeros.\<close>

lemma read_block_v1:
  assumes "version < 2" and "read_block version bs = Inr (b, r)"
  shows "\<exists>got. bs = got @ r \<and> length got = BLOCK_SIZE_V1 \<and> \<not> has_content_hash b"
  using assms
  by (auto simp: read_block_def tryE_Inr_iff read_exact_Inr_iff has_content_hash_def
      BLOCK_SIZE_def BLOCK_SIZE_V1_def slice_def zero_hash_def not_le [symmetric])


lemma read_block_ge2: "2 \<le> version \<Longrightarrow> read_block version = read_block 2"
  by (intro ext) (simp add: read_block_def)

section \<open>Entrypoints\<close>

definition MEMFD_ELIGIBLE :: u8 where "MEMFD_ELIGIBLE = 1"

record entrypoint =
  ep_name :: u32
  ep_target_entry :: u32
  ep_args :: u32
  ep_working_dir :: working_dir
  ep_flags :: u8

definition ENTRYPOINT_SIZE :: nat where "ENTRYPOINT_SIZE = 14"

definition write_entrypoint :: "entrypoint \<Rightarrow> bytes" where
  "write_entrypoint ep =
     le_bytes 4 (ep_name ep) @ le_bytes 4 (ep_target_entry ep) @ le_bytes 4 (ep_args ep)
     @ [working_dir_u8 (ep_working_dir ep)] @ [ep_flags ep]"

definition read_entrypoint :: "bytes \<Rightarrow> io_error + entrypoint \<times> bytes" where
  "read_entrypoint r =
     tryE (read_exact ENTRYPOINT_SIZE r) (\<lambda>(buf, r').
     tryE (working_dir_try_from (buf ! 12)) (\<lambda>wd.
       Inr (\<lparr> ep_name = le_value (slice 0 4 buf),
              ep_target_entry = le_value (slice 4 8 buf),
              ep_args = le_value (slice 8 12 buf),
              ep_working_dir = wd,
              ep_flags = from_bits_retain (buf ! 13) \<rparr>, r')))"

definition is_memfd_eligible :: "entrypoint \<Rightarrow> bool" where
  "is_memfd_eligible ep \<longleftrightarrow> flags_contains (ep_flags ep) MEMFD_ELIGIBLE"

lemma length_write_entrypoint [simp]: "length (write_entrypoint ep) = ENTRYPOINT_SIZE"
  by (simp add: write_entrypoint_def ENTRYPOINT_SIZE_def)

lemma read_write_entrypoint: "read_entrypoint (write_entrypoint ep @ r) = Inr (ep, r)"
proof -
  have "slice 0 4 (write_entrypoint ep) = le_bytes 4 (ep_name ep)"
    "slice 4 8 (write_entrypoint ep) = le_bytes 4 (ep_target_entry ep)"
    "slice 8 12 (write_entrypoint ep) = le_bytes 4 (ep_args ep)"
    "write_entrypoint ep ! 12 = working_dir_u8 (ep_working_dir ep)"
    "write_entrypoint ep ! 13 = ep_flags ep"
    by (simp_all add: write_entrypoint_def slice_def nth_append)
  then show ?thesis by (simp add: read_entrypoint_def codec_simps)
qed

lemma two_bytes_slice: "length xs = n + 2 \<Longrightarrow> slice n (n + 2) xs = [xs ! n, xs ! (n + 1)]"
  by (rule nth_equalityI) (auto simp: nth_slice nth_Cons less_Suc_eq split: nat.splits)

lemma read_entrypoint_canonical:
  assumes rd: "read_entrypoint bs = Inr (ep, r)"
  shows "bs = write_entrypoint ep @ r"
proof -
  from rd obtain buf wd where got: "read_exact ENTRYPOINT_SIZE bs = Inr (buf, r)"
    and wd: "working_dir_try_from (buf ! 12) = Inr wd"
    and ep: "ep = \<lparr> ep_name = le_value (slice 0 4 buf),
                  ep_target_entry = le_value (slice 4 8 buf),
                  ep_args = le_value (slice 8 12 buf),
                  ep_working_dir = wd, ep_flags = buf ! 13 \<rparr>"
    by (auto simp: read_entrypoint_def tryE_Inr_iff)
  from got have bs: "bs = buf @ r" and len: "length buf = 14"
    by (simp_all add: read_exact_Inr_iff ENTRYPOINT_SIZE_def)
  have two: "[working_dir_u8 wd] @ [buf ! 13] = slice 12 14 buf"
    using wd len two_bytes_slice [of buf 12] by (simp add: working_dir_try_from_Inr)
  have "write_entrypoint ep = slice 0 4 buf @ slice 4 8 buf @ slice 8 12 buf @ slice 12 14 buf"
    using len by (simp add: ep write_entrypoint_def codec_simps flip: two)
  also have "\<dots> = buf" using len by (simp add: slice_join slice_0_all)
  finally show ?thesis using bs by simp
qed

interpretation entrypoint_codec: canonical_codec write_entrypoint read_entrypoint "\<lambda>_. True"
  by unfold_locales (simp_all add: read_write_entrypoint read_entrypoint_canonical)

section \<open>Entries\<close>

record entry =
  e_kind :: entry_kind
  e_parent :: u32
  e_name :: u32
  e_mode :: u32
  e_mtime_secs :: u64
  e_mtime_nsec :: u32
  e_content_hash :: bytes
  e_blocks :: "block list"
  e_symlink_target :: u32

definition ENTRY_HEADER_SIZE :: nat where "ENTRY_HEADER_SIZE = 65"

text \<open>The 65 bytes before the blocks. The block count is derived from the list of blocks.\<close>

definition write_entry_header :: "entry \<Rightarrow> bytes" where
  "write_entry_header e =
     [kind_u8 (e_kind e)] @ le_bytes 4 (e_parent e) @ le_bytes 4 (e_name e)
     @ le_bytes 4 (e_mode e) @ le_bytes 8 (e_mtime_secs e) @ le_bytes 4 (e_mtime_nsec e)
     @ e_content_hash e @ le_bytes 4 (of_nat (length (e_blocks e)) :: u32)
     @ le_bytes 4 (e_symlink_target e)"

definition write_entry :: "entry \<Rightarrow> bytes" where
  "write_entry e = write_entry_header e @ concat (map write_block (e_blocks e))"

definition read_entry :: "u16 \<Rightarrow> bytes \<Rightarrow> io_error + entry \<times> bytes" where
  "read_entry version r =
     tryE (read_exact ENTRY_HEADER_SIZE r) (\<lambda>(buf, r1).
     tryE (entry_kind_try_from (buf ! 0)) (\<lambda>kind.
     let num_blocks = (le_value (slice 57 61 buf) :: u32) in
     tryE (read_n (read_block version) (unat num_blocks) r1) (\<lambda>(blocks, r2).
       Inr (\<lparr> e_kind = kind,
              e_parent = le_value (slice 1 5 buf),
              e_name = le_value (slice 5 9 buf),
              e_mode = le_value (slice 9 13 buf),
              e_mtime_secs = le_value (slice 13 21 buf),
              e_mtime_nsec = le_value (slice 21 25 buf),
              e_content_hash = slice 25 57 buf,
              e_blocks = blocks,
              e_symlink_target = le_value (slice 61 65 buf) \<rparr>, r2))))"

definition entry_wf :: "entry \<Rightarrow> bool" where
  "entry_wf e \<longleftrightarrow> length (e_content_hash e) = 32 \<and> length (e_blocks e) < 2 ^ 32
     \<and> (\<forall>b \<in> set (e_blocks e). block_wf b)"

lemma length_write_entry_header:
  "length (e_content_hash e) = 32 \<Longrightarrow> length (write_entry_header e) = ENTRY_HEADER_SIZE"
  by (simp add: write_entry_header_def ENTRY_HEADER_SIZE_def)

lemma entry_header_fields:
  assumes "length (e_content_hash e) = 32"
  shows "write_entry_header e ! 0 = kind_u8 (e_kind e)"
    and "slice 1 5 (write_entry_header e) = le_bytes 4 (e_parent e)"
    and "slice 5 9 (write_entry_header e) = le_bytes 4 (e_name e)"
    and "slice 9 13 (write_entry_header e) = le_bytes 4 (e_mode e)"
    and "slice 13 21 (write_entry_header e) = le_bytes 8 (e_mtime_secs e)"
    and "slice 21 25 (write_entry_header e) = le_bytes 4 (e_mtime_nsec e)"
    and "slice 25 57 (write_entry_header e) = e_content_hash e"
    and "slice 57 61 (write_entry_header e) = le_bytes 4 (of_nat (length (e_blocks e)) :: u32)"
    and "slice 61 65 (write_entry_header e) = le_bytes 4 (e_symlink_target e)"
  using assms by (simp_all add: write_entry_header_def slice_def)

lemma read_write_entry:
  assumes "2 \<le> version" and wf: "entry_wf e"
  shows "read_entry version (write_entry e @ r) = Inr (e, r)"
proof -
  from wf have len: "length (e_content_hash e) = 32" and n: "length (e_blocks e) < 2 ^ 32"
    and bl: "\<forall>b \<in> set (e_blocks e). block_wf b" by (simp_all add: entry_wf_def)
  have count: "unat (of_nat (length (e_blocks e)) :: u32) = length (e_blocks e)"
    using n by (simp add: unat_of_nat)
  have "read_exact ENTRY_HEADER_SIZE (write_entry e @ r)
      = Inr (write_entry_header e, concat (map write_block (e_blocks e)) @ r)"
    using len by (simp add: write_entry_def read_exact_append length_write_entry_header)
  then show ?thesis
    using block_codec.table_enc [OF bl refl, of r] assms(1)
    by (simp add: read_entry_def entry_header_fields [OF len] codec_simps count
        read_block_ge2 [of version] del: One_nat_def)
qed

lemma read_entry_canonical:
  assumes v: "2 \<le> version" and rd: "read_entry version bs = Inr (e, r)"
  shows "bs = write_entry e @ r \<and> entry_wf e"
proof -
  from rd obtain buf r1 kind blocks where got: "read_exact ENTRY_HEADER_SIZE bs = Inr (buf, r1)"
    and kind: "entry_kind_try_from (buf ! 0) = Inr kind"
    and blocks: "read_n (read_block version) (unat (le_value (slice 57 61 buf) :: u32)) r1
                   = Inr (blocks, r)"
    and e: "e = \<lparr> e_kind = kind, e_parent = le_value (slice 1 5 buf),
              e_name = le_value (slice 5 9 buf), e_mode = le_value (slice 9 13 buf),
              e_mtime_secs = le_value (slice 13 21 buf), e_mtime_nsec = le_value (slice 21 25 buf),
              e_content_hash = slice 25 57 buf, e_blocks = blocks,
              e_symlink_target = le_value (slice 61 65 buf) \<rparr>"
    by (auto simp: read_entry_def tryE_Inr_iff Let_def)
  from got have bs: "bs = buf @ r1" and len: "length buf = 65"
    by (simp_all add: read_exact_Inr_iff ENTRY_HEADER_SIZE_def)
  from blocks v have tbl: "r1 = concat (map write_block blocks) @ r"
    and n: "length blocks = unat (le_value (slice 57 61 buf) :: u32)"
    and wf: "\<forall>b \<in> set blocks. block_wf b"
    using block_codec.table_canonical [of _ r1 blocks r] read_block_ge2 [OF v] by auto
  have "of_nat (length blocks) = (le_value (slice 57 61 buf) :: u32)" by (simp add: n)
  moreover have k: "[kind_u8 kind] = slice 0 1 buf"
    using kind len by (auto simp: entry_kind_try_from_Inr slice_def take_Suc_conv_app_nth)
  ultimately have "write_entry_header e = slice 0 1 buf @ slice 1 5 buf @ slice 5 9 buf
      @ slice 9 13 buf @ slice 13 21 buf @ slice 21 25 buf @ slice 25 57 buf @ slice 57 61 buf
      @ slice 61 65 buf"
    using len by (simp add: e write_entry_header_def codec_simps)
  also have "\<dots> = buf" using len by (simp add: slice_join slice_0_all)
  finally have "bs = write_entry e @ r" using bs tbl by (simp add: write_entry_def e)
  moreover have "length blocks < 2 ^ 32"
    using unsigned_less [of "le_value (slice 57 61 buf) :: u32"] by (simp add: n)
  ultimately show ?thesis using len wf by (simp add: entry_wf_def e)
qed

interpretation entry_codec: canonical_codec write_entry "read_entry 2" entry_wf
  by unfold_locales (auto simp: read_write_entry dest: read_entry_canonical [rotated])

lemma read_entry_ge2: "2 \<le> version \<Longrightarrow> read_entry version = read_entry 2"
  by (intro ext) (simp add: read_entry_def read_block_ge2 [of version])

end
