(* ===== verification/Bounds.thy ===== *)
theory Bounds
  imports Footer_Format Entry_Format
begin

text \<open>
  \<open>reader.rs\<close>: the bounds checks on the regions a footer and a block describe. Every offset
  and size is a 64-bit word an attacker chooses, so the additions are the checked ones, and the
  conversions to \<open>usize\<close> take the largest \<open>usize\<close> of the platform as a parameter.
\<close>

definition in_bounds :: "u64 \<Rightarrow> u64 \<Rightarrow> u64 \<Rightarrow> bool" where
  "in_bounds off len file_size =
     (case checked_add_u64 off len of None \<Rightarrow> False | Some end' \<Rightarrow> end' \<le> file_size)"

definition MAX_MANIFEST_EXPANSION :: u64 where "MAX_MANIFEST_EXPANSION = 1024"
definition MAX_MANIFEST_ORIGINAL :: u64 where "MAX_MANIFEST_ORIGINAL = push_bit 20 256"
definition MAX_BLOCK_ORIGINAL :: u64 where "MAX_BLOCK_ORIGINAL = 256 * 1024 * 1024"

definition validate_footer :: "footer \<Rightarrow> u64 \<Rightarrow> io_error + unit" where
  "validate_footer f file_size =
     (if \<not> in_bounds (f_manifest_offset f) (f_manifest_compressed f) file_size
      then Inl (InvalidData ''manifest region out of bounds'')
      else if \<not> in_bounds (f_payload_offset f) (f_payload_size f) file_size
      then Inl (InvalidData ''payload region out of bounds'')
      else if f_manifest_original f > MAX_MANIFEST_ORIGINAL
        \<or> f_manifest_original f > saturating_mul_u64 file_size MAX_MANIFEST_EXPANSION
      then Inl (InvalidData ''manifest expands implausibly'')
      else if f_dict_size f > 0 \<and> \<not> in_bounds (f_dict_offset f) (ucast (f_dict_size f)) file_size
      then Inl (InvalidData ''dictionary region out of bounds'')
      else Inr ())"

definition usize_try_from :: "nat \<Rightarrow> u64 \<Rightarrow> io_error \<Rightarrow> io_error + nat" where
  "usize_try_from usize_limit v e = (if unat v \<le> usize_limit then Inr (unat v) else Inl e)"

definition block_extent :: "nat \<Rightarrow> footer \<Rightarrow> block \<Rightarrow> io_error + u64 \<times> nat" where
  "block_extent usize_limit f b =
     tryE (ok_or (InvalidData ''payload offset overflow'')
       (checked_add_u64 (f_payload_offset f) (b_payload_offset b))) (\<lambda>at.
     tryE (ok_or (InvalidData ''payload region overflow'')
       (checked_add_u64 (f_payload_offset f) (f_payload_size f))) (\<lambda>payload_end.
     if \<not> in_bounds at (b_compressed_size b) payload_end
     then Inl (InvalidData ''block extends past the payload region'')
     else
       tryE (usize_try_from usize_limit (b_compressed_size b)
              (InvalidData ''block larger than this address space'')) (\<lambda>len.
       Inr (at, len))))"

definition block_original_size :: "nat \<Rightarrow> block \<Rightarrow> io_error + nat" where
  "block_original_size usize_limit b =
     (if b_original_size b > MAX_BLOCK_ORIGINAL
      then Inl (InvalidData ''block decompresses to an implausible size'')
      else usize_try_from usize_limit (b_original_size b)
             (InvalidData ''block larger than this address space''))"

lemma in_bounds_iff: "in_bounds off len file_size \<longleftrightarrow> unat off + unat len \<le> unat file_size"
proof (cases "unat off + unat len < 2 ^ 64")
  case True
  then show ?thesis
    using unat_add_lem [of off len]
    by (simp add: in_bounds_def checked_add_u64_def word_le_nat_alt)
next
  case False
  then show ?thesis
    using unat_bounds(4) [of file_size] by (simp add: in_bounds_def checked_add_u64_def)
qed

lemma usize_try_from_Inr [simp]: "usize_try_from m v e = Inr n \<longleftrightarrow> n = unat v \<and> n \<le> m"
  by (auto simp: usize_try_from_def)

lemma validate_footer_iff:
  "validate_footer f file_size = Inr () \<longleftrightarrow>
     unat (f_manifest_offset f) + unat (f_manifest_compressed f) \<le> unat file_size
     \<and> unat (f_payload_offset f) + unat (f_payload_size f) \<le> unat file_size
     \<and> unat (f_manifest_original f) \<le> 256 * 2 ^ 20
     \<and> unat (f_manifest_original f) \<le> 1024 * unat file_size
     \<and> (f_dict_size f = 0 \<or> unat (f_dict_offset f) + unat (f_dict_size f) \<le> unat file_size)"
proof -
  have "unat (f_manifest_original f) < 2 ^ 64" by (rule unat_bounds)
  then have orig: "f_manifest_original f \<le> saturating_mul_u64 file_size MAX_MANIFEST_EXPANSION
      \<longleftrightarrow> unat (f_manifest_original f) \<le> 1024 * unat file_size"
    by (auto simp: word_le_nat_alt unat_saturating_mul_u64 MAX_MANIFEST_EXPANSION_def)
  have ceil: "f_manifest_original f \<le> MAX_MANIFEST_ORIGINAL
      \<longleftrightarrow> unat (f_manifest_original f) \<le> 256 * 2 ^ 20"
    by (simp add: word_le_nat_alt MAX_MANIFEST_ORIGINAL_def)
  have pos: "f_dict_size f > 0 \<longleftrightarrow> f_dict_size f \<noteq> 0" by (simp add: word_gt_0)
  show ?thesis
    unfolding validate_footer_def
    by (simp add: in_bounds_iff not_less orig ceil pos)
qed

text \<open>
  C12: The footer check accepts exactly the footers whose regions lie in the file. Acceptance is
  equivalent to the unbounded sums of offset and size staying within the file for the manifest,
  the payload and (when present) the dictionary, together with the two ceilings on the claimed
  manifest size: no wrap-around can smuggle a region past the check.
\<close>

theorem validate_footer_exact:
  "validate_footer f file_size = Inr () \<longleftrightarrow>
     unat (f_manifest_offset f) + unat (f_manifest_compressed f) \<le> unat file_size
     \<and> unat (f_payload_offset f) + unat (f_payload_size f) \<le> unat file_size
     \<and> unat (f_manifest_original f) \<le> 256 * 2 ^ 20
     \<and> unat (f_manifest_original f) \<le> 1024 * unat file_size
     \<and> (f_dict_size f = 0 \<or> unat (f_dict_offset f) + unat (f_dict_size f) \<le> unat file_size)"
  by (rule validate_footer_iff)

text \<open>
  C13: A block extent accepted for a checked footer can be read. Its offset and length are those
  of the block inside the payload region, they end inside the payload and inside the file, and
  the length fits the platform's \<open>usize\<close>, so the allocation and the read are backed by the file.
\<close>

theorem block_extent_sound:
  assumes "validate_footer f file_size = Inr ()"
    and "block_extent usize_limit f b = Inr (at, len)"
  shows "unat at = unat (f_payload_offset f) + unat (b_payload_offset b)
    \<and> len = unat (b_compressed_size b) \<and> len \<le> usize_limit
    \<and> unat at + len \<le> unat (f_payload_offset f) + unat (f_payload_size f)
    \<and> unat at + len \<le> unat file_size"
proof -
  from assms(1) have pay: "unat (f_payload_offset f) + unat (f_payload_size f) \<le> unat file_size"
    by (simp add: validate_footer_def in_bounds_iff split: if_splits)
  from assms(2) obtain pe
    where "checked_add_u64 (f_payload_offset f) (b_payload_offset b) = Some at"
      and "checked_add_u64 (f_payload_offset f) (f_payload_size f) = Some pe"
      and "in_bounds at (b_compressed_size b) pe"
      and "len = unat (b_compressed_size b)" and "len \<le> usize_limit"
    by (auto simp: block_extent_def tryE_Inr_iff split: if_splits)
  then show ?thesis using pay by (auto simp: checked_add_u64_Some_iff in_bounds_iff)
qed

definition sample_block :: block where
  "sample_block = \<lparr> b_payload_offset = 50, b_compressed_size = 200, b_original_size = 400,
     b_content_hash = replicate 32 7 \<rparr>"

theorem block_extent_sound_witness:
  "validate_footer sample_footer 200000 = Inr ()
   \<and> block_extent (2 ^ 32 - 1) sample_footer sample_block = Inr (4446, 200)
   \<and> unat (4446 :: u64) + 200 \<le> unat (200000 :: u64)"
proof -
  have a: "validate_footer sample_footer 200000 = Inr ()"
    by (simp add: validate_footer_def in_bounds_iff sample_footer_def saturating_mul_u64_def
        MAX_MANIFEST_ORIGINAL_def MAX_MANIFEST_EXPANSION_def)
  have b: "block_extent (2 ^ 32 - 1) sample_footer sample_block = Inr (4446, 200)"
    by (simp add: block_extent_def in_bounds_iff sample_footer_def sample_block_def
        checked_add_u64_def usize_try_from_def)
  from block_extent_sound [OF a b] a b show ?thesis by blast
qed

end
