(* ===== verification/Manifest_Format.thy ===== *)
theory Manifest_Format
  imports Entry_Format
begin

text \<open>
  \<open>manifest.rs\<close>, the table of contents of a package: its header, its serializer, the
  deserializer with its bounds, the cross-reference validation every deserialized manifest has
  passed, and the checksum rule. XXH32 is a parameter.
\<close>

section \<open>The header\<close>

definition MANIFEST_VERSION :: u16 where "MANIFEST_VERSION = 3"
definition MANIFEST_HEADER_SIZE :: nat where "MANIFEST_HEADER_SIZE = 114"
definition V1_HEADER_SIZE :: nat where "V1_HEADER_SIZE = 50"

record manifest_header =
  h_version :: u16
  h_entry_count :: u32
  h_string_table_size :: u32
  h_entrypoint_count :: u16
  h_default_entrypoint :: u16
  h_lib_dir_count :: u16
  h_name_offset :: u16
  h_package_id :: bytes
  h_prefix_hash :: bytes
  h_footer_hash :: bytes

definition write_header :: "manifest_header \<Rightarrow> bytes" where
  "write_header h =
     le_bytes 2 (h_version h) @ le_bytes 4 (h_entry_count h) @ le_bytes 4 (h_string_table_size h)
     @ le_bytes 2 (h_entrypoint_count h) @ le_bytes 2 (h_default_entrypoint h)
     @ le_bytes 2 (h_lib_dir_count h) @ le_bytes 2 (h_name_offset h)
     @ h_package_id h @ h_prefix_hash h @ h_footer_hash h"

definition read_header :: "bytes \<Rightarrow> io_error + manifest_header \<times> bytes" where
  "read_header r =
     tryE (read_exact V1_HEADER_SIZE r) (\<lambda>(buf, r1).
     let header = \<lparr> h_version = le_value (slice 0 2 buf),
                    h_entry_count = le_value (slice 2 6 buf),
                    h_string_table_size = le_value (slice 6 10 buf),
                    h_entrypoint_count = le_value (slice 10 12 buf),
                    h_default_entrypoint = le_value (slice 12 14 buf),
                    h_lib_dir_count = le_value (slice 14 16 buf),
                    h_name_offset = le_value (slice 16 18 buf),
                    h_package_id = slice 18 50 buf,
                    h_prefix_hash = zero_hash,
                    h_footer_hash = zero_hash \<rparr>
     in if h_version header \<ge> 3 then
          tryE (read_exact 64 r1) (\<lambda>(hashes, r2).
          Inr (header\<lparr> h_prefix_hash := take 32 hashes, h_footer_hash := drop 32 hashes \<rparr>, r2))
        else Inr (header, r1))"

definition header_wf :: "manifest_header \<Rightarrow> bool" where
  "header_wf h \<longleftrightarrow> h_version h \<ge> 3 \<and> length (h_package_id h) = 32
     \<and> length (h_prefix_hash h) = 32 \<and> length (h_footer_hash h) = 32"

lemma read_write_header: "header_wf h \<Longrightarrow> read_header (write_header h @ r) = Inr (h, r)"
proof -
  assume wf: "header_wf h"
  let ?a = "le_bytes 2 (h_version h) @ le_bytes 4 (h_entry_count h)
    @ le_bytes 4 (h_string_table_size h) @ le_bytes 2 (h_entrypoint_count h)
    @ le_bytes 2 (h_default_entrypoint h) @ le_bytes 2 (h_lib_dir_count h)
    @ le_bytes 2 (h_name_offset h) @ h_package_id h"
  have len: "length ?a = V1_HEADER_SIZE" using wf by (simp add: header_wf_def V1_HEADER_SIZE_def)
  have split: "write_header h @ r = ?a @ (h_prefix_hash h @ h_footer_hash h) @ r"
    by (simp add: write_header_def)
  have "slice 0 2 ?a = le_bytes 2 (h_version h)"
    "slice 2 6 ?a = le_bytes 4 (h_entry_count h)"
    "slice 6 10 ?a = le_bytes 4 (h_string_table_size h)"
    "slice 10 12 ?a = le_bytes 2 (h_entrypoint_count h)"
    "slice 12 14 ?a = le_bytes 2 (h_default_entrypoint h)"
    "slice 14 16 ?a = le_bytes 2 (h_lib_dir_count h)"
    "slice 16 18 ?a = le_bytes 2 (h_name_offset h)"
    "slice 18 50 ?a = h_package_id h"
    using wf by (simp_all add: slice_def header_wf_def)
  moreover have "read_exact 64 (h_prefix_hash h @ h_footer_hash h @ r)
      = Inr (h_prefix_hash h @ h_footer_hash h, r)"
    using wf read_exact_append [of "h_prefix_hash h @ h_footer_hash h" 64 r]
    by (simp add: header_wf_def)
  ultimately show ?thesis using wf
    unfolding read_header_def split read_exact_append [OF len]
    by (simp add: header_wf_def codec_simps Let_def)
qed

lemma read_header_canonical:
  assumes "read_header bs = Inr (h, r)" and "h_version h \<ge> 3"
  shows "bs = write_header h @ r \<and> header_wf h"
proof -
  from assms obtain buf hs r1 where a: "read_exact V1_HEADER_SIZE bs = Inr (buf, r1)"
    and b: "read_exact 64 r1 = Inr (hs, r)"
    and h: "h = \<lparr> h_version = le_value (slice 0 2 buf),
                    h_entry_count = le_value (slice 2 6 buf),
                    h_string_table_size = le_value (slice 6 10 buf),
                    h_entrypoint_count = le_value (slice 10 12 buf),
                    h_default_entrypoint = le_value (slice 12 14 buf),
                    h_lib_dir_count = le_value (slice 14 16 buf),
                    h_name_offset = le_value (slice 16 18 buf),
                    h_package_id = slice 18 50 buf,
                    h_prefix_hash = take 32 hs, h_footer_hash = drop 32 hs \<rparr>"
    by (auto simp: read_header_def tryE_Inr_iff Let_def split: if_splits)
  from a b have bs: "bs = buf @ hs @ r" and len: "length buf = 50" "length hs = 64"
    by (simp_all add: read_exact_Inr_iff V1_HEADER_SIZE_def)
  have "write_header h = (slice 0 2 buf @ slice 2 6 buf @ slice 6 10 buf @ slice 10 12 buf
      @ slice 12 14 buf @ slice 14 16 buf @ slice 16 18 buf @ slice 18 50 buf) @ hs"
    using len by (simp add: h write_header_def codec_simps)
  also have "\<dots> = buf @ hs" using len by (simp add: slice_join slice_0_all)
  finally show ?thesis using bs len assms(2) by (simp add: header_wf_def h)
qed

text \<open>Versions 1 and 2 carry no structure hashes, which then read as zeros.\<close>

lemma read_header_old:
  assumes "read_header bs = Inr (h, r)" and "h_version h < 3"
  shows "h_prefix_hash h = zero_hash \<and> h_footer_hash h = zero_hash \<and> length bs = 50 + length r"
  using assms
  by (auto simp: read_header_def tryE_Inr_iff read_exact_Inr_iff V1_HEADER_SIZE_def Let_def
      split: if_splits)

section \<open>The checksum a footer carries\<close>

definition FOOTER_HASH_START :: nat where "FOOTER_HASH_START = 82"
definition FOOTER_HASH_END :: nat where "FOOTER_HASH_END = 114"

definition manifest_checksum :: "(bytes \<Rightarrow> u32) \<Rightarrow> bytes \<Rightarrow> io_error + bytes" where
  "manifest_checksum xxh32 manifest =
     tryE (ok_or (InvalidData ''manifest header truncated'') (get_slice manifest 0 2)) (\<lambda>v.
     let version = (le_value v :: u16) in
     if version < 3 then Inr (le_bytes 4 (xxh32 manifest))
     else if length manifest < MANIFEST_HEADER_SIZE
     then Inl (InvalidData ''manifest header truncated'')
     else
       let zeroed = take FOOTER_HASH_START manifest
                    @ replicate (FOOTER_HASH_END - FOOTER_HASH_START) 0
                    @ drop FOOTER_HASH_END manifest
       in Inr (le_bytes 4 (xxh32 zeroed)))"

section \<open>The manifest\<close>

record manifest =
  m_header :: manifest_header
  m_entrypoints :: "entrypoint list"
  m_entries :: "entry list"
  m_lib_dir_offsets :: "u32 list"
  m_string_table :: bytes

definition U32_MAX :: u32 where "U32_MAX = - 1"

definition get_string :: "manifest \<Rightarrow> u32 \<Rightarrow> bytes" where
  "get_string m offset =
     (let start = unat offset in
      if start > length (m_string_table m) then []
      else
        let tail = drop start (m_string_table m);
            name = takeWhile (\<lambda>b. b \<noteq> 0) tail
        in case from_utf8 name of None \<Rightarrow> [] | Some s \<Rightarrow> s)"

definition serialize :: "manifest \<Rightarrow> bytes" where
  "serialize m =
     (let header = (m_header m)\<lparr> h_version := MANIFEST_VERSION \<rparr>
      in write_header header
         @ concat (map write_entrypoint (m_entrypoints m))
         @ concat (map write_entry (m_entries m))
         @ concat (map (le_bytes 4) (m_lib_dir_offsets m))
         @ m_string_table m)"

definition validate_entry :: "manifest \<Rightarrow> nat \<times> entry \<Rightarrow> io_error + unit" where
  "validate_entry m ie =
     (let (i, e) = ie;
          n = length (m_entries m);
          st = (of_nat (length (m_string_table m)) :: u32);
          p = unat (e_parent e)
      in if e_parent e \<noteq> U32_MAX \<and> p \<ge> n
         then Inl (InvalidData ''entry parent index out of range'')
         else if e_parent e \<noteq> U32_MAX \<and> p \<ge> i
         then Inl (InvalidData ''entry parent does not precede it'')
         else if e_parent e \<noteq> U32_MAX \<and> e_kind (m_entries m ! p) \<noteq> Dir
         then Inl (InvalidData ''entry parent is not a directory'')
         else if e_name e > st then Inl (InvalidData ''entry name offset out of range'')
         else if e_symlink_target e > st
         then Inl (InvalidData ''entry symlink_target offset out of range'')
         else Inr ())"

definition validate_entrypoint :: "manifest \<Rightarrow> entrypoint \<Rightarrow> io_error + unit" where
  "validate_entrypoint m ep =
     (let n = length (m_entries m); st = (of_nat (length (m_string_table m)) :: u32)
      in if unat (ep_target_entry ep) \<ge> n
         then Inl (InvalidData ''entrypoint target_entry out of range'')
         else if ep_name ep > st \<or> ep_args ep > st
         then Inl (InvalidData ''entrypoint string offset out of range'')
         else Inr ())"

fun is_normal :: "component \<Rightarrow> bool" where
  "is_normal (Normal s) = True"
| "is_normal c = False"

definition safe_lib_dir :: "bytes \<Rightarrow> bool" where
  "safe_lib_dir dir \<longleftrightarrow> dir \<noteq> [] \<and> list_all is_normal (components dir) \<and> 0 \<notin> set dir"

definition validate_lib_dir :: "manifest \<Rightarrow> u32 \<Rightarrow> io_error + unit" where
  "validate_lib_dir m off =
     (let st = (of_nat (length (m_string_table m)) :: u32)
      in if off > st then Inl (InvalidData ''lib_dir offset out of range'')
         else if \<not> safe_lib_dir (get_string m off)
         then Inl (InvalidData ''lib_dir is not a relative path inside the package'')
         else Inr ())"

definition validate :: "manifest \<Rightarrow> io_error + unit" where
  "validate m =
     tryE (eachE (validate_entry m) (enumerate 0 (m_entries m))) (\<lambda>_.
     tryE (eachE (validate_entrypoint m) (m_entrypoints m)) (\<lambda>_.
     if m_entrypoints m \<noteq> []
       \<and> unat (h_default_entrypoint (m_header m)) \<ge> length (m_entrypoints m)
     then Inl (InvalidData ''default_entrypoint out of range'')
     else
       tryE (eachE (validate_lib_dir m) (m_lib_dir_offsets m)) (\<lambda>_.
       if (ucast (h_name_offset (m_header m)) :: u32)
            > of_nat (length (m_string_table m))
       then Inl (InvalidData ''name_offset out of range'')
       else Inr ())))"

definition read_u32 :: "bytes \<Rightarrow> io_error + u32 \<times> bytes" where
  "read_u32 r = tryE (read_exact 4 r) (\<lambda>(offset_buf, r'). Inr (le_value offset_buf, r'))"

definition deserialize :: "bytes \<Rightarrow> io_error + manifest" where
  "deserialize data =
     tryE (read_header data) (\<lambda>(header, c1).
     if h_version header = 0 \<or> h_version header > MANIFEST_VERSION
     then Inl (InvalidDataOf ''unsupported manifest version: '' (unat (h_version header)))
     else
       let version = h_version header in
       tryE (read_n read_entrypoint (unat (h_entrypoint_count header)) c1) (\<lambda>(entrypoints, c2).
       tryE (read_n (read_entry version) (unat (h_entry_count header)) c2) (\<lambda>(entries, c3).
       tryE (read_n read_u32 (unat (h_lib_dir_count header)) c3) (\<lambda>(lib_dir_offsets, c4).
       let st_size = unat (h_string_table_size header) in
       if st_size > length c4
       then Inl (InvalidData ''string table size exceeds remaining input'')
       else
         tryE (read_exact st_size c4) (\<lambda>(string_table, c5).
         let m = \<lparr> m_header = header, m_entrypoints = entrypoints, m_entries = entries,
                   m_lib_dir_offsets = lib_dir_offsets, m_string_table = string_table \<rparr>
         in tryE (validate m) (\<lambda>_. Inr m))))))"

interpretation u32_codec: canonical_codec "le_bytes 4" read_u32 "\<lambda>_. True"
  by unfold_locales
    (auto simp: read_u32_def tryE_Inr_iff read_exact_Inr_iff codec_simps)


section \<open>The serialized form\<close>

text \<open>
  A manifest this version of the format can hold: the counts in the header are those of the
  tables, every table element is encodable, and the cross references are valid.
\<close>

definition manifest_wf :: "manifest \<Rightarrow> bool" where
  "manifest_wf m \<longleftrightarrow>
     h_version (m_header m) = MANIFEST_VERSION \<and> header_wf (m_header m)
     \<and> unat (h_entrypoint_count (m_header m)) = length (m_entrypoints m)
     \<and> unat (h_entry_count (m_header m)) = length (m_entries m)
     \<and> unat (h_lib_dir_count (m_header m)) = length (m_lib_dir_offsets m)
     \<and> unat (h_string_table_size (m_header m)) = length (m_string_table m)
     \<and> list_all entry_wf (m_entries m)
     \<and> validate m = Inr ()"

lemma serialize_current:
  "h_version (m_header m) = MANIFEST_VERSION \<Longrightarrow> serialize m =
     write_header (m_header m) @ concat (map write_entrypoint (m_entrypoints m))
     @ concat (map write_entry (m_entries m)) @ concat (map (le_bytes 4) (m_lib_dir_offsets m))
     @ m_string_table m"
  by (simp add: serialize_def write_header_def)

lemma manifest_eta: "\<lparr>m_header = m_header m, m_entrypoints = m_entrypoints m,
    m_entries = m_entries m, m_lib_dir_offsets = m_lib_dir_offsets m,
    m_string_table = m_string_table m\<rparr> = m"
  by simp

lemma deserialize_serialize:
  assumes "manifest_wf m"
  shows "deserialize (serialize m @ r) = Inr m"
proof -
  note wf = assms [unfolded manifest_wf_def]
  have hd: "header_wf (m_header m)" and v: "h_version (m_header m) = MANIFEST_VERSION"
    using wf by simp_all
  have "\<forall>e \<in> set (m_entries m). entry_wf e" using wf by (simp add: list_all_iff)
  note tables = entrypoint_codec.table_enc [of "m_entrypoints m", OF _ refl]
    entry_codec.table_enc [of "m_entries m", OF this refl]
    u32_codec.table_enc [of "m_lib_dir_offsets m", OF _ refl]
  have "read_exact (length (m_string_table m)) (m_string_table m @ r) = Inr (m_string_table m, r)"
    by (simp add: read_exact_append)
  then show ?thesis
    using wf tables unfolding deserialize_def serialize_current [OF v]
    by (simp add: read_write_header [OF hd] v read_entry_ge2 [of 3] Let_def MANIFEST_VERSION_def
        manifest_eta)
qed

lemma deserialize_parts:
  assumes "deserialize data = Inr m"
  shows "validate m = Inr ()"
    and "h_version (m_header m) \<noteq> 0 \<and> h_version (m_header m) \<le> MANIFEST_VERSION"
    and "length (m_string_table m) < 2 ^ 32"
    and "length (m_entries m) < 2 ^ 32"
  using assms unat_bounds(3)
  by (auto simp: deserialize_def tryE_Inr_iff Let_def read_exact_Inr_iff not_less
      split: if_splits prod.splits dest!: read_n_length)


lemma deserialize_current_canonical:
  assumes d: "deserialize data = Inr m" and v: "h_version (m_header m) = MANIFEST_VERSION"
  shows "manifest_wf m \<and> (\<exists>r. data = serialize m @ r)"
proof -
  from d obtain c1 c2 c3 c4 r where
    h: "read_header data = Inr (m_header m, c1)"
    and ep: "read_n read_entrypoint (unat (h_entrypoint_count (m_header m))) c1
               = Inr (m_entrypoints m, c2)"
    and en: "read_n (read_entry (h_version (m_header m))) (unat (h_entry_count (m_header m))) c2
               = Inr (m_entries m, c3)"
    and ld: "read_n read_u32 (unat (h_lib_dir_count (m_header m))) c3
               = Inr (m_lib_dir_offsets m, c4)"
    and st: "read_exact (unat (h_string_table_size (m_header m))) c4 = Inr (m_string_table m, r)"
    and val: "validate m = Inr ()"
    by (auto simp: deserialize_def tryE_Inr_iff Let_def split: if_splits prod.splits)
  have v3: "h_version (m_header m) \<ge> 3" and v2: "2 \<le> h_version (m_header m)"
    by (simp_all add: v MANIFEST_VERSION_def)
  note parts = read_header_canonical [OF h v3] entrypoint_codec.table_canonical [OF ep]
    entry_codec.table_canonical [OF en [unfolded read_entry_ge2 [OF v2]]]
    u32_codec.table_canonical [OF ld] st [unfolded read_exact_Inr_iff]
  have "data = serialize m @ r" using parts by (simp add: serialize_current [OF v])
  moreover have "manifest_wf m" using parts v val by (simp add: manifest_wf_def list_all_iff)
  ultimately show ?thesis by blast
qed

text \<open>
  C1: The manifest reader accepts, at the version this build writes, exactly the serializations
  of well-formed manifests, and returns the manifest that was serialized: tables, strings and
  header alike. Bytes after the string table are not looked at.
\<close>

theorem manifest_codec_exact:
  "deserialize data = Inr m \<and> h_version (m_header m) = MANIFEST_VERSION
     \<longleftrightarrow> manifest_wf m \<and> (\<exists>rest. data = serialize m @ rest)"
  using deserialize_current_canonical deserialize_serialize by (auto simp: manifest_wf_def)

section \<open>What validation guarantees\<close>

text \<open>The parent link of an entry, as a step from one index to another.\<close>

inductive parent_step :: "manifest \<Rightarrow> nat \<Rightarrow> nat \<Rightarrow> bool" for m where
  parent: "i < length (m_entries m) \<Longrightarrow> e_parent (m_entries m ! i) \<noteq> U32_MAX \<Longrightarrow>
    p = unat (e_parent (m_entries m ! i)) \<Longrightarrow> parent_step m i p"

inductive_cases parent_stepE: "parent_step m i p"
inductive_simps parent_step_iff: "parent_step m i p"

lemma validate_entries:
  assumes "validate m = Inr ()" and "i < length (m_entries m)"
  shows "validate_entry m (i, m_entries m ! i) = Inr ()"
proof -
  have "(i, m_entries m ! i) \<in> set (enumerate 0 (m_entries m))"
    using assms(2) by (simp add: in_set_enumerate_eq)
  then show ?thesis using assms(1) by (auto simp: validate_def tryE_Inr_iff)
qed

lemma parent_step_precedes:
  assumes "validate m = Inr ()" and "parent_step m i p"
  shows "p < i \<and> i < length (m_entries m) \<and> e_kind (m_entries m ! p) = Dir"
  using assms(2) validate_entries [OF assms(1)]
  by (auto simp: parent_step_iff validate_entry_def Let_def not_le)

lemma ancestor_precedes:
  assumes "validate m = Inr ()" and "(parent_step m)\<^sup>+\<^sup>+ i p"
  shows "p < i \<and> i < length (m_entries m) \<and> e_kind (m_entries m ! p) = Dir"
  using assms(2)
  by (induction rule: tranclp_induct) (use parent_step_precedes [OF assms(1)] in fastforce)+

text \<open>
  C7: In a manifest the reader accepted, of any version, the parent links form a forest rooted at
  the top level: every ancestor of an entry stands before it in the table and is a directory, so
  there is no cycle and every walk up the tree ends.
\<close>

theorem deserialize_forest:
  assumes "deserialize data = Inr m" and "(parent_step m)\<^sup>+\<^sup>+ i p"
  shows "p < i \<and> i < length (m_entries m) \<and> e_kind (m_entries m ! p) = Dir"
  using ancestor_precedes [OF deserialize_parts(1) [OF assms(1)] assms(2)] .


text \<open>A package with a directory holding an executable and a library directory.\<close>

definition sample_entry :: "entry_kind \<Rightarrow> u32 \<Rightarrow> u32 \<Rightarrow> entry" where
  "sample_entry k p n = \<lparr> e_kind = k, e_parent = p, e_name = n, e_mode = 493, e_mtime_secs = 0,
     e_mtime_nsec = 0, e_content_hash = zero_hash, e_blocks = [], e_symlink_target = 0 \<rparr>"

definition sample_header :: manifest_header where
  "sample_header = \<lparr> h_version = 3, h_entry_count = 3, h_string_table_size = 13,
     h_entrypoint_count = 1, h_default_entrypoint = 0, h_lib_dir_count = 1, h_name_offset = 5,
     h_package_id = zero_hash, h_prefix_hash = zero_hash, h_footer_hash = zero_hash \<rparr>"

definition sample_manifest :: manifest where
  "sample_manifest = \<lparr> m_header = sample_header,
     m_entrypoints = [\<lparr> ep_name = 5, ep_target_entry = 1, ep_args = 0, ep_working_dir = Inherit,
                        ep_flags = MEMFD_ELIGIBLE \<rparr>],
     m_entries = [sample_entry Dir U32_MAX 1, sample_entry File 0 5, sample_entry Dir 0 9],
     m_lib_dir_offsets = [9],
     m_string_table = [0] @ lit ''bin'' @ [0] @ lit ''app'' @ [0] @ lit ''lib'' @ [0] \<rparr>"

lemma sample_strings:
  "get_string sample_manifest 1 = lit ''bin''" "get_string sample_manifest 5 = lit ''app''"
  "get_string sample_manifest 9 = lit ''lib''"
  by code_simp+

lemma sample_manifest_wf: "manifest_wf sample_manifest"
proof -
  have "validate sample_manifest = Inr ()"
    unfolding validate_def eachE_Inr_iff tryE_Inr_iff by code_simp
  moreover have "list_all entry_wf (m_entries sample_manifest)"
    by (simp add: sample_manifest_def sample_entry_def entry_wf_def)
  ultimately show ?thesis
    by (simp add: manifest_wf_def sample_manifest_def sample_header_def header_wf_def
        MANIFEST_VERSION_def)
qed

theorem deserialize_forest_witness:
  "e_kind (m_entries sample_manifest ! 0) = Dir \<and> parent_step sample_manifest 1 0"
proof -
  have step: "parent_step sample_manifest 1 0"
    by (simp add: parent_step_iff sample_manifest_def sample_entry_def U32_MAX_def)
  have "deserialize (serialize sample_manifest @ []) = Inr sample_manifest"
    by (rule deserialize_serialize [OF sample_manifest_wf])
  from deserialize_forest [OF this tranclp.r_into_trancl [of "parent_step sample_manifest", OF step]]
    step show ?thesis by simp
qed

section \<open>What the checksum covers\<close>

definition footer_hash_erased :: "manifest \<Rightarrow> manifest" where
  "footer_hash_erased m = m\<lparr> m_header := (m_header m)\<lparr> h_footer_hash := zero_hash \<rparr> \<rparr>"

lemma checksum_serialize:
  assumes "manifest_wf m"
  shows "manifest_checksum xxh32 (serialize m)
    = Inr (le_bytes 4 (xxh32 (serialize (footer_hash_erased m))))"
proof -
  note wf = assms [unfolded manifest_wf_def header_wf_def]
  let ?tail = "concat (map write_entrypoint (m_entrypoints m))
     @ concat (map write_entry (m_entries m)) @ concat (map (le_bytes 4) (m_lib_dir_offsets m))
     @ m_string_table m"
  define front where "front = le_bytes 2 (h_version (m_header m)) @
     le_bytes 4 (h_entry_count (m_header m)) @ le_bytes 4 (h_string_table_size (m_header m))
     @ le_bytes 2 (h_entrypoint_count (m_header m)) @ le_bytes 2 (h_default_entrypoint (m_header m))
     @ le_bytes 2 (h_lib_dir_count (m_header m)) @ le_bytes 2 (h_name_offset (m_header m))
     @ h_package_id (m_header m) @ h_prefix_hash (m_header m)"
  have s: "serialize m = front @ h_footer_hash (m_header m) @ ?tail"
    and s0: "serialize (footer_hash_erased m) = front @ zero_hash @ ?tail"
    using wf by (simp_all add: serialize_current footer_hash_erased_def write_header_def front_def)
  have len: "length front = 82" using wf by (simp add: front_def)
  have "slice 0 2 (front @ xs) = le_bytes 2 (3 :: u16)" for xs
    using wf by (simp add: front_def slice_def MANIFEST_VERSION_def)
  then show ?thesis using wf len
    by (simp add: manifest_checksum_def s s0 get_slice_def codec_simps FOOTER_HASH_START_def
        FOOTER_HASH_END_def MANIFEST_HEADER_SIZE_def zero_hash_def Let_def)
qed

definition with_footer_hash :: "bytes \<Rightarrow> manifest \<Rightarrow> manifest" where
  "with_footer_hash x m = m\<lparr> m_header := (m_header m)\<lparr> h_footer_hash := x \<rparr> \<rparr>"

lemma with_footer_hash_wf: "manifest_wf m \<Longrightarrow> length x = 32 \<Longrightarrow> manifest_wf (with_footer_hash x m)"
proof -
  have "get_string (with_footer_hash x m) = get_string m"
    by (intro ext) (simp add: get_string_def with_footer_hash_def Let_def)
  moreover have "m_entries (with_footer_hash x m) = m_entries m"
    "m_entrypoints (with_footer_hash x m) = m_entrypoints m"
    "m_lib_dir_offsets (with_footer_hash x m) = m_lib_dir_offsets m"
    "m_string_table (with_footer_hash x m) = m_string_table m"
    "h_default_entrypoint (m_header (with_footer_hash x m)) = h_default_entrypoint (m_header m)"
    "h_name_offset (m_header (with_footer_hash x m)) = h_name_offset (m_header m)"
    by (simp_all add: with_footer_hash_def)
  ultimately have "validate (with_footer_hash x m) = validate m"
    by (simp add: validate_def validate_entry_def [abs_def] validate_entrypoint_def [abs_def]
        validate_lib_dir_def [abs_def] Let_def case_prod_unfold cong del: if_weak_cong)
  then show "manifest_wf m \<Longrightarrow> length x = 32 \<Longrightarrow> manifest_wf (with_footer_hash x m)"
    by (simp add: manifest_wf_def header_wf_def with_footer_hash_def MANIFEST_VERSION_def)
qed

lemma footer_hash_erased_wf: "manifest_wf m \<Longrightarrow> manifest_wf (footer_hash_erased m)"
  using with_footer_hash_wf [of m zero_hash]
  by (simp add: footer_hash_erased_def with_footer_hash_def)

lemma serialize_inject:
  assumes "manifest_wf a" and "manifest_wf b" and "serialize a = serialize b"
  shows "a = b"
  using deserialize_serialize [OF assms(1), of "[]"] deserialize_serialize [OF assms(2), of "[]"]
    assms(3) by simp

text \<open>
  C11: The footer's checksum covers the whole manifest except the footer hash: whatever XXH32 is,
  two manifests have the same checksum under every such function just when they differ at most in
  that field, so filling it in after the footer is written does not invalidate the checksum.
\<close>

theorem manifest_checksum_covers:
  assumes "manifest_wf a" and "manifest_wf b"
  shows "(\<forall>xxh32. manifest_checksum xxh32 (serialize a) = manifest_checksum xxh32 (serialize b))
           \<longleftrightarrow> footer_hash_erased a = footer_hash_erased b"
proof
  assume all: "\<forall>xxh32. manifest_checksum xxh32 (serialize a) = manifest_checksum xxh32 (serialize b)"
  let ?x = "\<lambda>d. if d = serialize (footer_hash_erased a) then 1 else (0 :: u32)"
  have "le_bytes 4 (?x (serialize (footer_hash_erased a)))
      = le_bytes 4 (?x (serialize (footer_hash_erased b)))"
    using all checksum_serialize [OF assms(1), of ?x] checksum_serialize [OF assms(2), of ?x]
    by simp
  then have "serialize (footer_hash_erased b) = serialize (footer_hash_erased a)"
    by (simp split: if_splits)
  then show "footer_hash_erased a = footer_hash_erased b"
    using serialize_inject footer_hash_erased_wf assms by metis
qed (simp add: checksum_serialize assms)

theorem manifest_checksum_covers_witness:
  "\<forall>xxh32. manifest_checksum xxh32 (serialize sample_manifest)
      = manifest_checksum xxh32 (serialize (with_footer_hash (replicate 32 7) sample_manifest))"
proof -
  have "manifest_wf (with_footer_hash (replicate 32 7) sample_manifest)"
    by (rule with_footer_hash_wf [OF sample_manifest_wf]) simp
  from manifest_checksum_covers [OF sample_manifest_wf this] show ?thesis
    by (simp add: footer_hash_erased_def with_footer_hash_def)
qed

end
