(* ===== verification/Manifest_Paths.thy ===== *)
theory Manifest_Paths
  imports Manifest_Format
begin

text \<open>
  The paths a manifest names: the package name and library directories, the walk from an entry
  up its parents, the validated walk an extractor uses, and the lexical check on symlink targets.
\<close>

section \<open>Safe names and symlink targets\<close>

definition is_safe_component :: "bytes \<Rightarrow> bool" where
  "is_safe_component name \<longleftrightarrow>
     name \<noteq> [] \<and> name \<noteq> [dot] \<and> name \<noteq> [dot, dot] \<and> slash \<notin> set name \<and> 0 \<notin> set name"

text \<open>The closure \<open>walk\<close>, on the stack of names with its top first.\<close>

fun walk :: "component list \<Rightarrow> bytes list \<Rightarrow> bytes list option" where
  "walk [] stack = Some stack"
| "walk (Normal s # cs) stack = walk cs (s # stack)"
| "walk (ParentDir # cs) stack = (case stack of [] \<Rightarrow> None | _ # rest \<Rightarrow> walk cs rest)"
| "walk (CurDir # cs) stack = walk cs stack"
| "walk (RootDir # cs) stack = None"

definition symlink_target_within_root :: "bytes \<Rightarrow> bytes \<Rightarrow> bool" where
  "symlink_target_within_root link_rel target =
     (if target = [] then False
      else if is_absolute target then False
      else
        let parent_ok = (case parent_components link_rel of None \<Rightarrow> Some []
                         | Some cs \<Rightarrow> walk cs [])
        in case parent_ok of None \<Rightarrow> False
           | Some stack \<Rightarrow> walk (components target) stack \<noteq> None)"

text \<open>Where a path stands after each component: how many levels below the start.\<close>

fun level :: "component list \<Rightarrow> int" where
  "level [] = 0"
| "level (c # cs) = level cs + (case c of Normal s \<Rightarrow> 1 | ParentDir \<Rightarrow> -1 | _ \<Rightarrow> 0)"

definition stays_below :: "nat \<Rightarrow> component list \<Rightarrow> bool" where
  "stays_below d cs \<longleftrightarrow> RootDir \<notin> set cs \<and> (\<forall>p. prefix p cs \<longrightarrow> 0 \<le> int d + level p)"

lemma stays_below_Nil [simp]: "stays_below d []"
  by (simp add: stays_below_def)

lemma all_prefix_Cons: "(\<forall>p. prefix p (c # cs) \<longrightarrow> P p) \<longleftrightarrow> P [] \<and> (\<forall>p. prefix p cs \<longrightarrow> P (c # p))"
  by (auto simp: prefix_Cons)

lemma stays_below_Cons [simp]:
  "stays_below d (Normal s # cs) \<longleftrightarrow> stays_below (Suc d) cs"
  "stays_below d (CurDir # cs) \<longleftrightarrow> stays_below d cs"
  "stays_below d (ParentDir # cs) \<longleftrightarrow> d > 0 \<and> stays_below (d - 1) cs"
  "stays_below d (RootDir # cs) \<longleftrightarrow> False"
proof -
  show "stays_below d (Normal s # cs) \<longleftrightarrow> stays_below (Suc d) cs"
    "stays_below d (CurDir # cs) \<longleftrightarrow> stays_below d cs"
    "stays_below d (RootDir # cs) \<longleftrightarrow> False"
    by (simp_all add: stays_below_def all_prefix_Cons algebra_simps)
  show "stays_below d (ParentDir # cs) \<longleftrightarrow> d > 0 \<and> stays_below (d - 1) cs"
  proof (cases d)
    case 0
    then show ?thesis
      unfolding stays_below_def all_prefix_Cons
      by (simp, metis less_irrefl level.simps(1) prefix_bot.bot_least)
  next
    case (Suc n)
    then show ?thesis unfolding stays_below_def all_prefix_Cons by (simp add: algebra_simps)
  qed
qed

lemma walk_stays_below: "walk cs stack \<noteq> None \<longleftrightarrow> stays_below (length stack) cs"
  by (induction cs stack rule: walk.induct) (auto split: list.splits)

text \<open>
  C9: The symlink check accepts exactly the relative targets that stay inside: starting at the
  root, descending to the directory that holds the link and then following the target, no prefix
  of the path has climbed above the root, and no component is absolute.
\<close>

theorem symlink_target_within_root_exact:
  "symlink_target_within_root link target \<longleftrightarrow>
     target \<noteq> [] \<and> \<not> is_absolute target
     \<and> (case parent_components link of
          None \<Rightarrow> stays_below 0 (components target)
        | Some dir \<Rightarrow> stays_below 0 (dir @ components target))"
proof -
  have walk_append: "walk (cs @ ds) st = (case walk cs st of None \<Rightarrow> None | Some st' \<Rightarrow> walk ds st')"
    for cs ds st
    by (induction cs st rule: walk.induct) (auto split: list.splits)
  show ?thesis
    by (cases "parent_components link")
      (simp_all add: symlink_target_within_root_def walk_append
        split: option.splits flip: walk_stays_below [of _ "[]", simplified])
qed

section \<open>Names and library directories\<close>

definition manifest_name :: "manifest \<Rightarrow> bytes" where
  "manifest_name m =
     (if h_name_offset (m_header m) > 0 then get_string m (ucast (h_name_offset (m_header m)))
      else [])"

definition lib_dirs :: "manifest \<Rightarrow> bytes list" where
  "lib_dirs m = map (\<lambda>offset. get_string m offset) (m_lib_dir_offsets m)"

definition has_toplevel_dir :: "manifest \<Rightarrow> bytes \<Rightarrow> bool" where
  "has_toplevel_dir m name =
     list_ex (\<lambda>e. e_kind e = Dir \<and> e_parent e = U32_MAX \<and> get_string m (e_name e) = name)
       (m_entries m)"

lemma validate_lib_dirs:
  "validate m = Inr () \<Longrightarrow> d \<in> set (lib_dirs m) \<Longrightarrow> safe_lib_dir d"
  by (auto simp: validate_def tryE_Inr_iff lib_dirs_def validate_lib_dir_def Let_def split: if_splits)

lemma is_normal_iff: "is_normal c \<longleftrightarrow> (\<exists>s. c = Normal s)"
  by (cases c) auto

text \<open>
  In a manifest the reader accepted, every library directory joined onto a package root
  stays inside it: the joined path is the root's components followed by one or more plain names,
  whatever the root is, so neither an absolute directory nor a climbing one reaches the host.
\<close>

theorem deserialized_lib_dirs_inside:
  assumes "deserialize data = Inr m" and "d \<in> set (lib_dirs m)" and "root \<noteq> []"
  shows "\<exists>names. names \<noteq> [] \<and> components (path_push root d) = components root @ map Normal names
           \<and> (\<forall>n \<in> set names. is_safe_component n)"
proof -
  have safe: "safe_lib_dir d" using validate_lib_dirs deserialize_parts(1) assms by blast
  then have all: "list_all is_normal (components d)" and "d \<noteq> []" and nul: "0 \<notin> set d"
    by (simp_all add: safe_lib_dir_def)
  then have "list_all (\<lambda>c. c \<noteq> RootDir \<and> c \<noteq> CurDir) (components d)"
    by (auto simp: list_all_iff is_normal_iff)
  note rel = components_relative [OF this]
  from all have "\<exists>names. components d = map Normal names"
    by (auto simp: list_all_iff is_normal_iff intro: ex_map_conv [THEN iffD2])
  then obtain names where names: "components d = map Normal names" ..
  have "is_safe_component n" if "n \<in> set names" for n
  proof -
    have "Normal n \<in> set (components d)" using that by (simp add: names)
    from Normal_in_components [OF this] nul show ?thesis by (auto simp: is_safe_component_def)
  qed
  moreover have "names \<noteq> []" using names \<open>d \<noteq> []\<close> by auto
  ultimately show ?thesis using components_push [of d root] rel assms(3) names by auto
qed


theorem deserialized_lib_dirs_inside_witness:
  "\<exists>names. names \<noteq> [] \<and> components (path_push (lit ''/opt/app'') (lit ''lib''))
     = components (lit ''/opt/app'') @ map Normal names \<and> (\<forall>n \<in> set names. is_safe_component n)"
proof -
  have "deserialize (serialize sample_manifest @ []) = Inr sample_manifest"
    by (rule deserialize_serialize [OF sample_manifest_wf])
  moreover have "lit ''lib'' \<in> set (lib_dirs sample_manifest)"
    using sample_strings(3) by (simp add: lib_dirs_def sample_manifest_def)
  ultimately show ?thesis by (rule deserialized_lib_dirs_inside) simp
qed

section \<open>The path of an entry\<close>

text \<open>
  The loop of \<open>entry_path\<close>, by the number of rounds left: the names it pushes, the entry's own
  first. The loop runs at most once more than there are entries.
\<close>

fun path_parts :: "manifest \<Rightarrow> nat \<Rightarrow> nat \<Rightarrow> bytes list" where
  "path_parts m 0 idx = []"
| "path_parts m (Suc rounds) idx =
     (if idx < length (m_entries m) then
        let entry = m_entries m ! idx;
            name = get_string m (e_name entry)
        in if name = [] then []
           else if e_parent entry = U32_MAX then [name]
           else name # path_parts m rounds (unat (e_parent entry))
      else [])"

definition entry_path :: "manifest \<Rightarrow> nat \<Rightarrow> bytes" where
  "entry_path m index = join_with slash (rev (path_parts m (Suc (length (m_entries m))) index))"

fun validated_parts :: "manifest \<Rightarrow> nat \<Rightarrow> nat \<Rightarrow> io_error + bytes list" where
  "validated_parts m 0 idx = Inr []"
| "validated_parts m (Suc rounds) idx =
     (if idx < length (m_entries m) then
        let entry = m_entries m ! idx;
            name = get_string m (e_name entry)
        in if name = [] then Inr []
           else if \<not> is_safe_component name
           then Inl (InvalidDataAt ''unsafe path component: '' name)
           else if e_parent entry = U32_MAX then Inr [name]
           else if unat (e_parent entry) \<ge> idx
           then Inl (InvalidData ''entry parent does not precede it'')
           else tryE (validated_parts m rounds (unat (e_parent entry))) (\<lambda>parts.
                Inr (name # parts))
      else Inl (InvalidData ''entry parent index out of range''))"

definition validated_entry_path :: "manifest \<Rightarrow> nat \<Rightarrow> io_error + bytes" where
  "validated_entry_path m index =
     tryE (validated_parts m (Suc (length (m_entries m))) index) (\<lambda>parts.
     Inr (foldl path_push [] (rev parts)))"

definition find_lib_dir :: "manifest \<Rightarrow> bytes" where
  "find_lib_dir m =
     (case find (\<lambda>(i, e). e_kind e = Dir \<and> get_string m (e_name e) = lit ''lib'')
             (enumerate 0 (m_entries m)) of
        None \<Rightarrow> []
      | Some (i, e) \<Rightarrow> entry_path m i)"

text \<open>The validated walk pushes what the plain walk pushes, or fails.\<close>

lemma validated_parts_Inr:
  "validated_parts m k i = Inr parts \<Longrightarrow>
     path_parts m k i = parts \<and> list_all is_safe_component parts"
proof (induction m k i arbitrary: parts rule: validated_parts.induct)
  case (1 m idx)
  then show ?case by simp
next
  case (2 m rounds idx)
  then show ?case by (auto simp: Let_def tryE_Inr_iff split: if_splits)
qed

lemma push_parts_aux:
  "list_all is_safe_component ps \<Longrightarrow> p \<noteq> [] \<Longrightarrow> last p \<noteq> slash \<Longrightarrow>
     foldl path_push p ps = join_with slash (p # ps)
     \<and> components (join_with slash (p # ps)) = components p @ map Normal ps"
proof (induction ps arbitrary: p)
  case Nil
  then show ?case by simp
next
  case (Cons q ps)
  then have q: "q \<noteq> []" "q \<noteq> [dot]" "q \<noteq> [dot, dot]" "slash \<notin> set q"
    by (simp_all add: is_safe_component_def)
  have push: "path_push p q = p @ slash # q"
    using components_single [OF q] Cons.prems by (simp add: path_push_def)
  have "last (p @ slash # q) \<noteq> slash" using q by (auto dest: last_in_set)
  then have IH: "foldl path_push (p @ slash # q) ps = join_with slash ((p @ slash # q) # ps)"
    "components (join_with slash ((p @ slash # q) # ps))
       = components (p @ slash # q) @ map Normal ps"
    using Cons by simp_all
  have join: "join_with slash ((p @ slash # q) # ps) = join_with slash (p # q # ps)"
    by (cases ps) simp_all
  have "components (p @ slash # q) = components p @ [Normal q]"
    using components_push [of q p] components_single [OF q] Cons.prems push by simp
  then show ?case using IH push join by simp
qed

lemma push_parts:
  assumes "list_all is_safe_component ps"
  shows "foldl path_push [] ps = join_with slash ps
    \<and> components (join_with slash ps) = map Normal ps"
proof (cases ps)
  case (Cons q qs)
  then have q: "q \<noteq> []" "q \<noteq> [dot]" "q \<noteq> [dot, dot]" "slash \<notin> set q"
    using assms by (simp_all add: is_safe_component_def)
  have "path_push [] q = q" using components_single [OF q] by (simp add: path_push_def)
  moreover have "last q \<noteq> slash" using q by (auto dest: last_in_set)
  ultimately show ?thesis
    using push_parts_aux [of qs q] assms q Cons components_single [OF q] by simp
qed simp

text \<open>
  C8: The path an extractor uses is safe and is the path the manifest names: when the validated
  walk succeeds, its result is the plain walk's path and consists of plain names only, none of
  them empty, dot, dot-dot, or holding a slash or NUL, so that joining it onto any extraction
  root descends from that root by exactly these names.
\<close>

theorem validated_entry_path_sound:
  assumes "validated_entry_path m i = Inr p"
  shows "p = entry_path m i
    \<and> (\<exists>names. components p = map Normal names \<and> (\<forall>n \<in> set names. is_safe_component n)
        \<and> (root \<noteq> [] \<longrightarrow> components (path_push root p) = components root @ map Normal names))"
proof -
  from assms obtain parts where
    parts: "validated_parts m (Suc (length (m_entries m))) i = Inr parts"
    and p: "p = foldl path_push [] (rev parts)"
    by (auto simp: validated_entry_path_def tryE_Inr_iff)
  note v = validated_parts_Inr [OF parts]
  then have safe: "list_all is_safe_component (rev parts)" by simp
  note pp = push_parts [OF safe]
  have "list_all (\<lambda>c. c \<noteq> RootDir \<and> c \<noteq> CurDir) (components p)"
    using p pp by (simp add: list_all_iff)
  note rel = components_relative [OF this]
  have "components (path_push root p) = components root @ map Normal (rev parts)" if "root \<noteq> []"
    using components_push [of p root] that rel p pp by simp
  moreover have "p = entry_path m i" using p pp v by (simp add: entry_path_def)
  ultimately show ?thesis using p pp safe by (auto simp: list_all_iff)
qed

theorem validated_entry_path_sound_witness:
  "lit ''bin/app'' = entry_path sample_manifest 1"
proof -
  have "validated_entry_path sample_manifest 1 = Inr (lit ''bin/app'')" by code_simp
  from validated_entry_path_sound [OF this] show ?thesis by blast
qed

text \<open>In a validated manifest the walk goes to smaller indices, so the bound never cuts it.\<close>

lemma path_parts_enough:
  assumes val: "validate m = Inr ()"
  shows "i < k \<Longrightarrow> path_parts m k i = path_parts m (Suc i) i"
proof (induction i arbitrary: k rule: less_induct)
  case (less i)
  obtain k' where k: "k = Suc k'" and ik: "i \<le> k'" using less.prems by (cases k) auto
  show ?case
  proof (cases "i < length (m_entries m) \<and> e_parent (m_entries m ! i) \<noteq> U32_MAX")
    case True
    let ?p = "unat (e_parent (m_entries m ! i))"
    have "parent_step m i ?p" using True by (auto simp: parent_step_iff)
    then have "?p < i" using parent_step_precedes [OF val] by blast
    then have "path_parts m k' ?p = path_parts m i ?p"
      using less.IH [of ?p k'] less.IH [of ?p i] ik by simp
    then show ?thesis by (simp add: k Let_def)
  next
    case False
    then show ?thesis by (auto simp: k Let_def)
  qed
qed

lemma validated_parts_complete:
  assumes val: "validate m = Inr ()"
  shows "i < length (m_entries m) \<Longrightarrow> list_all is_safe_component (path_parts m k i) \<Longrightarrow>
     validated_parts m k i = Inr (path_parts m k i)"
proof (induction k arbitrary: i)
  case 0
  then show ?case by simp
next
  case (Suc k)
  show ?case
  proof (cases "e_parent (m_entries m ! i) = U32_MAX")
    case False
    then have "parent_step m i (unat (e_parent (m_entries m ! i)))"
      using Suc.prems by (auto simp: parent_step_iff)
    note this parent_step_precedes [OF val this]
    then show ?thesis using Suc False by (auto simp: Let_def split: if_splits)
  qed (use Suc.prems in \<open>auto simp: Let_def split: if_splits\<close>)
qed

text \<open>
  On a manifest the reader accepted, the bounded walk is exact: the path of an entry is its
  parent's path with its own name appended, at every depth, an entry at the top level (or below
  an unnamed directory) having just its name.
\<close>

theorem entry_path_extends_parent:
  assumes "deserialize data = Inr m" and "parent_step m i p"
    and "get_string m (e_name (m_entries m ! i)) \<noteq> []"
  shows "entry_path m i =
     (if get_string m (e_name (m_entries m ! p)) = [] then get_string m (e_name (m_entries m ! i))
      else entry_path m p @ slash # get_string m (e_name (m_entries m ! i)))"
proof -
  note val = deserialize_parts(1) [OF assms(1)]
  let ?n = "length (m_entries m)" and ?name = "get_string m (e_name (m_entries m ! i))"
  note pre = parent_step_precedes [OF val assms(2)]
  have "path_parts m (Suc ?n) i = ?name # path_parts m ?n p"
    using assms(2,3) by (auto simp: parent_step_iff Let_def)
  moreover have "path_parts m ?n p = path_parts m (Suc ?n) p"
    using path_parts_enough [OF val, of p ?n] path_parts_enough [OF val, of p "Suc ?n"] pre by simp
  moreover have "path_parts m (Suc ?n) p = [] \<longleftrightarrow> get_string m (e_name (m_entries m ! p)) = []"
    using pre by (simp add: Let_def)
  moreover have "join_with slash (xs @ [y]) = (if xs = [] then y else join_with slash xs @ slash # y)"
    for xs y
    by (induction "slash" xs rule: join_with.induct) auto
  ultimately show ?thesis by (simp add: entry_path_def del: path_parts.simps)
qed

theorem entry_path_extends_parent_witness:
  "entry_path sample_manifest 1 = entry_path sample_manifest 0 @ slash # lit ''app''"
proof -
  have d: "deserialize (serialize sample_manifest @ []) = Inr sample_manifest"
    by (rule deserialize_serialize [OF sample_manifest_wf])
  have step: "parent_step sample_manifest 1 0"
    by (simp add: parent_step_iff sample_manifest_def sample_entry_def U32_MAX_def)
  have "e_name (m_entries sample_manifest ! 1) = 5" "e_name (m_entries sample_manifest ! 0) = 1"
    by (simp_all add: sample_manifest_def sample_entry_def)
  then show ?thesis
    using entry_path_extends_parent [OF d step] sample_strings by (simp add: lit_def)
qed

text \<open>
  On a manifest the reader accepted, the validated walk fails for one reason only: it returns
  the entry's path whenever every name on the way up is a safe component, and an error otherwise.
\<close>

theorem validated_entry_path_complete:
  assumes "deserialize data = Inr m" and "i < length (m_entries m)"
  shows "validated_entry_path m i = Inr (entry_path m i) \<longleftrightarrow>
     list_all is_safe_component (path_parts m (Suc (length (m_entries m))) i)"
proof -
  note val = deserialize_parts(1) [OF assms(1)]
  let ?ps = "path_parts m (Suc (length (m_entries m))) i"
  show ?thesis
  proof
    assume "list_all is_safe_component ?ps"
    then show "validated_entry_path m i = Inr (entry_path m i)"
      using validated_parts_complete [OF val assms(2)] push_parts [of "rev ?ps"]
      by (simp add: validated_entry_path_def entry_path_def del: path_parts.simps
          validated_parts.simps)
  next
    assume "validated_entry_path m i = Inr (entry_path m i)"
    then show "list_all is_safe_component ?ps"
      by (auto simp: validated_entry_path_def tryE_Inr_iff simp del: path_parts.simps
          validated_parts.simps dest!: validated_parts_Inr)
  qed
qed

theorem validated_entry_path_complete_witness:
  "validated_entry_path sample_manifest 2 = Inr (entry_path sample_manifest 2)"
proof -
  have d: "deserialize (serialize sample_manifest @ []) = Inr sample_manifest"
    by (rule deserialize_serialize [OF sample_manifest_wf])
  have "list_all is_safe_component (path_parts sample_manifest (Suc (length (m_entries sample_manifest))) 2)"
    by code_simp
  moreover have "2 < length (m_entries sample_manifest)" by (simp add: sample_manifest_def)
  ultimately show ?thesis using validated_entry_path_complete [OF d] by blast
qed

end
