(* ===== verification/Rules.thy ===== *)
theory Rules
  imports Strings
begin

text \<open>
  \<open>rules.rs\<close>: framework descriptors and their validation. Identities, relative paths and
  environment names are the validated newtypes of the source, here byte strings their
  constructors return; a descriptor is a tree of records. An error keeps the field and the
  reason it was built from, and the offending value where the code excerpts one; the
  truncation and escaping of the excerpt are not modelled.
\<close>

definition SCHEMA_VERSION :: u16 where "SCHEMA_VERSION = 1"
definition MAX_RECORDS :: nat where "MAX_RECORDS = 4096"
definition MAX_ID_BYTES :: nat where "MAX_ID_BYTES = 128"
definition MAX_PATH_BYTES :: nat where "MAX_PATH_BYTES = 4096"

datatype rule_error = RuleError string string | RuleErrorAt string string bytes

section \<open>Identities\<close>

definition id_start :: "bytes \<Rightarrow> bool" where
  "id_start value \<longleftrightarrow> (case value of b # _ \<Rightarrow> is_ascii_alphanumeric b | [] \<Rightarrow> False)"

definition id_byte :: "u8 \<Rightarrow> bool" where
  "id_byte b \<longleftrightarrow> is_ascii_alphanumeric b \<or> b \<in> set (lit ''._-'')"

definition rule_id_new :: "bytes \<Rightarrow> rule_error + bytes" where
  "rule_id_new value =
     (if length value > MAX_ID_BYTES then Inl (RuleError ''id'' ''exceeds MAX_ID_BYTES (128)'')
      else if \<not> id_start value \<or> \<not> list_all id_byte value
      then Inl (RuleErrorAt ''id'' ''expected an alphanumeric identity'' value)
      else Inr value)"

definition set_name :: "bytes \<Rightarrow> rule_error + bytes" where
  "set_name value =
     tryE (rule_id_new value) (\<lambda>ident.
     if dot \<in> set value
     then Inl (RuleErrorAt ''set name'' ''expected ASCII letters, digits, - and _ only'' value)
     else Inr ident)"

definition rule_id_ok :: "bytes \<Rightarrow> bool" where
  "rule_id_ok value \<longleftrightarrow> length value \<le> MAX_ID_BYTES \<and> id_start value \<and> list_all id_byte value"

lemma rule_id_new_Inr [simp]: "rule_id_new value = Inr i \<longleftrightarrow> rule_id_ok value \<and> i = value"
  by (auto simp: rule_id_new_def rule_id_ok_def)

lemma set_name_Inr [simp]:
  "set_name value = Inr i \<longleftrightarrow> rule_id_ok value \<and> dot \<notin> set value \<and> i = value"
  by (auto simp: set_name_def tryE_Inr_iff)

lemma id_byte_less: "id_byte b \<Longrightarrow> b < 0x80 \<and> 0x20 < b \<and> b \<noteq> slash"
  by (auto simp: id_byte_def is_ascii_alphanumeric_def is_ascii_alphabetic_def is_ascii_digit_def
      lit_def word_le_nat_alt word_less_nat_alt word_unat_eq_iff)

lemma rule_id_ok_bytes:
  "rule_id_ok v \<Longrightarrow> v \<noteq> [] \<and> (\<forall>b \<in> set v. b < 0x80 \<and> 0x20 < b \<and> b \<noteq> slash)"
  by (auto simp: rule_id_ok_def id_start_def list_all_iff dest!: id_byte_less)

lemma rule_id_ok_utf8: "rule_id_ok v \<Longrightarrow> utf8 v"
  by (rule utf8_ascii) (use rule_id_ok_bytes in blast)

section \<open>Relative paths\<close>

text \<open>The parts of a path that stay: neither empty nor a single dot.\<close>

definition path_parts_kept :: "bytes \<Rightarrow> bytes list" where
  "path_parts_kept value = filter (\<lambda>part. part \<noteq> [] \<and> part \<noteq> [dot]) (split_on slash value)"

definition windows_drive :: "bytes \<Rightarrow> bool" where
  "windows_drive first \<longleftrightarrow>
     (case first of a # b # _ \<Rightarrow> b = 0x3A \<and> is_ascii_alphabetic a | _ \<Rightarrow> False)"

definition relative_path_new :: "bytes \<Rightarrow> rule_error + bytes" where
  "relative_path_new value =
     (if length value > MAX_PATH_BYTES
      then Inl (RuleError ''path'' ''exceeds MAX_PATH_BYTES (4096)'')
      else
        let first_component = (case path_parts_kept value of [] \<Rightarrow> [] | p # _ \<Rightarrow> p)
        in if prefix [slash] value \<or> windows_drive first_component \<or> 0x5C \<in> set value
              \<or> list_ex is_ascii_control value \<or> [dot, dot] \<in> set (split_on slash value)
           then Inl (RuleErrorAt ''path'' ''expected a confined relative path'' value)
           else
             let normalized = join_with slash (path_parts_kept value)
             in if normalized = []
                then Inl (RuleError ''path'' ''must name a resource below its base'')
                else Inr normalized)"

text \<open>What the constructor promises: a nonempty path of plain parts, in its one spelling.\<close>

definition relative_path_ok :: "bytes \<Rightarrow> bool" where
  "relative_path_ok p \<longleftrightarrow> p \<noteq> [] \<and> length p \<le> MAX_PATH_BYTES
     \<and> list_all (\<lambda>part. part \<noteq> [] \<and> part \<noteq> [dot] \<and> part \<noteq> [dot, dot]) (split_on slash p)
     \<and> \<not> windows_drive (hd (split_on slash p)) \<and> 0x5C \<notin> set p \<and> \<not> list_ex is_ascii_control p"

lemma length_join_with: "ps \<noteq> [] \<Longrightarrow> Suc (length (join_with c ps)) = (\<Sum>p\<leftarrow>ps. Suc (length p))"
  by (induction c ps rule: join_with.induct) auto

lemma sum_list_filter_le: "(\<Sum>p\<leftarrow>filter P ps. f p) \<le> (\<Sum>p\<leftarrow>ps. f p :: nat)"
  by (induction ps) auto

lemma length_join_filter_le:
  "length (join_with c (filter P (split_on c v))) \<le> length v"
proof (cases "filter P (split_on c v) = []")
  case False
  have "Suc (length (join_with c (filter P (split_on c v)))) \<le> (\<Sum>p\<leftarrow>split_on c v. Suc (length p))"
    unfolding length_join_with [OF False] by (rule sum_list_filter_le)
  also have "\<dots> = Suc (length v)" using length_join_with [of "split_on c v" c] by simp
  finally show ?thesis by simp
qed simp

lemma set_join_with: "set (join_with c ps) \<subseteq> insert c (\<Union> (set ` set ps))"
  by (induction c ps rule: join_with.induct) auto

lemma path_parts_kept_split:
  "path_parts_kept v \<noteq> [] \<Longrightarrow> split_on slash (join_with slash (path_parts_kept v)) = path_parts_kept v"
  by (rule split_join) (auto simp: path_parts_kept_def dest: split_on_no_sep)

lemma set_normalized: "set (join_with slash (path_parts_kept v)) \<subseteq> insert slash (set v)"
  using set_join_with [of slash "path_parts_kept v"] set_split_on_subset [of _ slash v]
  by (fastforce simp: path_parts_kept_def)

lemma hd_path_parts_kept:
  "path_parts_kept v \<noteq> [] \<Longrightarrow> (case path_parts_kept v of [] \<Rightarrow> [] | p # _ \<Rightarrow> p) = hd (path_parts_kept v)"
  by (cases "path_parts_kept v") simp_all

lemma relative_path_new_ok:
  assumes "relative_path_new value = Inr p"
  shows "relative_path_ok p \<and> p = join_with slash (path_parts_kept value)"
proof -
  from assms have p: "p = join_with slash (path_parts_kept value)" "p \<noteq> []"
    and len: "length value \<le> MAX_PATH_BYTES"
    and first: "\<not> windows_drive (case path_parts_kept value of [] \<Rightarrow> [] | p # _ \<Rightarrow> p)"
    and bs: "0x5C \<notin> set value" "\<not> list_ex is_ascii_control value"
    and dd: "[dot, dot] \<notin> set (split_on slash value)"
    by (auto simp: relative_path_new_def Let_def split: if_splits)
  have ne: "path_parts_kept value \<noteq> []" using p by auto
  note split = path_parts_kept_split [OF ne, folded p(1)]
  have "length p \<le> MAX_PATH_BYTES"
    unfolding p(1) path_parts_kept_def by (rule le_trans [OF length_join_filter_le len])
  moreover have "0x5C \<notin> set p" "\<not> list_ex is_ascii_control p"
    using set_normalized [of "value", folded p(1)] bs
    by (auto simp: list_ex_iff is_ascii_control_def)
  moreover have "\<not> windows_drive (hd (split_on slash p))"
    using first by (simp add: hd_path_parts_kept [OF ne] split)
  moreover have "list_all (\<lambda>part. part \<noteq> [] \<and> part \<noteq> [dot] \<and> part \<noteq> [dot, dot])
      (split_on slash p)"
    unfolding split using dd by (auto simp: path_parts_kept_def list_all_iff)
  ultimately show ?thesis using p unfolding relative_path_ok_def by blast
qed

lemma relative_path_new_ident:
  assumes "relative_path_ok p"
  shows "relative_path_new p = Inr p"
proof -
  have kept: "path_parts_kept p = split_on slash p"
    using assms unfolding path_parts_kept_def by (intro filter_True) (auto simp: relative_path_ok_def list_all_iff)
  have "\<not> prefix [slash] p"
  proof
    assume "prefix [slash] p"
    then obtain q where "p = slash # q" by (auto simp: prefix_def)
    then show False using assms by (simp add: relative_path_ok_def)
  qed
  then show ?thesis using assms hd_path_parts_kept [of p]
    by (auto simp: relative_path_new_def kept relative_path_ok_def list_all_iff Let_def)
qed

lemma relative_path_new_Inr_self: "relative_path_new p = Inr p \<longleftrightarrow> relative_path_ok p"
  using relative_path_new_ok relative_path_new_ident by blast

text \<open>
  Validating a relative path normalizes it once and for all: the accepted form validates to
  itself, is a nonempty list of plain names with no empty, dot or dot-dot part, no backslash and
  no control byte, and joined onto any base it names something strictly below that base.
\<close>

theorem relative_path_new_confined:
  assumes "relative_path_new value = Inr p"
  shows "relative_path_new p = Inr p
    \<and> (\<exists>names. names \<noteq> [] \<and> components p = map Normal names
         \<and> (base \<noteq> [] \<longrightarrow> components (path_push base p) = components base @ map Normal names))
    \<and> 0x5C \<notin> set p \<and> \<not> list_ex is_ascii_control p"
proof -
  have ok: "relative_path_ok p" using relative_path_new_ok [OF assms] by blast
  then have parts: "list_all (\<lambda>part. part \<noteq> [] \<and> part \<noteq> [dot] \<and> part \<noteq> [dot, dot]) (split_on slash p)"
    by (simp add: relative_path_ok_def)
  then have body: "body_components (split_on slash p) = map Normal (split_on slash p)"
    unfolding body_components_def
    by (subst filter_True) (auto simp: classify_def list_all_iff)
  have "\<not> is_absolute p"
    using assms relative_path_new_ident [OF ok]
    by (auto simp: relative_path_new_def is_absolute_def Let_def split: if_splits)
  moreover have "hd (split_on slash p) \<noteq> [dot]"
    using parts by (cases "split_on slash p") simp_all
  ultimately have "components p = map Normal (split_on slash p)"
    by (simp add: components_lead lead_def body)
  then show ?thesis
    using relative_path_new_ident [OF ok] ok components_push [OF \<open>\<not> is_absolute p\<close>, of base] body
    by (auto simp: relative_path_ok_def intro!: exI [of _ "split_on slash p"])
qed

theorem relative_path_new_confined_witness:
  "relative_path_new (lit ''./share//misc/./magic.mgc'') = Inr (lit ''share/misc/magic.mgc'')
   \<and> relative_path_new (lit ''share/misc/magic.mgc'') = Inr (lit ''share/misc/magic.mgc'')"
proof -
  have "relative_path_new (lit ''./share//misc/./magic.mgc'') = Inr (lit ''share/misc/magic.mgc'')"
    by code_simp
  with relative_path_new_confined [OF this] show ?thesis by blast
qed


section \<open>Environment names\<close>

definition environment_start :: "bytes \<Rightarrow> bool" where
  "environment_start value \<longleftrightarrow>
     (case value of b # _ \<Rightarrow> is_ascii_alphabetic b \<or> b = 0x5F | [] \<Rightarrow> False)"

definition environment_byte :: "u8 \<Rightarrow> bool" where
  "environment_byte b \<longleftrightarrow> is_ascii_alphanumeric b \<or> b = 0x5F"

definition environment_name_new :: "bytes \<Rightarrow> rule_error + bytes" where
  "environment_name_new value =
     (if length value > MAX_ID_BYTES
      then Inl (RuleError ''environment'' ''exceeds MAX_ID_BYTES (128)'')
      else if \<not> environment_start value \<or> \<not> list_all environment_byte value
      then Inl (RuleErrorAt ''environment'' ''invalid variable name'' value)
      else if prefix (lit ''LD_'') value
        \<or> value = lit ''GCONV_PATH'' \<or> value = lit ''GLIBC_TUNABLES''
      then Inl (RuleErrorAt ''environment''
                  ''prohibited library-search or loader-control variable'' value)
      else if prefix (lit ''ONELF_'') value
      then Inl (RuleErrorAt ''environment'' ''prohibited runtime-owned variable'' value)
      else Inr value)"

definition environment_name_ok :: "bytes \<Rightarrow> bool" where
  "environment_name_ok value \<longleftrightarrow> length value \<le> MAX_ID_BYTES \<and> environment_start value
     \<and> list_all environment_byte value \<and> \<not> prefix (lit ''LD_'') value
     \<and> value \<noteq> lit ''GCONV_PATH'' \<and> value \<noteq> lit ''GLIBC_TUNABLES''
     \<and> \<not> prefix (lit ''ONELF_'') value"

lemma environment_name_new_Inr [simp]:
  "environment_name_new value = Inr n \<longleftrightarrow> environment_name_ok value \<and> n = value"
  by (auto simp: environment_name_new_def environment_name_ok_def)

lemma environment_name_ok_ascii: "environment_name_ok v \<Longrightarrow> utf8 v \<and> v \<noteq> []"
  by (intro conjI utf8_ascii)
    (auto simp: environment_name_ok_def environment_start_def environment_byte_def list_all_iff
      is_ascii_alphanumeric_def is_ascii_alphabetic_def is_ascii_digit_def word_le_nat_alt
      word_less_nat_alt word_unat_eq_iff)

section \<open>Descriptors\<close>

datatype resource_kind = File | Directory
datatype value_shape = Single | List
datatype requirement = Required | Optional
datatype source_base = InstallationPrefix | LibraryDir
datatype runtime_base = PackageRoot | LibraryRoot
datatype path_selection = First | All | FirstPerLibraryRoot
datatype inheritance = Preserve | Replace
datatype build_hook_id = AlsaConfPatch
datatype runtime_hook_id =
    AlsaConfigPathNaturalSort
  | GdkCacheAbsolutise
  | FontconfigGenerate
  | GioModulePaths
  | TclTkLibraries

text \<open>The derived \<open>Ord\<close> of the hook registry: declaration order.\<close>

primrec hook_rank :: "runtime_hook_id \<Rightarrow> nat" where
  "hook_rank AlsaConfigPathNaturalSort = 0"
| "hook_rank GdkCacheAbsolutise = 1"
| "hook_rank FontconfigGenerate = 2"
| "hook_rank GioModulePaths = 3"
| "hook_rank TclTkLibraries = 4"

lemma hook_rank_inject [simp]: "hook_rank a = hook_rank b \<longleftrightarrow> a = b"
  by (cases a; cases b) simp_all

instantiation runtime_hook_id :: linorder
begin

definition less_eq_runtime_hook_id :: "runtime_hook_id \<Rightarrow> runtime_hook_id \<Rightarrow> bool" where
  "less_eq_runtime_hook_id a b \<longleftrightarrow> hook_rank a \<le> hook_rank b"

definition less_runtime_hook_id :: "runtime_hook_id \<Rightarrow> runtime_hook_id \<Rightarrow> bool" where
  "less_runtime_hook_id a b \<longleftrightarrow> hook_rank a < hook_rank b"

instance
  by standard (auto simp: less_eq_runtime_hook_id_def less_runtime_hook_id_def)

end

type_synonym name_shape = "bytes \<times> value_shape \<times> resource_kind"

definition HOOK_NAMES :: "(runtime_hook_id \<times> name_shape list) list" where
  "HOOK_NAMES =
     [(AlsaConfigPathNaturalSort, [(lit ''ALSA_CONFIG_PATH'', List, File)]),
      (GdkCacheAbsolutise,
        [(lit ''GDK_PIXBUF_MODULE_FILE'', Single, File),
         (lit ''GTK_IM_MODULE_FILE'', Single, File)]),
      (FontconfigGenerate, [(lit ''FONTCONFIG_FILE'', Single, File)]),
      (GioModulePaths,
        [(lit ''GIO_MODULE_DIR'', Single, Directory),
         (lit ''GIO_EXTRA_MODULES'', List, Directory)]),
      (TclTkLibraries,
        [(lit ''TCL_LIBRARY'', Single, Directory),
         (lit ''TK_LIBRARY'', Single, Directory)])]"

definition PROCEDURE_NAMES :: "name_shape list" where
  "PROCEDURE_NAMES =
     [(lit ''GCONV_PATH'', List, Directory),
      (lit ''LIBDECOR_PLUGIN_DIR'', Single, Directory),
      (lit ''LIBGL_DRIVERS_PATH'', List, Directory),
      (lit ''LIBVA_DRIVERS_PATH'', List, Directory),
      (lit ''GBM_BACKENDS_PATH'', List, Directory),
      (lit ''__EGL_VENDOR_LIBRARY_DIRS'', List, Directory),
      (lit ''VK_DRIVER_FILES'', List, File),
      (lit ''VK_ADD_DRIVER_FILES'', List, File),
      (lit ''DRIRC_CONFIGDIR'', Single, Directory),
      (lit ''LIBDRM_IDS_PATH'', Single, Directory),
      (lit ''TERMINFO_DIRS'', List, Directory),
      (lit ''SSL_CERT_FILE'', Single, File),
      (lit ''CURL_CA_BUNDLE'', Single, File),
      (lit ''LOCPATH'', List, Directory)]"

definition runtime_owned :: "bytes \<Rightarrow> bool" where
  "runtime_owned name =
     list_ex (\<lambda>(owned, _, _). owned = name) (concat (map snd HOOK_NAMES) @ PROCEDURE_NAMES)"

record trigger = soname_prefix :: bytes

definition valid_soname :: "bytes \<Rightarrow> bool" where
  "valid_soname value \<longleftrightarrow> value \<noteq> [] \<and> length value \<le> MAX_PATH_BYTES \<and> value \<noteq> [dot]
     \<and> value \<noteq> [dot, dot] \<and> \<not> list_ex (\<lambda>b. is_ascii_control b \<or> b = slash \<or> b = 0x5C) value"

definition valid_prefix :: "bytes \<Rightarrow> bool" where
  "valid_prefix value \<longleftrightarrow>
     valid_soname value \<and> \<not> list_ex (\<lambda>b. b \<in> set (lit '':*?[]'')) value"

definition matches_soname :: "trigger \<Rightarrow> bytes \<Rightarrow> bool" where
  "matches_soname t soname \<longleftrightarrow>
     valid_prefix (soname_prefix t) \<and> valid_soname soname \<and> prefix (soname_prefix t) soname"

record source_candidate =
  sc_base :: source_base
  sc_path :: bytes

record resource_group =
  rg_id :: bytes
  rg_kind :: resource_kind
  rg_candidates :: "source_candidate list"
  rg_destination :: bytes
  rg_requirement :: requirement
  rg_members :: "bytes list"

record helper_group =
  hg_id :: bytes
  hg_group :: bytes
  hg_kind :: resource_kind
  hg_candidates :: "source_candidate list"
  hg_destination :: bytes
  hg_requirement :: requirement

record resources =
  plugins :: "resource_group list"
  data :: "resource_group list"
  helpers :: "helper_group list"

record runtime_candidate =
  rc_base :: runtime_base
  rc_path :: bytes

record runtime_path_group =
  rp_id :: bytes
  rp_kind :: resource_kind
  rp_candidates :: "runtime_candidate list"
  rp_variables :: "bytes list"
  rp_selection :: path_selection
  rp_inheritance :: inheritance

record runtime_rules =
  rt_paths :: "runtime_path_group list"
  rt_hooks :: "runtime_hook_id list"

record descriptor =
  d_schema :: u16
  d_id :: bytes
  d_triggers :: "trigger list"
  d_resources :: resources
  d_build_hooks :: "build_hook_id list"
  d_runtime :: runtime_rules

section \<open>Record budgets and duplicate checks\<close>

definition record_budget_add :: "nat \<Rightarrow> nat \<Rightarrow> rule_error + nat" where
  "record_budget_add count budget =
     (case checked_add budget count of
        Some n \<Rightarrow> if n \<le> MAX_RECORDS then Inr n
                  else Inl (RuleError ''records'' ''exceeds MAX_RECORDS (4096)'')
      | None \<Rightarrow> Inl (RuleError ''records'' ''exceeds MAX_RECORDS (4096)''))"

definition unique :: "string \<Rightarrow> 'a \<Rightarrow> 'a set \<Rightarrow> rule_error + 'a set" where
  "unique field value seen =
     (if value \<in> seen then Inl (RuleError field ''duplicate identity'')
      else Inr (insert value seen))"

definition require_candidates :: "'a list \<Rightarrow> bytes \<Rightarrow> rule_error + unit" where
  "require_candidates candidates ident =
     (if candidates = []
      then Inl (RuleErrorAt ''candidates''
                  ''requires at least one source or runtime candidate'' ident)
      else Inr ())"

lemma record_budget_add_Inr [simp]:
  "record_budget_add count b = Inr n \<longleftrightarrow> n = b + count \<and> n \<le> MAX_RECORDS"
  by (auto simp: record_budget_add_def checked_add_def MAX_RECORDS_def usize_max_def)

lemma record_budget_adds:
  "b \<le> MAX_RECORDS \<Longrightarrow>
     foldE record_budget_add ns b = Inr n \<longleftrightarrow> n = b + sum_list ns \<and> n \<le> MAX_RECORDS"
  by (induction ns arbitrary: b) (auto simp: tryE_Inr_iff)

lemma unique_Inr [simp]: "unique f v s = Inr s' \<longleftrightarrow> v \<notin> s \<and> s' = insert v s"
  by (auto simp: unique_def)

lemma require_candidates_Inr [simp]: "require_candidates cs i = Inr () \<longleftrightarrow> cs \<noteq> []"
  by (simp add: require_candidates_def)

lemma foldE_unique_plain:
  "foldE (\<lambda>x. unique field (k x)) xs s = Inr s' \<longleftrightarrow>
     distinct (map k xs) \<and> k ` set xs \<inter> s = {} \<and> s' = s \<union> k ` set xs"
  using foldE_unique [of "\<lambda>x. unique field (k x)" "\<lambda>_. True" k] by simp

section \<open>Runtime rules\<close>

definition validate_variable :: "bytes \<Rightarrow> bytes set \<Rightarrow> rule_error + bytes set" where
  "validate_variable variable seen =
     (if runtime_owned variable
      then Inl (RuleErrorAt ''runtime.paths.variables''
                  ''assigned by a runtime hook or launch procedure'' variable)
      else unique ''environment alias'' variable seen)"

definition validate_path_group :: "runtime_path_group \<Rightarrow> bytes set \<Rightarrow> rule_error + bytes set" where
  "validate_path_group path paths =
     tryE (unique ''runtime path id'' (rp_id path) paths) (\<lambda>paths'.
     tryE (require_candidates (rp_candidates path) (rp_id path)) (\<lambda>_.
     if rp_variables path = []
     then Inl (RuleErrorAt ''runtime.paths.variables''
                 ''requires at least one environment alias'' (rp_id path))
     else
       tryE (foldE validate_variable (rp_variables path) {}) (\<lambda>_.
       if rp_selection path = FirstPerLibraryRoot
         \<and> list_ex (\<lambda>c. rc_base c \<noteq> LibraryRoot) (rp_candidates path)
       then Inl (RuleErrorAt ''runtime.paths.selection''
                   ''first-per-library-root requires library-root candidates'' (rp_id path))
       else Inr paths')))"

definition runtime_validate_fields :: "runtime_rules \<Rightarrow> rule_error + unit" where
  "runtime_validate_fields rt =
     tryE (foldE validate_path_group (rt_paths rt) {}) (\<lambda>_.
     tryE (foldE (unique ''runtime hook'') (rt_hooks rt) {}) (\<lambda>_. Inr ()))"

definition path_counts :: "runtime_path_group list \<Rightarrow> nat list" where
  "path_counts paths =
     concat (map (\<lambda>p. [length (rp_candidates p), length (rp_variables p)]) paths)"

definition runtime_validate :: "runtime_rules \<Rightarrow> rule_error + unit" where
  "runtime_validate rt =
     tryE (foldE record_budget_add
             ([length (rt_paths rt), length (rt_hooks rt)] @ path_counts (rt_paths rt)) 0) (\<lambda>_.
     runtime_validate_fields rt)"

text \<open>What a valid path group is, apart from the clash of its identity with another.\<close>

definition path_group_ok :: "runtime_path_group \<Rightarrow> bool" where
  "path_group_ok path \<longleftrightarrow>
     rp_candidates path \<noteq> [] \<and> rp_variables path \<noteq> [] \<and> distinct (rp_variables path)
     \<and> (\<forall>v \<in> set (rp_variables path). \<not> runtime_owned v)
     \<and> (rp_selection path = FirstPerLibraryRoot \<longrightarrow>
          (\<forall>c \<in> set (rp_candidates path). rc_base c = LibraryRoot))"

definition runtime_ok :: "runtime_rules \<Rightarrow> bool" where
  "runtime_ok rt \<longleftrightarrow> (\<forall>p \<in> set (rt_paths rt). path_group_ok p) \<and> distinct (map rp_id (rt_paths rt))
     \<and> distinct (rt_hooks rt)"

lemma validate_path_group_Inr:
  "validate_path_group path paths = Inr paths' \<longleftrightarrow>
     path_group_ok path \<and> rp_id path \<notin> paths \<and> paths' = insert (rp_id path) paths"
proof -
  have "(\<exists>s. foldE validate_variable vs {} = Inr s) \<longleftrightarrow>
      distinct vs \<and> (\<forall>v \<in> set vs. \<not> runtime_owned v)" for vs
    using foldE_unique [of validate_variable "\<lambda>v. \<not> runtime_owned v" "\<lambda>v. v" vs "{}"]
    by (auto simp: validate_variable_def)
  then show ?thesis
    by (auto simp: validate_path_group_def path_group_ok_def tryE_Inr_iff list_ex_iff)
qed

lemma runtime_validate_fields_Inr [simp]:
  "runtime_validate_fields rt = Inr () \<longleftrightarrow> runtime_ok rt"
  using foldE_unique [OF validate_path_group_Inr, where xs = "rt_paths rt" and s = "{}"]
    foldE_unique_plain [of "''runtime hook''" "\<lambda>h. h" "rt_hooks rt" "{}"]
  by (auto simp: runtime_validate_fields_def runtime_ok_def tryE_Inr_iff)

section \<open>Descriptors and catalogs\<close>

definition record_counts :: "descriptor \<Rightarrow> nat list" where
  "record_counts d =
     [1, length (d_triggers d), length (plugins (d_resources d)), length (data (d_resources d)),
      length (helpers (d_resources d)), length (rt_paths (d_runtime d)),
      length (d_build_hooks d), length (rt_hooks (d_runtime d))]
     @ concat (map (\<lambda>r. [length (rg_candidates r), length (rg_members r)])
         (plugins (d_resources d) @ data (d_resources d)))
     @ concat (map (\<lambda>h. [1, length (hg_candidates h)]) (helpers (d_resources d)))
     @ path_counts (rt_paths (d_runtime d))"

definition count_records :: "descriptor \<Rightarrow> nat \<Rightarrow> rule_error + nat" where
  "count_records d = foldE record_budget_add (record_counts d)"

definition validate_trigger :: "trigger \<Rightarrow> bytes set \<Rightarrow> rule_error + bytes set" where
  "validate_trigger t triggers =
     (if \<not> valid_prefix (soname_prefix t)
      then Inl (RuleErrorAt ''soname-prefix'' ''expected a literal soname prefix'' (soname_prefix t))
      else unique ''soname-prefix'' (soname_prefix t) triggers)"

definition validate_resource :: "resource_group \<Rightarrow> bytes set \<Rightarrow> rule_error + bytes set" where
  "validate_resource r groups =
     tryE (unique ''resource id'' (rg_id r) groups) (\<lambda>groups'.
     tryE (require_candidates (rg_candidates r) (rg_id r)) (\<lambda>_. Inr groups'))"

definition validate_plugin :: "resource_group \<Rightarrow> rule_error + unit" where
  "validate_plugin p =
     (if rg_kind p \<noteq> Directory
      then Inl (RuleErrorAt ''plugins.kind'' ''must be directory'' (rg_id p))
      else tryE (foldE (unique ''plugins.members'') (rg_members p) {}) (\<lambda>_. Inr ()))"

definition validate_helper :: "bytes set \<Rightarrow> helper_group \<Rightarrow> rule_error + unit" where
  "validate_helper groups h =
     (if hg_group h \<notin> groups
      then Inl (RuleErrorAt ''helpers.group'' ''unknown plugin or data group'' (hg_group h))
      else if hg_kind h \<noteq> File
      then Inl (RuleErrorAt ''helpers.kind'' ''must be file'' (hg_id h))
      else require_candidates (hg_candidates h) (hg_id h))"

definition validate_fields :: "descriptor \<Rightarrow> rule_error + unit" where
  "validate_fields d =
     (if d_schema d \<noteq> SCHEMA_VERSION
      then Inl (RuleErrorAt ''schema'' ''unsupported version'' (d_id d))
      else
        tryE (foldE validate_trigger (d_triggers d) {}) (\<lambda>_.
        tryE (foldE validate_resource (plugins (d_resources d) @ data (d_resources d)) {}) (\<lambda>groups.
        tryE (eachE validate_plugin (plugins (d_resources d))) (\<lambda>_.
        case find (\<lambda>g. rg_members g \<noteq> []) (data (d_resources d)) of
          Some g \<Rightarrow> Inl (RuleErrorAt ''data.members'' ''only plugin groups list members'' (rg_id g))
        | None \<Rightarrow>
            tryE (eachE (validate_helper groups) (helpers (d_resources d))) (\<lambda>_.
            tryE (foldE (\<lambda>h. unique ''resource id'' (hg_id h)) (helpers (d_resources d)) groups) (\<lambda>_.
            tryE (runtime_validate_fields (d_runtime d)) (\<lambda>_.
            tryE (foldE (unique ''build hook'') (d_build_hooks d) {}) (\<lambda>_. Inr ()))))))))"

definition descriptor_validate :: "descriptor \<Rightarrow> rule_error + unit" where
  "descriptor_validate d = tryE (count_records d 0) (\<lambda>_. validate_fields d)"

text \<open>
  What a descriptor must satisfy field by field, without the order in which the code looks:
  the schema, the triggers, one namespace for plugin, data and helper identities, kinds and
  candidates of each group, members for plugins only, helpers that name a plugin or data group,
  the runtime rules, and no repeated build hook.
\<close>

definition fields_ok :: "descriptor \<Rightarrow> bool" where
  "fields_ok d \<longleftrightarrow>
     (let ps = plugins (d_resources d); ds = data (d_resources d); hs = helpers (d_resources d)
      in d_schema d = SCHEMA_VERSION
         \<and> (\<forall>t \<in> set (d_triggers d). valid_prefix (soname_prefix t))
         \<and> distinct (map soname_prefix (d_triggers d))
         \<and> distinct (map rg_id (ps @ ds) @ map hg_id hs)
         \<and> (\<forall>g \<in> set (ps @ ds). rg_candidates g \<noteq> [])
         \<and> (\<forall>g \<in> set ps. rg_kind g = Directory \<and> distinct (rg_members g))
         \<and> (\<forall>g \<in> set ds. rg_members g = [])
         \<and> (\<forall>h \<in> set hs. hg_group h \<in> rg_id ` set (ps @ ds) \<and> hg_kind h = File
              \<and> hg_candidates h \<noteq> [])
         \<and> runtime_ok (d_runtime d) \<and> distinct (d_build_hooks d))"

definition record_total :: "descriptor \<Rightarrow> nat" where
  "record_total d = sum_list (record_counts d)"

lemma validate_triggers_Inr:
  "(\<exists>s. foldE validate_trigger ts {} = Inr s) \<longleftrightarrow>
     (\<forall>t \<in> set ts. valid_prefix (soname_prefix t)) \<and> distinct (map soname_prefix ts)"
proof -
  have "validate_trigger t s = Inr s' \<longleftrightarrow>
      valid_prefix (soname_prefix t) \<and> soname_prefix t \<notin> s \<and> s' = insert (soname_prefix t) s"
    for t s s' by (auto simp: validate_trigger_def)
  from foldE_unique [OF this, where xs = ts and s = "{}"] show ?thesis by auto
qed

lemma validate_resources_Inr:
  "foldE validate_resource gs {} = Inr s \<longleftrightarrow>
     (\<forall>g \<in> set gs. rg_candidates g \<noteq> []) \<and> distinct (map rg_id gs) \<and> s = rg_id ` set gs"
proof -
  have "validate_resource g s = Inr s' \<longleftrightarrow>
      rg_candidates g \<noteq> [] \<and> rg_id g \<notin> s \<and> s' = insert (rg_id g) s"
    for g s s' by (auto simp: validate_resource_def tryE_Inr_iff)
  from foldE_unique [OF this, where xs = gs and s = "{}"] show ?thesis by auto
qed

lemma validate_plugin_Inr [simp]:
  "validate_plugin p = Inr () \<longleftrightarrow> rg_kind p = Directory \<and> distinct (rg_members p)"
  using foldE_unique_plain [of "''plugins.members''" "\<lambda>h. h" "rg_members p" "{}"]
  by (auto simp: validate_plugin_def tryE_Inr_iff)

lemma validate_helper_Inr [simp]:
  "validate_helper groups h = Inr () \<longleftrightarrow>
     hg_group h \<in> groups \<and> hg_kind h = File \<and> hg_candidates h \<noteq> []"
  by (auto simp: validate_helper_def)

lemma find_guard_Inr:
  "(case find P xs of Some g \<Rightarrow> Inl (f g) | None \<Rightarrow> m) = Inr u \<longleftrightarrow>
     (\<forall>x \<in> set xs. \<not> P x) \<and> m = Inr u"
  by (auto split: option.splits simp: find_None_iff find_Some_iff)

lemma validate_fields_Inr [simp]: "validate_fields d = Inr () \<longleftrightarrow> fields_ok d"
proof -
  have hooks: "(\<exists>s. foldE (unique ''build hook'') hs {} = Inr s) \<longleftrightarrow> distinct hs"
    for hs :: "build_hook_id list"
    using foldE_unique_plain [of "''build hook''" "\<lambda>h. h" hs "{}"] by auto
  show ?thesis
    by (auto simp: validate_fields_def tryE_Inr_iff find_guard_Inr fields_ok_def Let_def hooks
        validate_resources_Inr validate_triggers_Inr foldE_unique_plain)
qed

lemma count_records_Inr:
  "b \<le> MAX_RECORDS \<Longrightarrow>
     count_records d b = Inr n \<longleftrightarrow> n = b + record_total d \<and> n \<le> MAX_RECORDS"
  by (simp add: count_records_def record_total_def record_budget_adds)

text \<open>
  A descriptor validates exactly when it has at most 4096 records and meets every rule of
  its fields: identities distinct in one namespace, kinds and candidates as required, helpers
  naming a plugin or data group, members on plugins only, runtime rules and hooks valid.
\<close>

theorem descriptor_validate_exact:
  "descriptor_validate d = Inr () \<longleftrightarrow> record_total d \<le> MAX_RECORDS \<and> fields_ok d"
  by (auto simp: descriptor_validate_def tryE_Inr_iff count_records_Inr [of 0])

definition validate_rule :: "descriptor \<Rightarrow> bytes set \<Rightarrow> rule_error + bytes set" where
  "validate_rule rule ids =
     tryE (validate_fields rule) (\<lambda>_. unique ''rule id'' (d_id rule) ids)"

definition validate_disabled :: "bytes set \<Rightarrow> bytes \<Rightarrow> bytes set \<Rightarrow> rule_error + bytes set" where
  "validate_disabled ids i disabled_ids =
     (if i \<notin> ids then Inl (RuleErrorAt ''disable-rules'' ''unknown rule id'' i)
      else unique ''disabled rule id'' i disabled_ids)"

definition map_variable :: "bytes \<Rightarrow> bytes set \<Rightarrow> rule_error + bytes set" where
  "map_variable variable mapped =
     (if variable \<in> mapped
      then Inl (RuleErrorAt ''runtime.paths.variables''
                  ''mapped by more than one enabled runtime path group'' variable)
      else Inr (insert variable mapped))"

definition mapped_variables :: "descriptor \<Rightarrow> bytes list" where
  "mapped_variables rule = concat (map rp_variables (rt_paths (d_runtime rule)))"

definition map_rule :: "bytes set \<Rightarrow> descriptor \<Rightarrow> bytes set \<Rightarrow> rule_error + bytes set" where
  "map_rule disabled_ids rule mapped =
     (if d_id rule \<in> disabled_ids then Inr mapped
      else foldE map_variable (mapped_variables rule) mapped)"

definition validate_catalog ::
  "descriptor list \<Rightarrow> descriptor list \<Rightarrow> bytes list \<Rightarrow> rule_error + unit" where
  "validate_catalog builtins local disabled =
     tryE (record_budget_add (length disabled) 0) (\<lambda>b.
     tryE (foldE count_records (builtins @ local) b) (\<lambda>_.
     tryE (foldE validate_rule (builtins @ local) {}) (\<lambda>ids.
     tryE (foldE (validate_disabled ids) disabled {}) (\<lambda>disabled_ids.
     tryE (foldE (map_rule disabled_ids) (builtins @ local) {}) (\<lambda>_. Inr ())))))"

lemma foldE_count_records:
  "b \<le> MAX_RECORDS \<Longrightarrow>
     foldE count_records ds b = Inr n \<longleftrightarrow> n = b + (\<Sum>d\<leftarrow>ds. record_total d) \<and> n \<le> MAX_RECORDS"
  by (induction ds arbitrary: b) (auto simp: tryE_Inr_iff count_records_Inr)

lemma foldE_map_rule:
  "foldE (map_rule off) rules m = Inr m' \<longleftrightarrow>
     (let vs = concat (map mapped_variables (filter (\<lambda>r. d_id r \<notin> off) rules))
      in distinct vs \<and> set vs \<inter> m = {} \<and> m' = m \<union> set vs)"
proof (induction rules arbitrary: m)
  case Nil
  then show ?case by (auto simp: Let_def)
next
  case (Cons r rules)
  have vars: "foldE map_variable vs s = Inr s' \<longleftrightarrow>
      distinct vs \<and> set vs \<inter> s = {} \<and> s' = s \<union> set vs" for vs s s'
    using foldE_unique [of map_variable "\<lambda>_. True" "\<lambda>v. v" vs s s']
    by (auto simp: map_variable_def)
  have step: "map_rule off r m = (if d_id r \<in> off then Inr m
      else foldE map_variable (mapped_variables r) m)" for m by (simp add: map_rule_def)
  show ?case
    by (cases "d_id r \<in> off") (auto simp: tryE_Inr_iff step vars Cons.IH Let_def)
qed

text \<open>
  C17: A catalog validates exactly when built-in and local descriptors together, with the disabled
  identities, stay within 4096 records, every descriptor is valid on its own and has an identity
  no other has, every disabled identity names a descriptor and is given once, and no environment
  variable is mapped twice among the descriptors that stay enabled.
\<close>

theorem validate_catalog_exact:
  "validate_catalog builtins local disabled = Inr () \<longleftrightarrow>
     length disabled + (\<Sum>d\<leftarrow>builtins @ local. record_total d) \<le> MAX_RECORDS
     \<and> (\<forall>d \<in> set (builtins @ local). fields_ok d)
     \<and> distinct (map d_id (builtins @ local))
     \<and> set disabled \<subseteq> d_id ` set (builtins @ local) \<and> distinct disabled
     \<and> distinct (concat (map mapped_variables
           (filter (\<lambda>d. d_id d \<notin> set disabled) (builtins @ local))))"
proof -
  have rules: "foldE validate_rule ds {} = Inr s \<longleftrightarrow>
      (\<forall>d \<in> set ds. fields_ok d) \<and> distinct (map d_id ds) \<and> s = d_id ` set ds" for ds s
    using foldE_unique [of validate_rule fields_ok d_id ds "{}" s]
    by (auto simp: validate_rule_def tryE_Inr_iff)
  have off: "foldE (validate_disabled ids) is {} = Inr s \<longleftrightarrow>
      set is \<subseteq> ids \<and> distinct is \<and> s = set is" for ids "is" s
    using foldE_unique [of "validate_disabled ids" "\<lambda>i. i \<in> ids" "\<lambda>i. i" "is" "{}" s]
    by (auto simp: validate_disabled_def)
  show ?thesis
    unfolding validate_catalog_def tryE_Inr_iff rules off foldE_map_rule Let_def
    by (auto simp: foldE_count_records)
qed

definition sample_descriptor :: "bytes \<Rightarrow> bytes \<Rightarrow> descriptor" where
  "sample_descriptor i variable = \<lparr> d_schema = 1, d_id = i, d_triggers = [],
     d_resources = \<lparr> plugins = [], data = [], helpers = [] \<rparr>, d_build_hooks = [AlsaConfPatch],
     d_runtime = \<lparr> rt_paths = [\<lparr> rp_id = lit ''database'', rp_kind = File,
       rp_candidates = [\<lparr> rc_base = PackageRoot, rc_path = lit ''share/misc/magic.mgc'' \<rparr>],
       rp_variables = [variable], rp_selection = First, rp_inheritance = Preserve \<rparr>],
       rt_hooks = [] \<rparr> \<rparr>"

lemma sample_descriptor_ok: "fields_ok (sample_descriptor i (lit ''MAGIC''))"
proof -
  have "\<not> runtime_owned (lit ''MAGIC'')" by code_simp
  then show ?thesis
    by (simp add: fields_ok_def sample_descriptor_def SCHEMA_VERSION_def Let_def runtime_ok_def
        path_group_ok_def)
qed

theorem validate_catalog_exact_witness:
  "validate_catalog [sample_descriptor (lit ''a'') (lit ''MAGIC'')]
      [sample_descriptor (lit ''b'') (lit ''MAGIC'')] [lit ''a''] = Inr ()
   \<and> validate_catalog [sample_descriptor (lit ''a'') (lit ''MAGIC'')]
      [sample_descriptor (lit ''b'') (lit ''MAGIC'')] [] \<noteq> Inr ()"
proof -
  have total: "record_total (sample_descriptor i v) = 5" for i v
    by (simp add: record_total_def record_counts_def sample_descriptor_def path_counts_def)
  have ident: "d_id (sample_descriptor i v) = i"
    and vars: "mapped_variables (sample_descriptor i v) = [v]" for i v
    by (simp_all add: mapped_variables_def sample_descriptor_def)
  show ?thesis
    unfolding validate_catalog_exact
    by (simp add: total ident vars sample_descriptor_ok MAX_RECORDS_def)
qed

end
