(* ===== verification/Metadata_Wire.thy ===== *)
theory Metadata_Wire
  imports Rules
begin

text \<open>
  The transport layer of \<open>runtime_metadata.rs\<close>: the record budget, the bounded reader and the
  bounded writer, and what each operation does in terms of byte strings. A reading step that
  succeeds consumed exactly the form of what it returned; a writing step appends exactly the
  form of what it was given, or fails on the size limit. The two meet in the locale
  \<open>wire_codec\<close>, whose lemmas carry a codec for one value to a counted table of them.
\<close>

definition MAX_METADATA_BYTES :: nat where "MAX_METADATA_BYTES = 1024 * 1024"
definition HEADER_BYTES :: nat where "HEADER_BYTES = 16"
definition METADATA_VERSION :: u16 where "METADATA_VERSION = 1"

datatype metadata_error = MetadataError string | FromRule rule_error

section \<open>The budget and the reader\<close>

definition budget_add :: "nat \<Rightarrow> nat \<Rightarrow> metadata_error + nat" where
  "budget_add count budget =
     (case checked_add budget count of
        Some n \<Rightarrow> if n \<le> MAX_RECORDS then Inr n
                  else Inl (MetadataError ''records: exceeds MAX_RECORDS (4096)'')
      | None \<Rightarrow> Inl (MetadataError ''records: exceeds MAX_RECORDS (4096)''))"

definition budget_finish :: "nat \<Rightarrow> nat \<Rightarrow> metadata_error + unit" where
  "budget_finish budget expected =
     (if budget \<noteq> expected
      then Inl (MetadataError ''header record count: inconsistent with aggregate records'')
      else Inr ())"

record reader =
  rd_bytes :: bytes
  rd_offset :: nat

definition rd_take :: "nat \<Rightarrow> reader \<Rightarrow> metadata_error + bytes \<times> reader" where
  "rd_take count r =
     tryE (ok_or (MetadataError ''length: arithmetic overflow'')
             (checked_add (rd_offset r) count)) (\<lambda>e.
     tryE (ok_or (MetadataError ''metadata: truncated field or length exceeds remaining bytes'')
             (get_slice (rd_bytes r) (rd_offset r) e)) (\<lambda>value.
     Inr (value, r\<lparr> rd_offset := e \<rparr>)))"

definition rd_byte :: "reader \<Rightarrow> metadata_error + u8 \<times> reader" where
  "rd_byte r = tryE (rd_take 1 r) (\<lambda>(value, r1). Inr (value ! 0, r1))"

definition rd_u32 :: "reader \<Rightarrow> metadata_error + nat \<times> reader" where
  "rd_u32 r = tryE (rd_take 4 r) (\<lambda>(value, r1). Inr (unat (le_value value :: u32), r1))"

definition rd_count :: "nat \<Rightarrow> reader \<Rightarrow> nat \<Rightarrow> metadata_error + nat \<times> reader \<times> nat" where
  "rd_count minimum_bytes r budget =
     tryE (rd_u32 r) (\<lambda>(count, r1).
     tryE (budget_add count budget) (\<lambda>budget1.
     if count > (length (rd_bytes r1) - rd_offset r1) div minimum_bytes
     then Inl (MetadataError ''record count: exceeds remaining encoded records'')
     else Inr (count, r1, budget1)))"

definition rd_string :: "nat \<Rightarrow> reader \<Rightarrow> metadata_error + bytes \<times> reader" where
  "rd_string maximum r =
     tryE (rd_u32 r) (\<lambda>(count, r1).
     if count = 0 \<or> count > maximum
     then Inl (MetadataError (if maximum = MAX_ID_BYTES then ''name length: requires 1..=128 bytes''
                              else ''path length: requires 1..=4096 bytes''))
     else tryE (rd_take count r1) (\<lambda>(value, r2).
          tryE (ok_or (MetadataError ''string: invalid UTF-8'') (from_utf8 value)) (\<lambda>s.
          Inr (s, r2))))"

definition rd_record :: "u8 \<Rightarrow> reader \<Rightarrow> metadata_error + reader \<times> reader" where
  "rd_record tag r =
     tryE (rd_u32 r) (\<lambda>(count, r1).
     if count = 0 then Inl (MetadataError ''record length: must include a known tag'')
     else
       tryE (rd_take count r1) (\<lambda>(value, r2).
       let rec = \<lparr> rd_bytes = value, rd_offset = 0 \<rparr> in
       tryE (rd_byte rec) (\<lambda>(t, rec1).
       if t \<noteq> tag then Inl (MetadataError ''record: unknown or misplaced variant tag'')
       else Inr (rec1, r2))))"

definition rd_finish :: "reader \<Rightarrow> metadata_error + unit" where
  "rd_finish r =
     (if rd_offset r \<noteq> length (rd_bytes r)
      then Inl (MetadataError ''metadata: trailing bytes in file or record'')
      else Inr ())"

text \<open>
  The shapes every table and record reader has: \<open>in_record tag body\<close> opens a record, reads
  its fields and requires its end; \<open>rd_table\<close> reads a count and then that many elements. The
  first exists without a budget for records that hold no table.
\<close>

definition in_record ::
  "u8 \<Rightarrow> (reader \<Rightarrow> metadata_error + 'a \<times> reader) \<Rightarrow> reader \<Rightarrow> metadata_error + 'a \<times> reader" where
  "in_record tag body r =
     tryE (rd_record tag r) (\<lambda>(rec, r1).
     tryE (body rec) (\<lambda>(x, rec1).
     tryE (rd_finish rec1) (\<lambda>_. Inr (x, r1))))"

definition in_record_budget ::
  "u8 \<Rightarrow> (reader \<Rightarrow> nat \<Rightarrow> metadata_error + 'a \<times> reader \<times> nat)
     \<Rightarrow> reader \<Rightarrow> nat \<Rightarrow> metadata_error + 'a \<times> reader \<times> nat" where
  "in_record_budget tag body r budget =
     tryE (rd_record tag r) (\<lambda>(rec, r1).
     tryE (body rec budget) (\<lambda>(x, rec1, budget1).
     tryE (rd_finish rec1) (\<lambda>_. Inr (x, r1, budget1))))"

fun rd_times ::
  "(reader \<Rightarrow> nat \<Rightarrow> metadata_error + 'a \<times> reader \<times> nat)
     \<Rightarrow> nat \<Rightarrow> reader \<Rightarrow> nat \<Rightarrow> metadata_error + 'a list \<times> reader \<times> nat" where
  "rd_times get 0 r budget = Inr ([], r, budget)"
| "rd_times get (Suc n) r budget =
     tryE (get r budget) (\<lambda>(x, r1, budget1).
     tryE (rd_times get n r1 budget1) (\<lambda>(xs, r2, budget2). Inr (x # xs, r2, budget2)))"

definition rd_table ::
  "nat \<Rightarrow> (reader \<Rightarrow> nat \<Rightarrow> metadata_error + 'a \<times> reader \<times> nat)
     \<Rightarrow> reader \<Rightarrow> nat \<Rightarrow> metadata_error + 'a list \<times> reader \<times> nat" where
  "rd_table minimum_bytes get r budget =
     tryE (rd_count minimum_bytes r budget) (\<lambda>(count, r1, budget1). rd_times get count r1 budget1)"

text \<open>A reading step that leaves the budget alone.\<close>

definition unbudgeted ::
  "(reader \<Rightarrow> metadata_error + 'a \<times> reader) \<Rightarrow> reader \<Rightarrow> nat \<Rightarrow> metadata_error + 'a \<times> reader \<times> nat" where
  "unbudgeted get r budget = tryE (get r) (\<lambda>(x, r1). Inr (x, r1, budget))"

section \<open>What a reading step consumes\<close>

text \<open>The bytes a reader has left, the readers the code builds, and a reader further on.\<close>

definition rest_of :: "reader \<Rightarrow> bytes" where
  "rest_of r = drop (rd_offset r) (rd_bytes r)"

definition reader_ok :: "reader \<Rightarrow> bool" where
  "reader_ok r \<longleftrightarrow> rd_offset r \<le> length (rd_bytes r) \<and> length (rd_bytes r) \<le> MAX_METADATA_BYTES"

definition advance :: "nat \<Rightarrow> reader \<Rightarrow> reader" where
  "advance n r = r\<lparr> rd_offset := rd_offset r + n \<rparr>"

lemma advance_simps [simp]:
  "rest_of (advance n r) = drop n (rest_of r)"
  "advance m (advance n r) = advance (n + m) r"
  "advance 0 r = r"
  by (simp_all add: advance_def rest_of_def add.commute add.assoc)

lemma advance_ok: "reader_ok r \<Longrightarrow> prefix bs (rest_of r) \<Longrightarrow> reader_ok (advance (length bs) r)"
  using prefix_length_le [of bs "rest_of r"] by (auto simp: reader_ok_def advance_def rest_of_def)

lemma prefix_append_drop: "prefix (xs @ ys) zs \<longleftrightarrow> prefix xs zs \<and> prefix ys (drop (length xs) zs)"
  by (auto simp: prefix_def)

text \<open>
  \<open>parses get R\<close>: on every reader within the limits, \<open>get\<close> returns a value just when the next
  bytes are a form of it, and then it has consumed exactly those; \<open>R x bs n\<close> says that \<open>bs\<close> is
  a form of \<open>x\<close> and \<open>n\<close> its cost in records. The budget never passes its limit.
\<close>

definition parses ::
  "(reader \<Rightarrow> nat \<Rightarrow> metadata_error + 'a \<times> reader \<times> nat) \<Rightarrow> ('a \<Rightarrow> bytes \<Rightarrow> nat \<Rightarrow> bool) \<Rightarrow> bool" where
  "parses get R \<longleftrightarrow>
     (\<forall>r b x r' b'. reader_ok r \<longrightarrow> b \<le> MAX_RECORDS \<longrightarrow>
        (get r b = Inr (x, r', b') \<longleftrightarrow>
           (\<exists>bs n. R x bs n \<and> prefix bs (rest_of r) \<and> r' = advance (length bs) r
              \<and> b' = b + n \<and> b' \<le> MAX_RECORDS)))"

definition parses_plain ::
  "(reader \<Rightarrow> 'e + 'a \<times> reader) \<Rightarrow> ('a \<Rightarrow> bytes \<Rightarrow> bool) \<Rightarrow> bool" where
  "parses_plain get R \<longleftrightarrow>
     (\<forall>r x r'. reader_ok r \<longrightarrow>
        (get r = Inr (x, r') \<longleftrightarrow>
           (\<exists>bs. R x bs \<and> prefix bs (rest_of r) \<and> r' = advance (length bs) r)))"

lemma parsesD:
  "parses get R \<Longrightarrow> reader_ok r \<Longrightarrow> b \<le> MAX_RECORDS \<Longrightarrow>
     get r b = Inr (x, r', b') \<longleftrightarrow>
       (\<exists>bs n. R x bs n \<and> prefix bs (rest_of r) \<and> r' = advance (length bs) r
          \<and> b' = b + n \<and> b' \<le> MAX_RECORDS)"
  by (simp add: parses_def)

lemma parses_plainD:
  "parses_plain get R \<Longrightarrow> reader_ok r \<Longrightarrow>
     get r = Inr (x, r') \<longleftrightarrow>
       (\<exists>bs. R x bs \<and> prefix bs (rest_of r) \<and> r' = advance (length bs) r)"
  by (simp add: parses_plain_def)

text \<open>Rules to put steps together.\<close>

lemma parses_return: "parses (\<lambda>r b. Inr (c, r, b)) (\<lambda>x bs n. x = c \<and> bs = [] \<and> n = 0)"
  by (auto simp: parses_def)

lemma parses_plain_return: "parses_plain (\<lambda>r. Inr (c, r)) (\<lambda>x bs. x = c \<and> bs = [])"
  by (auto simp: parses_plain_def)

lemma parses_bind:
  assumes p: "parses p R" and q: "\<And>x. parses (q x) (S x)"
  shows "parses (\<lambda>r b. tryE (p r b) (\<lambda>(x, r1, b1). q x r1 b1))
    (\<lambda>y bs n. \<exists>x bs1 n1 bs2 n2. R x bs1 n1 \<and> S x y bs2 n2 \<and> bs = bs1 @ bs2 \<and> n = n1 + n2)"
  unfolding parses_def
proof (intro allI impI)
  fix r b y r' b' assume ok: "reader_ok r" "b \<le> MAX_RECORDS"
  have q': "q x (advance (length bs) r) c = Inr (y, r', b') \<longleftrightarrow>
      (\<exists>bs2 n2. S x y bs2 n2 \<and> prefix bs2 (drop (length bs) (rest_of r))
         \<and> r' = advance (length bs + length bs2) r \<and> b' = c + n2 \<and> b' \<le> MAX_RECORDS)"
    if "prefix bs (rest_of r)" "c \<le> MAX_RECORDS" for x bs c
    using parsesD [OF q advance_ok [OF ok(1) that(1)] that(2)] by simp
  show "tryE (p r b) (\<lambda>(x, r1, b1). q x r1 b1) = Inr (y, r', b') \<longleftrightarrow>
      (\<exists>bs n. (\<exists>x bs1 n1 bs2 n2. R x bs1 n1 \<and> S x y bs2 n2 \<and> bs = bs1 @ bs2 \<and> n = n1 + n2)
         \<and> prefix bs (rest_of r) \<and> r' = advance (length bs) r \<and> b' = b + n \<and> b' \<le> MAX_RECORDS)"
    (is "?l \<longleftrightarrow> ?r")
  proof
    assume ?l
    then obtain x r1 b1 where "p r b = Inr (x, r1, b1)" and k: "q x r1 b1 = Inr (y, r', b')"
      by (auto simp: tryE_Inr_iff)
    then obtain bs n where f: "R x bs n" "prefix bs (rest_of r)" "r1 = advance (length bs) r"
      "b1 = b + n" "b1 \<le> MAX_RECORDS"
      using parsesD [OF p ok] by auto
    from k q' [OF f(2,5)] obtain bs2 n2 where g: "S x y bs2 n2"
      "prefix bs2 (drop (length bs) (rest_of r))" "r' = advance (length bs + length bs2) r"
      "b' = b1 + n2" "b' \<le> MAX_RECORDS" by (auto simp: f(3))
    have "prefix (bs @ bs2) (rest_of r)" using f g by (simp add: prefix_append_drop)
    moreover have "r' = advance (length (bs @ bs2)) r" "b' = b + (n + n2)" using f g by simp_all
    ultimately show ?r using f(1) g(1,5) by blast
  next
    assume ?r
    then obtain x bs1 n1 bs2 n2 where h: "R x bs1 n1" "S x y bs2 n2"
      "prefix (bs1 @ bs2) (rest_of r)" "r' = advance (length (bs1 @ bs2)) r"
      "b' = b + (n1 + n2)" "b' \<le> MAX_RECORDS" by auto
    then have "prefix bs1 (rest_of r)" "b + n1 \<le> MAX_RECORDS" by (simp_all add: prefix_append_drop)
    then have "p r b = Inr (x, advance (length bs1) r, b + n1)"
      using parsesD [OF p ok] h(1) by blast
    moreover have "q x (advance (length bs1) r) (b + n1) = Inr (y, r', b')"
      using q' [OF \<open>prefix bs1 (rest_of r)\<close> \<open>b + n1 \<le> MAX_RECORDS\<close>] h
      by (auto simp: prefix_append_drop)
    ultimately show ?l by simp
  qed
qed

lemma parses_plain_bind:
  assumes p: "parses_plain p R" and q: "\<And>x. parses_plain (q x) (S x)"
  shows "parses_plain (\<lambda>r. tryE (p r) (\<lambda>(x, r1). q x r1))
    (\<lambda>y bs. \<exists>x bs1 bs2. R x bs1 \<and> S x y bs2 \<and> bs = bs1 @ bs2)"
  unfolding parses_plain_def
proof (intro allI impI)
  fix r y r' assume ok: "reader_ok r"
  have q': "q x (advance (length bs) r) = Inr (y, r') \<longleftrightarrow>
      (\<exists>bs2. S x y bs2 \<and> prefix bs2 (drop (length bs) (rest_of r))
         \<and> r' = advance (length bs + length bs2) r)"
    if "prefix bs (rest_of r)" for x bs
    using parses_plainD [OF q advance_ok [OF ok that]] by simp
  show "tryE (p r) (\<lambda>(x, r1). q x r1) = Inr (y, r') \<longleftrightarrow>
      (\<exists>bs. (\<exists>x bs1 bs2. R x bs1 \<and> S x y bs2 \<and> bs = bs1 @ bs2)
         \<and> prefix bs (rest_of r) \<and> r' = advance (length bs) r)" (is "?l \<longleftrightarrow> ?r")
  proof
    assume ?l
    then obtain x r1 where "p r = Inr (x, r1)" and k: "q x r1 = Inr (y, r')"
      by (auto simp: tryE_Inr_iff)
    then obtain bs where f: "R x bs" "prefix bs (rest_of r)" "r1 = advance (length bs) r"
      using parses_plainD [OF p ok] by auto
    from k q' [OF f(2)] obtain bs2 where g: "S x y bs2"
      "prefix bs2 (drop (length bs) (rest_of r))" "r' = advance (length bs + length bs2) r"
      by (auto simp: f(3))
    have "prefix (bs @ bs2) (rest_of r)" using f g by (simp add: prefix_append_drop)
    moreover have "r' = advance (length (bs @ bs2)) r" using g by simp
    ultimately show ?r using f(1) g(1) by blast
  next
    assume ?r
    then obtain x bs1 bs2 where h: "R x bs1" "S x y bs2"
      "prefix (bs1 @ bs2) (rest_of r)" "r' = advance (length (bs1 @ bs2)) r" by auto
    then have pre: "prefix bs1 (rest_of r)" by (simp add: prefix_append_drop)
    then have "p r = Inr (x, advance (length bs1) r)" using parses_plainD [OF p ok] h(1) by blast
    moreover have "q x (advance (length bs1) r) = Inr (y, r')"
      using q' [OF pre] h by (auto simp: prefix_append_drop)
    ultimately show ?l by simp
  qed
qed

lemma parses_unbudgeted:
  "parses_plain p R \<Longrightarrow> parses (unbudgeted p) (\<lambda>x bs n. R x bs \<and> n = 0)"
  by (auto simp: parses_def unbudgeted_def tryE_Inr_iff dest: parses_plainD)

lemma unbudgeted_bind:
  "tryE (unbudgeted p r b) (\<lambda>(x, r1, b1). k x r1 b1) = tryE (p r) (\<lambda>(x, r1). k x r1 b)"
  by (cases "p r") (auto simp: unbudgeted_def)

lemma parses_bind_plain:
  assumes "parses_plain p R" and "\<And>x. parses (q x) (S x)"
  shows "parses (\<lambda>r b. tryE (p r) (\<lambda>(x, r1). q x r1 b))
    (\<lambda>y bs n. \<exists>x bs1 bs2. R x bs1 \<and> S x y bs2 n \<and> bs = bs1 @ bs2)"
  using parses_bind [OF parses_unbudgeted [OF assms(1)] assms(2), of "\<lambda>x. x"]
  by (simp add: unbudgeted_bind)

lemma parses_weaken: "parses p R \<Longrightarrow> (\<And>x bs n. R x bs n \<longleftrightarrow> S x bs n) \<Longrightarrow> parses p S"
  by (simp add: parses_def)

lemma parses_plain_weaken:
  "parses_plain p R \<Longrightarrow> (\<And>x bs. R x bs \<longleftrightarrow> S x bs) \<Longrightarrow> parses_plain p S"
  by (simp add: parses_plain_def)

text \<open>Checks, conversions and branches between the reading steps.\<close>

lemma parses_check:
  "(\<And>x. parses (q x) (S x)) \<Longrightarrow>
     parses (\<lambda>r b. tryE m (\<lambda>x. q x r b)) (\<lambda>y bs n. \<exists>x. m = Inr x \<and> S x y bs n)"
  by (cases m) (auto simp: parses_def)

lemma parses_plain_check:
  "(\<And>x. parses_plain (q x) (S x)) \<Longrightarrow>
     parses_plain (\<lambda>r. tryE m (\<lambda>x. q x r)) (\<lambda>y bs. \<exists>x. m = Inr x \<and> S x y bs)"
  by (cases m) (auto simp: parses_plain_def)

lemma parses_plain_if:
  "parses_plain p R \<Longrightarrow> parses_plain q S \<Longrightarrow>
     parses_plain (\<lambda>r. if c then p r else q r) (\<lambda>x bs. if c then R x bs else S x bs)"
  by (cases c) simp_all

lemma parses_if:
  "parses p R \<Longrightarrow> parses q S \<Longrightarrow>
     parses (\<lambda>r b. if c then p r b else q r b) (\<lambda>x bs n. if c then R x bs n else S x bs n)"
  by (cases c) simp_all

lemma parses_plain_fail: "parses_plain (\<lambda>r. Inl e) (\<lambda>x bs. False)"
  by (simp add: parses_plain_def)

lemma parses_fail: "parses (\<lambda>r b. Inl e) (\<lambda>x bs n. False)"
  by (simp add: parses_def)

lemma budget_add_Inr [simp]: "budget_add count b = Inr n \<longleftrightarrow> n = b + count \<and> n \<le> MAX_RECORDS"
  by (auto simp: budget_add_def checked_add_def MAX_RECORDS_def usize_max_def)

lemma budget_finish_Inr [simp]: "budget_finish b e = Inr () \<longleftrightarrow> b = e"
  by (simp add: budget_finish_def)

lemma parses_budget:
  assumes "parses q R"
  shows "parses (\<lambda>r b. tryE (budget_add k b) (\<lambda>b1. q r b1)) (\<lambda>x bs n. \<exists>m. R x bs m \<and> n = k + m)"
  unfolding parses_def
proof (intro allI impI)
  fix r b x r' b' assume ok: "reader_ok r" "b \<le> MAX_RECORDS"
  show "tryE (budget_add k b) (\<lambda>b1. q r b1) = Inr (x, r', b') \<longleftrightarrow>
      (\<exists>bs n. (\<exists>m. R x bs m \<and> n = k + m) \<and> prefix bs (rest_of r) \<and> r' = advance (length bs) r
         \<and> b' = b + n \<and> b' \<le> MAX_RECORDS)"
    using parsesD [OF assms ok(1)] by (fastforce simp: tryE_Inr_iff)
qed

section \<open>The primitive readers\<close>

definition le32 :: "nat \<Rightarrow> bytes" where
  "le32 n = le_bytes 4 (of_nat n :: u32)"

lemma length_le32 [simp]: "length (le32 n) = 4"
  by (simp add: le32_def)

lemma take_eq_prefix: "n \<le> length ys \<and> x = take n ys \<longleftrightarrow> prefix x ys \<and> length x = n"
  by (auto simp: take_is_prefix) (auto simp: prefix_def)

lemma parses_take: "parses_plain (rd_take n) (\<lambda>x bs. bs = x \<and> length x = n)"
  unfolding parses_plain_def
proof (intro allI impI)
  fix r x r' assume ok: "reader_ok r"
  have small: "rd_offset r + n \<le> usize_max" if "rd_offset r + n \<le> length (rd_bytes r)"
    using ok that by (simp add: reader_ok_def MAX_METADATA_BYTES_def usize_max_def)
  have "rd_take n r = Inr (x, r') \<longleftrightarrow> rd_offset r + n \<le> length (rd_bytes r)
      \<and> x = take n (rest_of r) \<and> r' = advance n r"
    using ok small
    by (auto simp: rd_take_def tryE_Inr_iff checked_add_Some_iff get_slice_Some_iff slice_def
        rest_of_def advance_def)
  also have "\<dots> \<longleftrightarrow> prefix x (rest_of r) \<and> length x = n \<and> r' = advance n r"
    using ok take_eq_prefix [of n "rest_of r" x] by (auto simp: rest_of_def reader_ok_def)
  finally show "rd_take n r = Inr (x, r') \<longleftrightarrow>
      (\<exists>bs. (bs = x \<and> length x = n) \<and> prefix bs (rest_of r) \<and> r' = advance (length bs) r)"
    by auto
qed

lemma parses_byte: "parses_plain rd_byte (\<lambda>x bs. bs = [x])"
  unfolding rd_byte_def [abs_def]
  by (rule parses_plain_weaken [OF parses_plain_bind [OF parses_take parses_plain_return]])
    (auto simp: length_Suc_conv)

lemma parses_u32: "parses_plain rd_u32 (\<lambda>x bs. x < 2 ^ 32 \<and> bs = le32 x)"
  unfolding rd_u32_def [abs_def]
proof (rule parses_plain_weaken [OF parses_plain_bind [OF parses_take parses_plain_return]])
  fix x bs
  have "(\<exists>v. length v = 4 \<and> x = unat (le_value v :: u32) \<and> bs = v) \<longleftrightarrow> x < 2 ^ 32 \<and> bs = le32 x"
    (is "?l \<longleftrightarrow> ?r")
  proof
    assume ?l
    then show ?r using unat_bounds(3) [of "le_value bs"]
      by (auto simp: le32_def codec_simps)
  next
    assume ?r
    then show ?l
      by (intro exI [of _ bs]) (simp add: le32_def codec_simps unat_of_nat)
  qed
  then show "(\<exists>xa bs1 bs2. (bs1 = xa \<and> length xa = 4) \<and>
      (x = unat (le_value xa :: u32) \<and> bs2 = []) \<and> bs = bs1 @ bs2) \<longleftrightarrow> x < 2 ^ 32 \<and> bs = le32 x"
    by auto
qed

definition string_form :: "bytes \<Rightarrow> bytes" where
  "string_form s = le32 (length s) @ s"

lemma length_string_form [simp]: "length (string_form s) = 4 + length s"
  by (simp add: string_form_def)

lemma parses_string:
  assumes "maximum < 2 ^ 32"
  shows "parses_plain (rd_string maximum)
    (\<lambda>x bs. x \<noteq> [] \<and> length x \<le> maximum \<and> utf8 x \<and> bs = string_form x)"
  unfolding rd_string_def [abs_def]
  by (rule parses_plain_weaken [OF parses_plain_bind [OF parses_u32 parses_plain_if [OF
          parses_plain_fail parses_plain_bind [OF parses_take parses_plain_check [OF
              parses_plain_return]]]]])
    (use assms in \<open>auto simp: string_form_def intro!: exI [of _ "length _"] split: if_splits\<close>)


section \<open>Records and tables\<close>

definition record_form :: "u8 \<Rightarrow> bytes \<Rightarrow> bytes" where
  "record_form tag body = le32 (1 + length body) @ tag # body"

lemma length_record_form [simp]: "length (record_form tag body) = 5 + length body"
  by (simp add: record_form_def)

lemma record_form_inject [simp]: "record_form tag a = record_form tag b \<longleftrightarrow> a = b"
  by (auto simp: record_form_def)

text \<open>Opening a record yields a reader past its tag, on the record's bytes alone.\<close>

lemma rd_record_Inr:
  assumes "reader_ok r"
  shows "rd_record tag r = Inr (rec, r') \<longleftrightarrow>
    (\<exists>body. 1 + length body < 2 ^ 32 \<and> prefix (record_form tag body) (rest_of r)
       \<and> rec = \<lparr> rd_bytes = tag # body, rd_offset = 1 \<rparr>
       \<and> r' = advance (length (record_form tag body)) r)"
proof -
  let ?step = "\<lambda>val. tryE (rd_byte \<lparr> rd_bytes = val, rd_offset = 0 \<rparr>) (\<lambda>(t, rec1).
       if t \<noteq> tag then Inl (MetadataError ''record: unknown or misplaced variant tag'')
       else Inr rec1)"
  have eq: "rd_record tag = (\<lambda>r. tryE (rd_u32 r) (\<lambda>(count, r1).
     if count = 0 then Inl (MetadataError ''record length: must include a known tag'')
     else tryE (rd_take count r1) (\<lambda>(val, r2). tryE (?step val) (\<lambda>rec. Inr (rec, r2)))))"
    by (intro ext) (auto simp: rd_record_def tryE_def Let_def split: sum.splits prod.splits)
  have step: "?step val = Inr rec \<longleftrightarrow>
      (\<exists>body. val = tag # body \<and> rec = \<lparr> rd_bytes = tag # body, rd_offset = 1 \<rparr>)"
    if "val \<noteq> []" "length val \<le> MAX_METADATA_BYTES" for val
  proof -
    have "reader_ok \<lparr> rd_bytes = val, rd_offset = 0 \<rparr>" using that by (simp add: reader_ok_def)
    note b = parses_plainD [OF parses_byte this]
    have "rd_byte \<lparr> rd_bytes = val, rd_offset = 0 \<rparr>
        = Inr (hd val, advance 1 \<lparr> rd_bytes = val, rd_offset = 0 \<rparr>)"
      using that(1) b [of "hd val" "advance 1 \<lparr> rd_bytes = val, rd_offset = 0 \<rparr>"]
      by (cases val) (simp_all add: rest_of_def)
    then show ?thesis using that(1) by (cases val) (auto simp: advance_def)
  qed
  have "parses_plain (rd_record tag) (\<lambda>rec bs. \<exists>val. 0 < length val \<and> length val < 2 ^ 32
      \<and> ?step val = Inr rec \<and> bs = le32 (length val) @ val)"
    unfolding eq
    by (rule parses_plain_weaken [OF parses_plain_bind [OF parses_u32 parses_plain_if [OF
          parses_plain_fail parses_plain_bind [OF parses_take parses_plain_check [OF
              parses_plain_return]]]]])
      (auto split: if_splits)
  note iff = parses_plainD [OF this assms]
  have len: "length val \<le> MAX_METADATA_BYTES" if "prefix (le32 (length val) @ val) (rest_of r)"
    for val
    using prefix_length_le [OF that] assms by (simp add: reader_ok_def rest_of_def, arith)
  show ?thesis
  proof
    assume "rd_record tag r = Inr (rec, r')"
    then obtain val where v: "0 < length val" "length val < 2 ^ 32" "?step val = Inr rec"
      "prefix (le32 (length val) @ val) (rest_of r)"
      "r' = advance (length (le32 (length val) @ val)) r"
      unfolding iff by blast
    with step [of val] len [OF v(4)] obtain body where
      "val = tag # body" "rec = \<lparr> rd_bytes = tag # body, rd_offset = 1 \<rparr>" by auto
    then show "\<exists>body. 1 + length body < 2 ^ 32 \<and> prefix (record_form tag body) (rest_of r)
       \<and> rec = \<lparr> rd_bytes = tag # body, rd_offset = 1 \<rparr>
       \<and> r' = advance (length (record_form tag body)) r"
      using v by (auto simp: record_form_def)
  next
    assume "\<exists>body. 1 + length body < 2 ^ 32 \<and> prefix (record_form tag body) (rest_of r)
       \<and> rec = \<lparr> rd_bytes = tag # body, rd_offset = 1 \<rparr>
       \<and> r' = advance (length (record_form tag body)) r"
    then obtain body where b: "1 + length body < 2 ^ 32"
      "prefix (le32 (length (tag # body)) @ tag # body) (rest_of r)"
      "rec = \<lparr> rd_bytes = tag # body, rd_offset = 1 \<rparr>"
      "r' = advance (length (le32 (length (tag # body)) @ tag # body)) r"
      by (auto simp: record_form_def)
    have "?step (tag # body) = Inr rec" using step [of "tag # body"] len [OF b(2)] b(3) by simp
    then show "rd_record tag r = Inr (rec, r')"
      unfolding iff using b by (intro exI [of _ "le32 (length (tag # body)) @ tag # body"])
        (intro conjI exI [of _ "tag # body"]; simp)
  qed
qed

lemma finished_body:
  assumes "prefix bs body"
  shows "rd_finish (advance (length bs) \<lparr> rd_bytes = tag # body, rd_offset = 1 \<rparr>) = Inr ()
    \<longleftrightarrow> bs = body"
  using assms by (auto simp: rd_finish_def advance_def prefix_def)

lemma record_rest:
  assumes "reader_ok r" and "prefix (record_form tag body) (rest_of r)"
  shows "reader_ok \<lparr> rd_bytes = tag # body, rd_offset = 1 \<rparr>
    \<and> rest_of \<lparr> rd_bytes = tag # body, rd_offset = 1 \<rparr> = body \<and> 1 + length body < 2 ^ 32"
  using assms(1) prefix_length_le [OF assms(2)]
  by (auto simp: reader_ok_def rest_of_def MAX_METADATA_BYTES_def)

lemma parses_in_record:
  assumes "parses_plain inner R"
  shows "parses_plain (in_record tag inner) (\<lambda>x bs. \<exists>body. R x body \<and> bs = record_form tag body)"
  unfolding parses_plain_def
proof (intro allI impI)
  fix r x r' assume ok: "reader_ok r"
  show "in_record tag inner r = Inr (x, r') \<longleftrightarrow>
      (\<exists>bs. (\<exists>body. R x body \<and> bs = record_form tag body) \<and> prefix bs (rest_of r)
         \<and> r' = advance (length bs) r)" (is "_ \<longleftrightarrow> ?r")
  proof
    assume "in_record tag inner r = Inr (x, r')"
    then obtain rec rec1 where "rd_record tag r = Inr (rec, r')" and i: "inner rec = Inr (x, rec1)"
      and fin: "rd_finish rec1 = Inr ()" by (auto simp: in_record_def tryE_Inr_iff)
    then obtain body where b: "prefix (record_form tag body) (rest_of r)"
      "rec = \<lparr> rd_bytes = tag # body, rd_offset = 1 \<rparr>"
      "r' = advance (length (record_form tag body)) r" by (auto simp: rd_record_Inr [OF ok])
    note rest = record_rest [OF ok b(1)]
    from i obtain bs where "R x bs" "prefix bs body" "rec1 = advance (length bs) rec"
      using parses_plainD [OF assms, of rec] rest b(2) by auto
    moreover then have "bs = body" using fin finished_body b(2) by simp
    ultimately show ?r using b by blast
  next
    assume ?r
    then obtain body where b: "R x body" "prefix (record_form tag body) (rest_of r)"
      "r' = advance (length (record_form tag body)) r" by blast
    let ?rec = "\<lparr> rd_bytes = tag # body, rd_offset = 1 \<rparr>"
    note rest = record_rest [OF ok b(2)]
    have "rd_record tag r = Inr (?rec, r')" using b rest by (auto simp: rd_record_Inr [OF ok])
    moreover have "inner ?rec = Inr (x, advance (length body) ?rec)"
      using parses_plainD [OF assms, of ?rec] rest b(1) by auto
    ultimately show "in_record tag inner r = Inr (x, r')"
      using finished_body [of body body tag] by (simp add: in_record_def)
  qed
qed

lemma parses_in_record_budget:
  assumes "parses inner R"
  shows "parses (in_record_budget tag inner)
    (\<lambda>x bs n. \<exists>body. R x body n \<and> bs = record_form tag body)"
  unfolding parses_def
proof (intro allI impI)
  fix r b x r' b' assume ok: "reader_ok r" "b \<le> MAX_RECORDS"
  show "in_record_budget tag inner r b = Inr (x, r', b') \<longleftrightarrow>
      (\<exists>bs n. (\<exists>body. R x body n \<and> bs = record_form tag body) \<and> prefix bs (rest_of r)
         \<and> r' = advance (length bs) r \<and> b' = b + n \<and> b' \<le> MAX_RECORDS)" (is "_ \<longleftrightarrow> ?r")
  proof
    assume "in_record_budget tag inner r b = Inr (x, r', b')"
    then obtain rec rec1 where "rd_record tag r = Inr (rec, r')"
      and i: "inner rec b = Inr (x, rec1, b')"
      and fin: "rd_finish rec1 = Inr ()" by (auto simp: in_record_budget_def tryE_Inr_iff)
    then obtain body where body: "prefix (record_form tag body) (rest_of r)"
      "rec = \<lparr> rd_bytes = tag # body, rd_offset = 1 \<rparr>"
      "r' = advance (length (record_form tag body)) r" by (auto simp: rd_record_Inr [OF ok(1)])
    note rest = record_rest [OF ok(1) body(1)]
    from i obtain bs n where c: "R x bs n" "prefix bs body" "rec1 = advance (length bs) rec"
      "b' = b + n" "b' \<le> MAX_RECORDS"
      using parsesD [OF assms, of rec] rest body(2) ok(2) by auto
    then have "bs = body" using fin finished_body body(2) by simp
    then show ?r using body c by blast
  next
    assume ?r
    then obtain body n where c: "R x body n" "prefix (record_form tag body) (rest_of r)"
      "r' = advance (length (record_form tag body)) r" "b' = b + n" "b' \<le> MAX_RECORDS" by blast
    let ?rec = "\<lparr> rd_bytes = tag # body, rd_offset = 1 \<rparr>"
    note rest = record_rest [OF ok(1) c(2)]
    have "rd_record tag r = Inr (?rec, r')" using c rest by (auto simp: rd_record_Inr [OF ok(1)])
    moreover have "inner ?rec b = Inr (x, advance (length body) ?rec, b')"
      using parsesD [OF assms, of ?rec b x] rest c ok(2) by auto
    ultimately show "in_record_budget tag inner r b = Inr (x, r', b')"
      using finished_body [of body body tag] by (simp add: in_record_budget_def)
  qed
qed


section \<open>The writer\<close>

text \<open>A writer is the bytes it has collected.\<close>

definition wr_bytes :: "bytes \<Rightarrow> bytes \<Rightarrow> metadata_error + bytes" where
  "wr_bytes bs w =
     (case checked_add (length w) (length bs) of
        None \<Rightarrow> Inl (MetadataError ''file: exceeds MAX_METADATA_BYTES (1 MiB)'')
      | Some n \<Rightarrow> if n > MAX_METADATA_BYTES
                  then Inl (MetadataError ''file: exceeds MAX_METADATA_BYTES (1 MiB)'')
                  else Inr (w @ bs))"

definition wr_byte :: "u8 \<Rightarrow> bytes \<Rightarrow> metadata_error + bytes" where
  "wr_byte b w = wr_bytes [b] w"

definition wr_count :: "nat \<Rightarrow> bytes \<Rightarrow> metadata_error + bytes" where
  "wr_count count w =
     (if count < 2 ^ 32 then wr_bytes (le_bytes 4 (of_nat count :: u32)) w
      else Inl (MetadataError ''length: exceeds u32''))"

definition wr_string :: "bytes \<Rightarrow> bytes \<Rightarrow> metadata_error + bytes" where
  "wr_string s w = tryE (wr_count (length s) w) (wr_bytes s)"

definition wr_start_record :: "u8 \<Rightarrow> bytes \<Rightarrow> metadata_error + nat \<times> bytes" where
  "wr_start_record tag w =
     tryE (wr_count 0 w) (\<lambda>w1. tryE (wr_byte tag w1) (\<lambda>w2. Inr (length w, w2)))"

text \<open>\<open>bytes[start..start + 4].copy_from_slice(four)\<close>.\<close>

definition patch4 :: "nat \<Rightarrow> bytes \<Rightarrow> bytes \<Rightarrow> bytes" where
  "patch4 start four w = take start w @ four @ drop (start + 4) w"

definition wr_end_record :: "nat \<Rightarrow> bytes \<Rightarrow> metadata_error + bytes" where
  "wr_end_record start w =
     (let count = length w - start - 4
      in if count < 2 ^ 32 then Inr (patch4 start (le_bytes 4 (of_nat count :: u32)) w)
         else Inl (MetadataError ''record length: exceeds u32''))"

definition wr_new :: "bytes \<Rightarrow> nat \<Rightarrow> metadata_error + bytes" where
  "wr_new magic records =
     tryE (wr_bytes magic []) (\<lambda>w1.
     tryE (wr_bytes (le_bytes 2 METADATA_VERSION) w1) (\<lambda>w2.
     tryE (wr_bytes [0, 0] w2) (\<lambda>w3.
     tryE (wr_count 0 w3) (wr_count records))))"

definition wr_finish :: "bytes \<Rightarrow> metadata_error + bytes" where
  "wr_finish w =
     (let count = length w - HEADER_BYTES
      in if count < 2 ^ 32 then Inr (patch4 8 (le_bytes 4 (of_nat count :: u32)) w)
         else Inl (MetadataError ''payload length: exceeds u32''))"

text \<open>The writing counterparts of the record and table shapes.\<close>

definition out_record ::
  "u8 \<Rightarrow> (bytes \<Rightarrow> metadata_error + bytes) \<Rightarrow> bytes \<Rightarrow> metadata_error + bytes" where
  "out_record tag body w =
     tryE (wr_start_record tag w) (\<lambda>(start, w1). tryE (body w1) (wr_end_record start))"

definition wr_table ::
  "('a \<Rightarrow> bytes \<Rightarrow> metadata_error + bytes) \<Rightarrow> 'a list \<Rightarrow> bytes \<Rightarrow> metadata_error + bytes" where
  "wr_table put xs w = tryE (wr_count (length xs) w) (foldE put xs)"

section \<open>What a writing step appends\<close>

definition writes :: "(bytes \<Rightarrow> 'e + bytes) \<Rightarrow> bytes \<Rightarrow> bool" where
  "writes f out \<longleftrightarrow>
     (\<forall>w w'. length w \<le> MAX_METADATA_BYTES \<longrightarrow>
        (f w = Inr w' \<longleftrightarrow> w' = w @ out \<and> length w' \<le> MAX_METADATA_BYTES))"

lemma writesD:
  "writes f out \<Longrightarrow> length w \<le> MAX_METADATA_BYTES \<Longrightarrow>
     f w = Inr w' \<longleftrightarrow> w' = w @ out \<and> length w' \<le> MAX_METADATA_BYTES"
  by (simp add: writes_def)

lemma writes_bytes: "writes (wr_bytes bs) bs"
  by (auto simp: writes_def wr_bytes_def checked_add_def MAX_METADATA_BYTES_def usize_max_def)

lemma writes_byte: "writes (wr_byte b) [b]"
  unfolding wr_byte_def [abs_def] by (rule writes_bytes)

lemma writes_then:
  assumes "writes f out1" and "writes g out2"
  shows "writes (\<lambda>w. tryE (f w) g) (out1 @ out2)"
  using assms by (auto simp: writes_def tryE_Inr_iff)

lemma writes_nothing: "writes Inr []"
  by (auto simp: writes_def)

lemma writes_count: "n < 2 ^ 32 \<Longrightarrow> writes (wr_count n) (le32 n)"
  using writes_bytes [of "le32 n"] by (simp add: wr_count_def [abs_def] le32_def)

lemma writes_string: "writes (wr_string s) (string_form s)"
proof (cases "length s < 2 ^ 32")
  case True
  then show ?thesis
    unfolding wr_string_def [abs_def] string_form_def
    by (intro writes_then writes_count writes_bytes)
next
  case False
  then show ?thesis
    by (auto simp: writes_def wr_string_def wr_count_def MAX_METADATA_BYTES_def)
qed

lemma writes_foldE:
  "(\<And>x. x \<in> set xs \<Longrightarrow> writes (put x) (form x)) \<Longrightarrow> writes (foldE put xs) (concat (map form xs))"
proof (induction xs)
  case Nil
  then show ?case using writes_nothing by (simp add: foldE.simps(1) [abs_def])
next
  case (Cons x xs)
  then have "writes (\<lambda>w. tryE (put x w) (foldE put xs)) (form x @ concat (map form xs))"
    by (intro writes_then) simp_all
  then show ?case by (simp add: writes_def)
qed

lemma writes_record:
  assumes "writes body out"
  shows "writes (out_record tag body) (record_form tag out)"
  unfolding writes_def
proof (intro allI impI)
  fix w w' :: bytes assume w: "length w \<le> MAX_METADATA_BYTES"
  have "writes (\<lambda>w. tryE (wr_count 0 w) (wr_byte tag)) (le32 0 @ [tag])"
    by (intro writes_then writes_count writes_byte) simp
  note prelude = writesD [OF this w]
  have "wr_start_record tag w = tryE (tryE (wr_count 0 w) (wr_byte tag)) (\<lambda>w2. Inr (length w, w2))"
    by (cases "wr_count 0 w") (simp_all add: wr_start_record_def)
  then have start: "wr_start_record tag w = Inr (start, w1) \<longleftrightarrow>
      start = length w \<and> w1 = w @ le32 0 @ [tag] \<and> length w1 \<le> MAX_METADATA_BYTES" for start w1
    by (auto simp: tryE_Inr_iff [of "tryE _ _"] prelude)
  have patch: "wr_end_record (length w) (w @ le32 0 @ tag # out) = Inr (w @ record_form tag out)"
    if "length (w @ le32 0 @ tag # out) \<le> MAX_METADATA_BYTES"
    using that
    by (simp add: wr_end_record_def patch4_def record_form_def MAX_METADATA_BYTES_def Let_def
        le32_def)
  show "out_record tag body w = Inr w' \<longleftrightarrow>
      w' = w @ record_form tag out \<and> length w' \<le> MAX_METADATA_BYTES"
  proof
    assume "out_record tag body w = Inr w'"
    then obtain start w1 w2 where "wr_start_record tag w = Inr (start, w1)"
      "body w1 = Inr w2" "wr_end_record start w2 = Inr w'"
      by (auto simp: out_record_def tryE_Inr_iff)
    then show "w' = w @ record_form tag out \<and> length w' \<le> MAX_METADATA_BYTES"
      using writesD [OF assms, of w1 w2] patch by (auto simp: start)
  next
    assume a: "w' = w @ record_form tag out \<and> length w' \<le> MAX_METADATA_BYTES"
    then have "wr_start_record tag w = Inr (length w, w @ le32 0 @ [tag])"
      by (auto simp: start)
    moreover have "body (w @ le32 0 @ [tag]) = Inr (w @ le32 0 @ tag # out)"
      using a writesD [OF assms, of "w @ le32 0 @ [tag]"] by auto
    ultimately show "out_record tag body w = Inr w'"
      using a patch by (auto simp: out_record_def)
  qed
qed


section \<open>Files\<close>

text \<open>The sixteen-byte header: its fields, then its checks against the file.\<close>

definition header_fields :: "bytes \<Rightarrow> reader \<Rightarrow> metadata_error + (nat \<times> nat) \<times> reader" where
  "header_fields magic r =
     tryE (rd_take 4 r) (\<lambda>(m, r1).
     if m \<noteq> magic then Inl (MetadataError ''header: invalid metadata magic'')
     else
       tryE (rd_take 2 r1) (\<lambda>(version, r2).
       if le_value version \<noteq> METADATA_VERSION
       then Inl (MetadataError ''header: unsupported metadata version'')
       else
         tryE (rd_take 2 r2) (\<lambda>(flags, r3).
         if flags \<noteq> [0, 0] then Inl (MetadataError ''header: unknown reserved flags'')
         else
           tryE (rd_u32 r3) (\<lambda>(payload, r4).
           tryE (rd_u32 r4) (\<lambda>(records, r5). Inr ((payload, records), r5))))))"

definition metadata_read_header :: "bytes \<Rightarrow> bytes \<Rightarrow> metadata_error + reader \<times> nat" where
  "metadata_read_header bs magic =
     (if length bs > MAX_METADATA_BYTES
      then Inl (MetadataError ''file: exceeds MAX_METADATA_BYTES (1 MiB)'')
      else
        tryE (header_fields magic \<lparr> rd_bytes = bs, rd_offset = 0 \<rparr>) (\<lambda>((payload, records), _).
        if records > MAX_RECORDS
        then Inl (MetadataError ''header: exceeds MAX_RECORDS (4096)'')
        else if payload \<noteq> length bs - HEADER_BYTES
        then Inl (MetadataError ''header payload length: inconsistent with complete file'')
        else Inr (\<lparr> rd_bytes = drop HEADER_BYTES bs, rd_offset = 0 \<rparr>, records)))"

text \<open>A whole file: the header, the payload to its end, and the record count it announced.\<close>

definition in_file ::
  "bytes \<Rightarrow> (reader \<Rightarrow> nat \<Rightarrow> metadata_error + 'a \<times> reader \<times> nat) \<Rightarrow> bytes \<Rightarrow> metadata_error + 'a" where
  "in_file magic body bs =
     tryE (metadata_read_header bs magic) (\<lambda>(r, expected).
     tryE (body r 0) (\<lambda>(x, r1, budget).
     tryE (rd_finish r1) (\<lambda>_.
     tryE (budget_finish budget expected) (\<lambda>_. Inr x))))"

definition out_file ::
  "bytes \<Rightarrow> nat \<Rightarrow> (bytes \<Rightarrow> metadata_error + bytes) \<Rightarrow> metadata_error + bytes" where
  "out_file magic records body = tryE (wr_new magic records) (\<lambda>w. tryE (body w) wr_finish)"

definition file_form :: "bytes \<Rightarrow> nat \<Rightarrow> bytes \<Rightarrow> bytes" where
  "file_form magic n payload =
     magic @ le_bytes 2 METADATA_VERSION @ [0, 0] @ le32 (length payload) @ le32 n @ payload"

lemma parses_header_fields:
  "parses_plain (header_fields magic) (\<lambda>(payload, records) bs. length magic = 4
     \<and> payload < 2 ^ 32 \<and> records < 2 ^ 32
     \<and> bs = magic @ le_bytes 2 METADATA_VERSION @ [0, 0] @ le32 payload @ le32 records)"
proof -
  note steps = parses_plain_bind [OF parses_take parses_plain_if [OF parses_plain_fail
      parses_plain_bind [OF parses_take parses_plain_if [OF parses_plain_fail
      parses_plain_bind [OF parses_take parses_plain_if [OF parses_plain_fail
      parses_plain_bind [OF parses_u32 parses_plain_bind [OF parses_u32 parses_plain_return]]]]]]]]
  have version_width: "8 * 2 \<le> LENGTH(16)" "LENGTH(16) \<le> 8 * 2" by simp_all
  have version: "v = le_bytes 2 METADATA_VERSION"
    if "le_value v = METADATA_VERSION" "length v = 2" for v
    using le_bytes_le_value_eq [OF that(2) version_width(1)] that(1) by simp
  show ?thesis
    unfolding header_fields_def [abs_def]
    by (rule parses_plain_weaken [OF steps])
      (auto split: if_splits simp: codec_simps dest: version,
       force intro: exI [of _ "le_bytes 2 METADATA_VERSION"] simp: codec_simps)
qed

lemma metadata_read_header_Inr:
  assumes "length magic = 4"
  shows "metadata_read_header bs magic = Inr (r, n) \<longleftrightarrow>
    length bs \<le> MAX_METADATA_BYTES \<and> n \<le> MAX_RECORDS
    \<and> (\<exists>payload. bs = file_form magic n payload \<and> r = \<lparr> rd_bytes = payload, rd_offset = 0 \<rparr>)"
proof (cases "length bs \<le> MAX_METADATA_BYTES")
  case True
  let ?r = "\<lparr> rd_bytes = bs, rd_offset = 0 \<rparr>"
  have "reader_ok ?r" using True by (simp add: reader_ok_def)
  note fields = parses_plainD [OF parses_header_fields this]
  have rest: "rest_of ?r = bs" by (simp add: rest_of_def)
  show ?thesis
  proof
    assume "metadata_read_header bs magic = Inr (r, n)"
    then obtain r1 where "header_fields magic ?r = Inr ((length bs - HEADER_BYTES, n), r1)"
      and n: "n \<le> MAX_RECORDS" and r: "r = \<lparr> rd_bytes = drop HEADER_BYTES bs, rd_offset = 0 \<rparr>"
      using True by (auto simp: metadata_read_header_def tryE_Inr_iff)
    then obtain payload where bs: "bs = (magic @ le_bytes 2 METADATA_VERSION @ [0, 0]
        @ le32 (length bs - HEADER_BYTES) @ le32 n) @ payload"
      by (auto simp: fields rest prefix_def)
    have "length bs = HEADER_BYTES + length payload"
      using arg_cong [OF bs, of length] assms by (simp add: HEADER_BYTES_def)
    then have "bs = file_form magic n payload" using bs by (simp add: file_form_def)
    moreover have "drop HEADER_BYTES (file_form magic n payload) = payload"
      using assms by (simp add: file_form_def HEADER_BYTES_def)
    ultimately show "length bs \<le> MAX_METADATA_BYTES \<and> n \<le> MAX_RECORDS
      \<and> (\<exists>payload. bs = file_form magic n payload \<and> r = \<lparr> rd_bytes = payload, rd_offset = 0 \<rparr>)"
      using True n r by auto
  next
    assume "length bs \<le> MAX_METADATA_BYTES \<and> n \<le> MAX_RECORDS
      \<and> (\<exists>payload. bs = file_form magic n payload \<and> r = \<lparr> rd_bytes = payload, rd_offset = 0 \<rparr>)"
    then obtain payload where n: "n \<le> MAX_RECORDS" and bs: "bs = file_form magic n payload"
      and r: "r = \<lparr> rd_bytes = payload, rd_offset = 0 \<rparr>" by blast
    have len: "length bs = HEADER_BYTES + length payload" "drop HEADER_BYTES bs = payload"
      using assms by (simp_all add: bs file_form_def HEADER_BYTES_def)
    have pre: "prefix (magic @ le_bytes 2 METADATA_VERSION @ [0, 0]
        @ le32 (length payload) @ le32 n) (rest_of ?r)"
      unfolding rest by (simp add: bs file_form_def)
    have "length payload \<le> 1048576" "n \<le> 4096"
      using len(1) True n by (simp_all add: MAX_METADATA_BYTES_def MAX_RECORDS_def)
    then have lt: "length payload < 2 ^ 32" "n < 2 ^ 32" by simp_all
    have "\<exists>r1. header_fields magic ?r = Inr ((length payload, n), r1)"
      unfolding fields using assms pre lt by blast
    moreover have "length bs - HEADER_BYTES = length payload" using len(1) by simp
    ultimately show "metadata_read_header bs magic = Inr (r, n)"
      using True n r len(2) by (auto simp: metadata_read_header_def)
  qed
next
  case False
  then show ?thesis by (simp add: metadata_read_header_def)
qed

lemma in_file_Inr:
  assumes "length magic = 4" and "parses body R"
  shows "in_file magic body bs = Inr x \<longleftrightarrow> length bs \<le> MAX_METADATA_BYTES
    \<and> (\<exists>payload n. R x payload n \<and> n \<le> MAX_RECORDS \<and> bs = file_form magic n payload)"
proof -
  have one: "body \<lparr> rd_bytes = payload, rd_offset = 0 \<rparr> 0 = Inr (x, r1, n) \<and> rd_finish r1 = Inr ()
      \<longleftrightarrow> R x payload n \<and> n \<le> MAX_RECORDS \<and> r1 = advance (length payload) \<lparr> rd_bytes = payload, rd_offset = 0 \<rparr>"
    if "length payload \<le> MAX_METADATA_BYTES" for payload r1 n
  proof -
    have ok: "reader_ok \<lparr> rd_bytes = payload, rd_offset = 0 \<rparr>" using that by (simp add: reader_ok_def)
    have "prefix ps payload \<Longrightarrow> rd_finish (advance (length ps) \<lparr> rd_bytes = payload, rd_offset = 0 \<rparr>)
        = Inr () \<longleftrightarrow> ps = payload" for ps
      by (auto simp: rd_finish_def advance_def prefix_def)
    then show ?thesis
      using parsesD [OF assms(2) ok, of 0] by (auto simp: rest_of_def)
  qed
  have len: "length payload \<le> length (file_form magic n payload)" for payload n
    by (simp add: file_form_def)
  show ?thesis
  proof
    assume "in_file magic body bs = Inr x"
    then obtain r n r1 where "metadata_read_header bs magic = Inr (r, n)"
      and b: "body r 0 = Inr (x, r1, n)" "rd_finish r1 = Inr ()"
      by (auto simp: in_file_def tryE_Inr_iff)
    then obtain payload where "length bs \<le> MAX_METADATA_BYTES" "bs = file_form magic n payload"
      "r = \<lparr> rd_bytes = payload, rd_offset = 0 \<rparr>"
      by (auto simp: metadata_read_header_Inr [OF assms(1)])
    then show "length bs \<le> MAX_METADATA_BYTES
      \<and> (\<exists>payload n. R x payload n \<and> n \<le> MAX_RECORDS \<and> bs = file_form magic n payload)"
      using one [of payload r1 n] b len [of payload n] by auto
  next
    assume "length bs \<le> MAX_METADATA_BYTES
      \<and> (\<exists>payload n. R x payload n \<and> n \<le> MAX_RECORDS \<and> bs = file_form magic n payload)"
    then obtain payload n where p: "length bs \<le> MAX_METADATA_BYTES" "R x payload n"
      "n \<le> MAX_RECORDS" "bs = file_form magic n payload" by blast
    let ?r = "\<lparr> rd_bytes = payload, rd_offset = 0 \<rparr>"
    have "metadata_read_header bs magic = Inr (?r, n)"
      using p by (auto simp: metadata_read_header_Inr [OF assms(1)])
    moreover have "body ?r 0 = Inr (x, advance (length payload) ?r, n)
        \<and> rd_finish (advance (length payload) ?r) = Inr ()"
      using one [of payload "advance (length payload) ?r" n] p len [of payload n] by auto
    ultimately show "in_file magic body bs = Inr x" by (simp add: in_file_def budget_finish_def)
  qed
qed

lemma out_file_Inr:
  assumes "length magic = 4" and "n \<le> MAX_RECORDS" and "writes body out"
  shows "out_file magic n body = Inr bs \<longleftrightarrow>
    bs = file_form magic n out \<and> length bs \<le> MAX_METADATA_BYTES"
proof -
  define w0 where "w0 = magic @ le_bytes 2 METADATA_VERSION @ [0, 0] @ le32 0 @ le32 n"
  have n: "n < 2 ^ 32" using assms(2) by (simp add: MAX_RECORDS_def)
  have "writes (\<lambda>w. tryE (wr_bytes magic w) (\<lambda>w1.
     tryE (wr_bytes (le_bytes 2 METADATA_VERSION) w1) (\<lambda>w2.
     tryE (wr_bytes [0, 0] w2) (\<lambda>w3.
     tryE (wr_count 0 w3) (wr_count n))))) w0"
    unfolding w0_def by (intro writes_then writes_bytes writes_count n) simp
  from writesD [OF this, of "[]"]
  have new: "wr_new magic n = Inr w \<longleftrightarrow> w = w0 \<and> length w0 \<le> MAX_METADATA_BYTES" for w
    by (auto simp: wr_new_def)
  have w0: "length w0 = 16" using assms(1) by (simp add: w0_def)
  have small: "length w0 \<le> MAX_METADATA_BYTES" by (simp add: w0 MAX_METADATA_BYTES_def)
  have len: "length (file_form magic n out) = 16 + length out"
    using assms(1) by (simp add: file_form_def)
  have "take 8 w0 = magic @ le_bytes 2 METADATA_VERSION @ [0, 0]" "drop 12 w0 = le32 n"
    using assms(1) by (simp_all add: w0_def)
  then have fin: "wr_finish (w0 @ out) = Inr (file_form magic n out)"
    if "16 + length out \<le> MAX_METADATA_BYTES"
    using that w0
    by (simp add: wr_finish_def patch4_def file_form_def MAX_METADATA_BYTES_def HEADER_BYTES_def
        Let_def le32_def)
  have body: "body w0 = Inr w2 \<longleftrightarrow> w2 = w0 @ out \<and> 16 + length out \<le> MAX_METADATA_BYTES" for w2
    using writesD [OF assms(3) small, of w2] w0 by auto
  show ?thesis
    using len fin small by (auto simp: out_file_def tryE_Inr_iff new body)
qed

text \<open>\<open>xs.windows(2).any(p)\<close>.\<close>

fun any_pair :: "('a \<Rightarrow> 'a \<Rightarrow> bool) \<Rightarrow> 'a list \<Rightarrow> bool" where
  "any_pair p (x # y # zs) \<longleftrightarrow> p x y \<or> any_pair p (y # zs)"
| "any_pair p _ \<longleftrightarrow> False"

lemma any_pair_strict:
  fixes k :: "'a \<Rightarrow> 'b::linorder"
  shows "\<not> any_pair (\<lambda>a b. k a \<ge> k b) xs \<longleftrightarrow> sorted_wrt (<) (map k xs)"
  by (induction "\<lambda>a b. k a \<ge> k b" xs rule: any_pair.induct)
    (auto simp: not_le intro: less_trans)

section \<open>A codec for a value and for a table of them\<close>

text \<open>
  A writing and a reading step for one kind of value, with the form they agree on, the values
  that have one, their cost in records and a lower bound on the length of a form, which the
  reader uses to reject a count the input cannot hold before reading any element.
\<close>

definition table_form :: "('a \<Rightarrow> bytes) \<Rightarrow> 'a list \<Rightarrow> bytes" where
  "table_form form xs = le32 (length xs) @ concat (map form xs)"

locale wire_codec =
  fixes put :: "'a \<Rightarrow> bytes \<Rightarrow> metadata_error + bytes"
    and get :: "reader \<Rightarrow> nat \<Rightarrow> metadata_error + 'a \<times> reader \<times> nat"
    and form :: "'a \<Rightarrow> bytes"
    and wf :: "'a \<Rightarrow> bool"
    and cost :: "'a \<Rightarrow> nat"
    and floor :: nat
  assumes put_writes: "wf x \<Longrightarrow> writes (put x) (form x)"
    and get_parses: "parses get (\<lambda>x bs n. wf x \<and> bs = form x \<and> n = cost x)"
    and form_length: "wf x \<Longrightarrow> floor \<le> length (form x)"
    and floor_pos: "0 < floor"
begin

lemma table_writes:
  assumes "length xs < 2 ^ 32" and "\<forall>x \<in> set xs. wf x"
  shows "writes (wr_table put xs) (table_form form xs)"
  unfolding wr_table_def [abs_def] table_form_def
  by (intro writes_then writes_count writes_foldE put_writes) (use assms in auto)

lemma times_parses:
  "parses (rd_times get n) (\<lambda>xs bs k. length xs = n \<and> (\<forall>x \<in> set xs. wf x)
     \<and> bs = concat (map form xs) \<and> k = (\<Sum>x\<leftarrow>xs. cost x))"
proof (induction n)
  case 0
  have "rd_times get 0 = (\<lambda>r b. Inr ([], r, b))" by (intro ext) simp
  then show ?case by (auto simp: parses_def)
next
  case (Suc n)
  have "parses (\<lambda>r b. tryE (get r b) (\<lambda>(x, r1, b1). tryE (rd_times get n r1 b1)
      (\<lambda>(xs, r2, b2). Inr (x # xs, r2, b2))))
    (\<lambda>xs bs k. length xs = Suc n \<and> (\<forall>x \<in> set xs. wf x)
     \<and> bs = concat (map form xs) \<and> k = (\<Sum>x\<leftarrow>xs. cost x))"
    by (rule parses_weaken [OF parses_bind [OF get_parses parses_bind [OF Suc parses_return]]])
      (auto simp: length_Suc_conv)
  moreover have "rd_times get (Suc n) = (\<lambda>r b. tryE (get r b) (\<lambda>(x, r1, b1).
      tryE (rd_times get n r1 b1) (\<lambda>(xs, r2, b2). Inr (x # xs, r2, b2))))"
    by (intro ext) simp
  ultimately show ?case by simp
qed

lemma forms_length: "\<forall>x \<in> set xs. wf x \<Longrightarrow> length xs * floor \<le> length (concat (map form xs))"
proof (induction xs)
  case (Cons x xs)
  then show ?case using form_length [of x] by simp
qed simp

lemma table_parses:
  "parses (rd_table floor get) (\<lambda>xs bs n. (\<forall>x \<in> set xs. wf x) \<and> length xs < 2 ^ 32
     \<and> bs = table_form form xs \<and> n = length xs + (\<Sum>x\<leftarrow>xs. cost x))"
proof -
  have enough: "rd_count floor r b = Inr (count, r1, b1) \<longleftrightarrow>
      (\<exists>r2. rd_u32 r = Inr (count, r2) \<and> r1 = r2 \<and> budget_add count b = Inr b1
         \<and> count \<le> (length (rd_bytes r1) - rd_offset r1) div floor)" for r b count r1 b1
    by (auto simp: rd_count_def tryE_Inr_iff)
  let ?plain = "\<lambda>r b. tryE (rd_u32 r) (\<lambda>(count, r1). tryE (budget_add count b)
      (\<lambda>b1. rd_times get count r1 b1))"
  have plain: "parses ?plain (\<lambda>xs bs n. (\<forall>x \<in> set xs. wf x) \<and> length xs < 2 ^ 32
     \<and> bs = table_form form xs \<and> n = length xs + (\<Sum>x\<leftarrow>xs. cost x))"
    by (rule parses_weaken [OF parses_bind_plain [OF parses_u32 parses_budget [OF times_parses]]])
      (auto simp: table_form_def)
  have same: "rd_table floor get r b = Inr (xs, r', b') \<longleftrightarrow> ?plain r b = Inr (xs, r', b')"
    if ok: "reader_ok r" "b \<le> MAX_RECORDS" for r b xs r' b'
  proof
    assume "rd_table floor get r b = Inr (xs, r', b')"
    then show "?plain r b = Inr (xs, r', b')"
      by (fastforce simp: rd_table_def tryE_Inr_iff enough)
  next
    assume a: "?plain r b = Inr (xs, r', b')"
    then obtain count r1 b1 where u: "rd_u32 r = Inr (count, r1)" "budget_add count b = Inr b1"
      "rd_times get count r1 b1 = Inr (xs, r', b')" by (auto simp: tryE_Inr_iff)
    from u(1) have ok1: "reader_ok r1"
      using parses_plainD [OF parses_u32 ok(1)] advance_ok [OF ok(1), of "le32 count"] by auto
    from u(2) have "b1 \<le> MAX_RECORDS" by simp
    from parsesD [OF times_parses ok1 this] u(3)
    have xs: "length xs = count" "\<forall>x \<in> set xs. wf x" "prefix (concat (map form xs)) (rest_of r1)"
      by auto
    then have "count * floor \<le> length (rest_of r1)"
      using forms_length [OF xs(2)] prefix_length_le [OF xs(3)] by simp
    then have "count \<le> (length (rd_bytes r1) - rd_offset r1) div floor"
      using floor_pos by (simp add: rest_of_def less_eq_div_iff_mult_less_eq)
    then have "rd_count floor r b = Inr (count, r1, b1)" using u by (simp add: enough)
    then show "rd_table floor get r b = Inr (xs, r', b')" using u(3) by (simp add: rd_table_def)
  qed
  show ?thesis unfolding parses_def using same parsesD [OF plain] by blast
qed

end

end
