(* ===== verification/Metadata.thy ===== *)
theory Metadata
  imports Metadata_Wire
begin

text \<open>
  \<open>runtime_metadata.rs\<close>: the runtime-rule transport (\<open>ORUL\<close>) and the entrypoint-set table
  (\<open>OSET\<close>), their validation, encoders and decoders. Each record type gets its writer, its
  reader and the byte form the two agree on; the two file formats follow from them.
\<close>

section \<open>Set pins\<close>

record set_pin =
  pin_name :: bytes
  pin_hash :: bytes

definition PREPARED_DIR :: bytes where "PREPARED_DIR = lit ''.onelf-prepared''"

definition prepared_dir :: "set_pin \<Rightarrow> bytes" where
  "prepared_dir p = PREPARED_DIR @ [slash] @ pin_name p @ [slash] @ concat (map show_hex2 (pin_hash p))"

definition pin_key :: "set_pin \<Rightarrow> bytes \<times> bytes" where
  "pin_key p = (pin_name p, pin_hash p)"

lemma set_pin_eq [simp]:
  "p = \<lparr> pin_name = n, pin_hash = h \<rparr> \<longleftrightarrow> pin_name p = n \<and> pin_hash p = h"
  by (cases p) auto

lemma pin_key_inject [simp]: "pin_key p = pin_key q \<longleftrightarrow> p = q"
  by (cases p; cases q) (auto simp: pin_key_def)

definition read_id :: "reader \<Rightarrow> metadata_error + bytes \<times> reader" where
  "read_id r =
     tryE (rd_string MAX_ID_BYTES r) (\<lambda>(s, r1).
     tryE (map_err FromRule (rule_id_new s)) (\<lambda>i. Inr (i, r1)))"

definition write_pin :: "u8 \<Rightarrow> set_pin \<Rightarrow> bytes \<Rightarrow> metadata_error + bytes" where
  "write_pin tag p =
     out_record tag (\<lambda>w. tryE (wr_string (pin_name p) w) (wr_bytes (pin_hash p)))"

definition read_pin :: "u8 \<Rightarrow> reader \<Rightarrow> metadata_error + set_pin \<times> reader" where
  "read_pin tag =
     in_record tag (\<lambda>r.
       tryE (read_id r) (\<lambda>(name, r1).
       tryE (rd_take 32 r1) (\<lambda>(hash, r2).
       Inr (\<lparr> pin_name = name, pin_hash = hash \<rparr>, r2))))"

definition pin_form :: "u8 \<Rightarrow> set_pin \<Rightarrow> bytes" where
  "pin_form tag p = record_form tag (string_form (pin_name p) @ pin_hash p)"

definition pin_wf :: "set_pin \<Rightarrow> bool" where
  "pin_wf p \<longleftrightarrow> rule_id_ok (pin_name p) \<and> length (pin_hash p) = 32"

lemma rule_id_ok_string: "rule_id_ok s \<Longrightarrow> s \<noteq> [] \<and> length s \<le> MAX_ID_BYTES \<and> utf8 s"
  using rule_id_ok_bytes rule_id_ok_utf8 by (simp add: rule_id_ok_def)

lemma parses_string_id: "parses_plain (rd_string MAX_ID_BYTES)
    (\<lambda>x bs. x \<noteq> [] \<and> length x \<le> MAX_ID_BYTES \<and> utf8 x \<and> bs = string_form x)"
  by (rule parses_string) (simp add: MAX_ID_BYTES_def)

lemma parses_string_path: "parses_plain (rd_string MAX_PATH_BYTES)
    (\<lambda>x bs. x \<noteq> [] \<and> length x \<le> MAX_PATH_BYTES \<and> utf8 x \<and> bs = string_form x)"
  by (rule parses_string) (simp add: MAX_PATH_BYTES_def)

lemma parses_id: "parses_plain read_id (\<lambda>x bs. rule_id_ok x \<and> bs = string_form x)"
  unfolding read_id_def [abs_def]
  by (rule parses_plain_weaken [OF parses_plain_bind [OF parses_string_id parses_plain_check [OF
          parses_plain_return]]])
    (auto simp: rule_id_ok_string dest: rule_id_ok_string)

lemma parses_pin: "parses_plain (read_pin tag) (\<lambda>x bs. pin_wf x \<and> bs = pin_form tag x)"
  unfolding read_pin_def
  by (rule parses_plain_weaken [OF parses_in_record [OF parses_plain_bind [OF parses_id
          parses_plain_bind [OF parses_take parses_plain_return]]]])
    (auto simp: pin_wf_def pin_form_def)

lemma writes_pin: "writes (write_pin tag p) (pin_form tag p)"
  unfolding write_pin_def pin_form_def
  by (intro writes_record writes_then writes_string writes_bytes)

lemma length_pin_form: "pin_wf p \<Longrightarrow> 42 \<le> length (pin_form tag p)"
  using rule_id_ok_string [of "pin_name p"] by (cases "pin_name p") (auto simp: pin_wf_def pin_form_def)

interpretation pin_wire: wire_codec "write_pin 1" "unbudgeted (read_pin 1)" "pin_form 1" pin_wf
    "\<lambda>_. 0" 42
  by unfold_locales
    (auto simp: writes_pin length_pin_form intro: parses_weaken [OF parses_unbudgeted [OF parses_pin]])

section \<open>Runtime path groups and hooks\<close>

definition kind_tag :: "resource_kind \<Rightarrow> u8" where
  "kind_tag k = (case k of File \<Rightarrow> 1 | Directory \<Rightarrow> 2)"

definition selection_tag :: "path_selection \<Rightarrow> u8" where
  "selection_tag s = (case s of First \<Rightarrow> 1 | All \<Rightarrow> 2 | FirstPerLibraryRoot \<Rightarrow> 3)"

definition inheritance_tag :: "inheritance \<Rightarrow> u8" where
  "inheritance_tag i = (case i of Preserve \<Rightarrow> 1 | Replace \<Rightarrow> 2)"

definition base_tag :: "runtime_base \<Rightarrow> u8" where
  "base_tag b = (case b of PackageRoot \<Rightarrow> 1 | LibraryRoot \<Rightarrow> 2)"

definition hook_tag :: "runtime_hook_id \<Rightarrow> u8" where
  "hook_tag h = (case h of AlsaConfigPathNaturalSort \<Rightarrow> 1 | GdkCacheAbsolutise \<Rightarrow> 2
     | FontconfigGenerate \<Rightarrow> 3 | GioModulePaths \<Rightarrow> 4 | TclTkLibraries \<Rightarrow> 5)"

definition kind_of_tag :: "u8 \<Rightarrow> metadata_error + resource_kind" where
  "kind_of_tag t =
     (if t = 1 then Inr File else if t = 2 then Inr Directory
      else Inl (MetadataError ''runtime path: unknown resource kind tag''))"

definition selection_of_tag :: "u8 \<Rightarrow> metadata_error + path_selection" where
  "selection_of_tag t =
     (if t = 1 then Inr First else if t = 2 then Inr All
      else if t = 3 then Inr FirstPerLibraryRoot
      else Inl (MetadataError ''runtime path: unknown selection tag''))"

definition inheritance_of_tag :: "u8 \<Rightarrow> metadata_error + inheritance" where
  "inheritance_of_tag t =
     (if t = 1 then Inr Preserve else if t = 2 then Inr Replace
      else Inl (MetadataError ''runtime path: unknown inheritance tag''))"

definition base_of_tag :: "u8 \<Rightarrow> metadata_error + runtime_base" where
  "base_of_tag t =
     (if t = 1 then Inr PackageRoot else if t = 2 then Inr LibraryRoot
      else Inl (MetadataError ''runtime candidate: unknown base tag''))"

definition hook_of_tag :: "u8 \<Rightarrow> metadata_error + runtime_hook_id" where
  "hook_of_tag t =
     (if t = 1 then Inr AlsaConfigPathNaturalSort else if t = 2 then Inr GdkCacheAbsolutise
      else if t = 3 then Inr FontconfigGenerate else if t = 4 then Inr GioModulePaths
      else if t = 5 then Inr TclTkLibraries
      else Inl (MetadataError ''runtime hook: unknown registry tag''))"

lemma kind_of_tag_Inr [codec_simps]: "kind_of_tag t = Inr k \<longleftrightarrow> t = kind_tag k"
  by (cases k) (auto simp: kind_of_tag_def kind_tag_def split: if_splits)

lemma selection_of_tag_Inr [codec_simps]: "selection_of_tag t = Inr s \<longleftrightarrow> t = selection_tag s"
  by (cases s) (auto simp: selection_of_tag_def selection_tag_def split: if_splits)

lemma inheritance_of_tag_Inr [codec_simps]: "inheritance_of_tag t = Inr i \<longleftrightarrow> t = inheritance_tag i"
  by (cases i) (auto simp: inheritance_of_tag_def inheritance_tag_def split: if_splits)

lemma base_of_tag_Inr [codec_simps]: "base_of_tag t = Inr b \<longleftrightarrow> t = base_tag b"
  by (cases b) (auto simp: base_of_tag_def base_tag_def split: if_splits)

lemma hook_of_tag_Inr [codec_simps]: "hook_of_tag t = Inr h \<longleftrightarrow> t = hook_tag h"
  by (cases h) (auto simp: hook_of_tag_def hook_tag_def split: if_splits)

definition write_candidate :: "runtime_candidate \<Rightarrow> bytes \<Rightarrow> metadata_error + bytes" where
  "write_candidate c =
     out_record 4 (\<lambda>w. tryE (wr_byte (base_tag (rc_base c)) w) (wr_string (rc_path c)))"

definition read_candidate :: "reader \<Rightarrow> metadata_error + runtime_candidate \<times> reader" where
  "read_candidate =
     in_record 4 (\<lambda>r.
       tryE (rd_byte r) (\<lambda>(t, r1).
       tryE (base_of_tag t) (\<lambda>base.
       tryE (rd_string MAX_PATH_BYTES r1) (\<lambda>(encoded_path, r2).
       tryE (map_err FromRule (relative_path_new encoded_path)) (\<lambda>path.
       if path \<noteq> encoded_path
       then Inl (MetadataError ''runtime candidate: nonnormalized relative path'')
       else Inr (\<lparr> rc_base = base, rc_path = path \<rparr>, r2))))))"

definition read_variable :: "reader \<Rightarrow> metadata_error + bytes \<times> reader" where
  "read_variable r =
     tryE (rd_string MAX_ID_BYTES r) (\<lambda>(s, r1).
     tryE (map_err FromRule (environment_name_new s)) (\<lambda>v. Inr (v, r1)))"

definition candidate_form :: "runtime_candidate \<Rightarrow> bytes" where
  "candidate_form c = record_form 4 (base_tag (rc_base c) # string_form (rc_path c))"

text \<open>A path or name a candidate or alias can hold: validated text.\<close>

definition candidate_wf :: "runtime_candidate \<Rightarrow> bool" where
  "candidate_wf c \<longleftrightarrow> relative_path_ok (rc_path c) \<and> utf8 (rc_path c)"

lemma runtime_candidate_eq [simp]:
  "c = \<lparr> rc_base = b, rc_path = p \<rparr> \<longleftrightarrow> rc_base c = b \<and> rc_path c = p"
  by (cases c) auto

lemma relative_path_ok_string: "relative_path_ok p \<Longrightarrow> p \<noteq> [] \<and> length p \<le> MAX_PATH_BYTES"
  by (simp add: relative_path_ok_def)

lemma parses_candidate: "parses_plain read_candidate (\<lambda>x bs. candidate_wf x \<and> bs = candidate_form x)"
  unfolding read_candidate_def
  by (rule parses_plain_weaken [OF parses_in_record [OF parses_plain_bind [OF parses_byte
          parses_plain_check [OF parses_plain_bind [OF parses_string_path parses_plain_check [OF
              parses_plain_if [OF parses_plain_fail parses_plain_return]]]]]]])
    (auto simp: candidate_wf_def candidate_form_def codec_simps relative_path_ok_string
      relative_path_new_Inr_self dest: relative_path_ok_string split: if_splits)

lemma writes_candidate: "writes (write_candidate c) (candidate_form c)"
  using writes_record [OF writes_then [OF writes_byte writes_string]]
  by (simp add: write_candidate_def candidate_form_def)

lemma parses_variable:
  "parses_plain read_variable (\<lambda>x bs. environment_name_ok x \<and> bs = string_form x)"
  unfolding read_variable_def [abs_def]
  by (rule parses_plain_weaken [OF parses_plain_bind [OF parses_string_id parses_plain_check [OF
          parses_plain_return]]])
    (auto simp: environment_name_ok_ascii environment_name_ok_def [THEN iffD1]
      dest: environment_name_ok_ascii)

lemma length_candidate_form: "candidate_wf c \<Longrightarrow> 11 \<le> length (candidate_form c)"
  using relative_path_ok_string [of "rc_path c"]
  by (cases "rc_path c") (auto simp: candidate_wf_def candidate_form_def)

interpretation candidate_wire: wire_codec write_candidate "unbudgeted read_candidate"
    candidate_form candidate_wf "\<lambda>_. 0" 11
  by unfold_locales
    (auto simp: writes_candidate length_candidate_form
      intro: parses_weaken [OF parses_unbudgeted [OF parses_candidate]])

interpretation variable_wire: wire_codec wr_string "unbudgeted read_variable"
    string_form environment_name_ok "\<lambda>_. 0" 5
  by unfold_locales
    (auto simp: writes_string Suc_le_eq dest: environment_name_ok_ascii
      intro: parses_weaken [OF parses_unbudgeted [OF parses_variable]])

definition write_path :: "runtime_path_group \<Rightarrow> bytes \<Rightarrow> metadata_error + bytes" where
  "write_path p =
     out_record 3 (\<lambda>w.
       tryE (wr_string (rp_id p) w) (\<lambda>w1.
       tryE (wr_byte (kind_tag (rp_kind p)) w1) (\<lambda>w2.
       tryE (wr_byte (selection_tag (rp_selection p)) w2) (\<lambda>w3.
       tryE (wr_byte (inheritance_tag (rp_inheritance p)) w3) (\<lambda>w4.
       tryE (wr_table write_candidate (rp_candidates p) w4) (\<lambda>w5.
       wr_table wr_string (rp_variables p) w5))))))"

definition read_path :: "reader \<Rightarrow> nat \<Rightarrow> metadata_error + runtime_path_group \<times> reader \<times> nat" where
  "read_path =
     in_record_budget 3 (\<lambda>r budget.
       tryE (read_id r) (\<lambda>(i, r1).
       tryE (rd_byte r1) (\<lambda>(k, r2).
       tryE (kind_of_tag k) (\<lambda>kind.
       tryE (rd_byte r2) (\<lambda>(s, r3).
       tryE (selection_of_tag s) (\<lambda>selection.
       tryE (rd_byte r3) (\<lambda>(n, r4).
       tryE (inheritance_of_tag n) (\<lambda>inheritance.
       tryE (rd_table 11 (unbudgeted read_candidate) r4 budget) (\<lambda>(candidates, r5, budget1).
       tryE (rd_table 5 (unbudgeted read_variable) r5 budget1) (\<lambda>(variables, r6, budget2).
       Inr (\<lparr> rp_id = i, rp_kind = kind, rp_candidates = candidates, rp_variables = variables,
              rp_selection = selection, rp_inheritance = inheritance \<rparr>, r6, budget2)))))))))))"

definition path_form :: "runtime_path_group \<Rightarrow> bytes" where
  "path_form p =
     record_form 3
       (string_form (rp_id p) @ [kind_tag (rp_kind p)] @ [selection_tag (rp_selection p)]
        @ [inheritance_tag (rp_inheritance p)] @ table_form candidate_form (rp_candidates p)
        @ table_form string_form (rp_variables p))"

definition path_wf :: "runtime_path_group \<Rightarrow> bool" where
  "path_wf p \<longleftrightarrow> rule_id_ok (rp_id p) \<and> (\<forall>c \<in> set (rp_candidates p). candidate_wf c)
     \<and> (\<forall>v \<in> set (rp_variables p). environment_name_ok v)
     \<and> length (rp_candidates p) < 2 ^ 32 \<and> length (rp_variables p) < 2 ^ 32"

definition path_cost :: "runtime_path_group \<Rightarrow> nat" where
  "path_cost p = length (rp_candidates p) + length (rp_variables p)"

lemma runtime_path_group_eq [simp]:
  "p = \<lparr> rp_id = i, rp_kind = k, rp_candidates = cs, rp_variables = vs, rp_selection = s,
     rp_inheritance = h \<rparr> \<longleftrightarrow> rp_id p = i \<and> rp_kind p = k \<and> rp_candidates p = cs
     \<and> rp_variables p = vs \<and> rp_selection p = s \<and> rp_inheritance p = h"
  by (cases p) auto

lemma parses_path: "parses read_path (\<lambda>x bs n. path_wf x \<and> bs = path_form x \<and> n = path_cost x)"
proof -
  note fields = parses_bind_plain [OF parses_id parses_bind_plain [OF parses_byte parses_check [OF
      parses_bind_plain [OF parses_byte parses_check [OF parses_bind_plain [OF parses_byte
      parses_check [OF parses_bind [OF candidate_wire.table_parses parses_bind [OF
      variable_wire.table_parses parses_return]]]]]]]]]
  show ?thesis unfolding read_path_def
    by (rule parses_weaken [OF parses_in_record_budget [OF fields]])
      (auto simp: path_wf_def path_form_def path_cost_def codec_simps)
qed

lemma writes_path: "path_wf p \<Longrightarrow> writes (write_path p) (path_form p)"
  unfolding write_path_def path_form_def
  by (intro writes_record writes_then writes_string writes_byte candidate_wire.table_writes
      variable_wire.table_writes) (simp_all add: path_wf_def)

lemma length_path_form: "5 \<le> length (path_form p)"
  by (simp add: path_form_def)

interpretation path_wire: wire_codec write_path read_path path_form path_wf path_cost 5
  by unfold_locales (auto simp: writes_path length_path_form parses_path)

definition write_hook :: "runtime_hook_id \<Rightarrow> bytes \<Rightarrow> metadata_error + bytes" where
  "write_hook h = out_record 5 (wr_byte (hook_tag h))"

definition read_hook :: "reader \<Rightarrow> metadata_error + runtime_hook_id \<times> reader" where
  "read_hook =
     in_record 5 (\<lambda>r. tryE (rd_byte r) (\<lambda>(t, r1). tryE (hook_of_tag t) (\<lambda>h. Inr (h, r1))))"

definition hook_form :: "runtime_hook_id \<Rightarrow> bytes" where
  "hook_form h = record_form 5 [hook_tag h]"

lemma parses_hook: "parses_plain read_hook (\<lambda>x bs. bs = hook_form x)"
  unfolding read_hook_def
  by (rule parses_plain_weaken [OF parses_in_record [OF parses_plain_bind [OF parses_byte
          parses_plain_check [OF parses_plain_return]]]])
    (auto simp: hook_form_def codec_simps)

interpretation hook_wire: wire_codec write_hook "unbudgeted read_hook" hook_form "\<lambda>_. True" "\<lambda>_. 0" 6
  by unfold_locales
    (auto simp: write_hook_def hook_form_def writes_record [OF writes_byte]
      intro: parses_weaken [OF parses_unbudgeted [OF parses_hook]])

section \<open>Runtime-rule files\<close>

record rule_record =
  rr_id :: bytes
  rr_binding :: "set_pin option"
  rr_runtime :: runtime_rules

record rule_metadata =
  rules :: "rule_record list"

definition rule_counts :: "rule_record \<Rightarrow> nat list" where
  "rule_counts r =
     [if rr_binding r = None then 0 else 1, length (rt_paths (rr_runtime r)),
      length (rt_hooks (rr_runtime r))] @ path_counts (rt_paths (rr_runtime r))"

definition rules_record_count :: "rule_metadata \<Rightarrow> metadata_error + nat" where
  "rules_record_count m =
     foldE budget_add ([length (rules m)] @ concat (map rule_counts (rules m))) 0"

definition validate_rule_record ::
  "rule_record \<Rightarrow> (bytes \<times> set_pin option) set \<Rightarrow> metadata_error + (bytes \<times> set_pin option) set" where
  "validate_rule_record rule identities =
     (if (rr_id rule, rr_binding rule) \<in> identities
      then Inl (MetadataError ''runtime rules: duplicate scoped descriptor identity'')
      else
        tryE (case rr_binding rule of None \<Rightarrow> Inr ()
              | Some pin \<Rightarrow> tryE (map_err FromRule (set_name (pin_name pin))) (\<lambda>_. Inr ())) (\<lambda>_.
        tryE (map_err FromRule (runtime_validate (rr_runtime rule))) (\<lambda>_.
        Inr (insert (rr_id rule, rr_binding rule) identities))))"

definition rules_validate :: "rule_metadata \<Rightarrow> metadata_error + unit" where
  "rules_validate m =
     tryE (rules_record_count m) (\<lambda>_.
     tryE (foldE validate_rule_record (rules m) {}) (\<lambda>_. Inr ()))"

text \<open>The key the encoder sorts by, in the derived order of the source.\<close>

definition scoped_key :: "rule_record \<Rightarrow> bytes \<times> (bytes \<times> bytes) option" where
  "scoped_key r = (rr_id r, map_option pin_key (rr_binding r))"

definition write_rule :: "rule_record \<Rightarrow> bytes \<Rightarrow> metadata_error + bytes" where
  "write_rule rule =
     out_record 1 (\<lambda>w.
       tryE (wr_string (rr_id rule) w) (\<lambda>w1.
       tryE (wr_byte (if rr_binding rule = None then 0 else 1) w1) (\<lambda>w2.
       tryE ((case rr_binding rule of None \<Rightarrow> Inr | Some pin \<Rightarrow> write_pin 2 pin) w2) (\<lambda>w3.
       tryE (wr_table write_path (rt_paths (rr_runtime rule)) w3) (\<lambda>w4.
       wr_table write_hook (rt_hooks (rr_runtime rule)) w4)))))"

definition rules_encode :: "rule_metadata \<Rightarrow> metadata_error + bytes" where
  "rules_encode m =
     tryE (rules_validate m) (\<lambda>_.
     tryE (rules_record_count m) (\<lambda>n.
     let sorted_rules = sort_key scoped_key (rules m) in
     out_file (lit ''ORUL'') n (wr_table write_rule sorted_rules)))"

text \<open>The binding flag and, when it is set, one record of the budget and the pin.\<close>

definition read_binding :: "reader \<Rightarrow> nat \<Rightarrow> metadata_error + set_pin option \<times> reader \<times> nat" where
  "read_binding r budget =
     tryE (rd_byte r) (\<lambda>(flag, r1).
     if flag = 0 then Inr (None, r1, budget)
     else if flag = 1 then
       tryE (budget_add 1 budget) (\<lambda>budget1.
       tryE (read_pin 2 r1) (\<lambda>(pin, r2). Inr (Some pin, r2, budget1)))
     else Inl (MetadataError ''runtime binding: unknown flag''))"

definition read_rule :: "reader \<Rightarrow> nat \<Rightarrow> metadata_error + rule_record \<times> reader \<times> nat" where
  "read_rule =
     in_record_budget 1 (\<lambda>r budget.
       tryE (read_id r) (\<lambda>(i, r1).
       tryE (read_binding r1 budget) (\<lambda>(binding, r2, budget1).
       tryE (rd_table 5 read_path r2 budget1) (\<lambda>(paths, r3, budget2).
       tryE (rd_table 6 (unbudgeted read_hook) r3 budget2) (\<lambda>(hooks, r4, budget3).
       Inr (\<lparr> rr_id = i, rr_binding = binding,
              rr_runtime = \<lparr> rt_paths = paths, rt_hooks = hooks \<rparr> \<rparr>, r4, budget3))))))"

definition rules_decode :: "bytes \<Rightarrow> metadata_error + rule_metadata" where
  "rules_decode bs =
     tryE (in_file (lit ''ORUL'') (rd_table 5 read_rule) bs) (\<lambda>rs.
     let m = \<lparr> rules = rs \<rparr> in
     tryE (rules_validate m) (\<lambda>_.
     if any_pair (\<lambda>a b. scoped_key a \<ge> scoped_key b) rs
     then Inl (MetadataError ''runtime rules: noncanonical scoped identity order'')
     else Inr m))"

section \<open>What runtime-rule files hold\<close>

definition binding_form :: "set_pin option \<Rightarrow> bytes" where
  "binding_form b = (case b of None \<Rightarrow> [0] | Some pin \<Rightarrow> 1 # pin_form 2 pin)"

definition binding_cost :: "set_pin option \<Rightarrow> nat" where
  "binding_cost b = (if b = None then 0 else 1)"

definition rule_form :: "rule_record \<Rightarrow> bytes" where
  "rule_form r =
     record_form 1
       (string_form (rr_id r) @ binding_form (rr_binding r)
        @ table_form path_form (rt_paths (rr_runtime r))
        @ table_form hook_form (rt_hooks (rr_runtime r)))"

text \<open>
  A record whose text went through the constructors of the source: what the type system
  guarantees of a \<open>RuntimeRuleRecord\<close>, and tables a 32-bit count can describe.
\<close>

definition rule_wf :: "rule_record \<Rightarrow> bool" where
  "rule_wf r \<longleftrightarrow> rule_id_ok (rr_id r) \<and> pred_option pin_wf (rr_binding r)
     \<and> (\<forall>p \<in> set (rt_paths (rr_runtime r)). path_wf p)
     \<and> length (rt_paths (rr_runtime r)) < 2 ^ 32 \<and> length (rt_hooks (rr_runtime r)) < 2 ^ 32"

definition rule_cost :: "rule_record \<Rightarrow> nat" where
  "rule_cost r = binding_cost (rr_binding r) + length (rt_paths (rr_runtime r))
     + (\<Sum>p\<leftarrow>rt_paths (rr_runtime r). path_cost p) + length (rt_hooks (rr_runtime r))"

lemma parses_binding: "parses read_binding
    (\<lambda>x bs n. pred_option pin_wf x \<and> bs = binding_form x \<and> n = binding_cost x)"
proof -
  note steps = parses_bind_plain [OF parses_byte parses_if [OF parses_return
      parses_if [OF parses_budget [OF parses_bind_plain [OF parses_pin parses_return]] parses_fail]]]
  show ?thesis
    unfolding read_binding_def [abs_def]
    by (rule parses_weaken [OF steps])
      (auto simp: binding_form_def binding_cost_def split: if_splits option.splits,
       rule exI [of _ 0], simp)
qed

lemma writes_binding:
  "writes (\<lambda>w. tryE (wr_byte (if b = None then 0 else 1) w)
      (case b of None \<Rightarrow> Inr | Some pin \<Rightarrow> write_pin 2 pin)) (binding_form b)"
  using writes_then [OF writes_byte [of 0] writes_nothing]
    writes_then [OF writes_byte [of 1] writes_pin [of 2]]
  by (cases b) (simp_all add: binding_form_def)

lemma runtime_rules_eq [simp]:
  "t = \<lparr> rt_paths = ps, rt_hooks = hs \<rparr> \<longleftrightarrow> rt_paths t = ps \<and> rt_hooks t = hs"
  by (cases t) auto

lemma rule_record_eq [simp]:
  "r = \<lparr> rr_id = i, rr_binding = b, rr_runtime = t \<rparr> \<longleftrightarrow>
     rr_id r = i \<and> rr_binding r = b \<and> rr_runtime r = t"
  by (cases r) auto

lemma parses_rule: "parses read_rule (\<lambda>x bs n. rule_wf x \<and> bs = rule_form x \<and> n = rule_cost x)"
proof -
  note fields = parses_bind_plain [OF parses_id parses_bind [OF parses_binding
      parses_bind [OF path_wire.table_parses parses_bind [OF hook_wire.table_parses
      parses_return]]]]
  show ?thesis unfolding read_rule_def
    by (rule parses_weaken [OF parses_in_record_budget [OF fields]])
      (auto simp: rule_wf_def rule_form_def rule_cost_def)
qed

lemma tryE_assoc: "tryE (tryE m f) g = tryE m (\<lambda>x. tryE (f x) g)"
  by (cases m) simp_all

lemma writes_rule: "rule_wf r \<Longrightarrow> writes (write_rule r) (rule_form r)"
proof -
  assume wf: "rule_wf r"
  let ?b = "\<lambda>w. tryE (wr_byte (if rr_binding r = None then 0 else 1) w)
      (case rr_binding r of None \<Rightarrow> Inr | Some pin \<Rightarrow> write_pin 2 pin)"
  have "writes (\<lambda>w. tryE (wr_string (rr_id r) w) (\<lambda>w1. tryE (?b w1) (\<lambda>w3.
      tryE (wr_table write_path (rt_paths (rr_runtime r)) w3)
        (wr_table write_hook (rt_hooks (rr_runtime r))))))
    (string_form (rr_id r) @ binding_form (rr_binding r)
      @ table_form path_form (rt_paths (rr_runtime r))
      @ table_form hook_form (rt_hooks (rr_runtime r)))"
    by (intro writes_then writes_string writes_binding path_wire.table_writes
        hook_wire.table_writes) (use wf in \<open>simp_all add: rule_wf_def\<close>)
  then show "writes (write_rule r) (rule_form r)"
    unfolding write_rule_def rule_form_def by (intro writes_record) (simp add: tryE_assoc)
qed

lemma length_rule_form: "5 \<le> length (rule_form r)"
  by (simp add: rule_form_def)

interpretation rule_wire: wire_codec write_rule read_rule rule_form rule_wf rule_cost 5
  by unfold_locales (auto simp: writes_rule parses_rule length_rule_form)

definition rules_total :: "rule_metadata \<Rightarrow> nat" where
  "rules_total m = length (rules m) + (\<Sum>r\<leftarrow>rules m. rule_cost r)"

text \<open>The rules a valid file holds: no scoped identity twice, every rule valid.\<close>

definition rules_ok :: "rule_metadata \<Rightarrow> bool" where
  "rules_ok m \<longleftrightarrow> rules_total m \<le> MAX_RECORDS \<and> distinct (map scoped_key (rules m))
     \<and> (\<forall>r \<in> set (rules m). pred_option (\<lambda>p. dot \<notin> set (pin_name p) \<and> rule_id_ok (pin_name p))
          (rr_binding r) \<and> runtime_ok (rr_runtime r))"

lemma budget_adds:
  "b \<le> MAX_RECORDS \<Longrightarrow> foldE budget_add ns b = Inr n \<longleftrightarrow> n = b + sum_list ns \<and> n \<le> MAX_RECORDS"
  by (induction ns arbitrary: b) (auto simp: tryE_Inr_iff)

lemma sum_path_counts: "sum_list (path_counts ps) = (\<Sum>p\<leftarrow>ps. path_cost p)"
  by (induction ps) (simp_all add: path_counts_def path_cost_def)

lemma sum_rule_counts: "sum_list (rule_counts r) = rule_cost r"
  by (simp add: rule_counts_def rule_cost_def binding_cost_def sum_path_counts)

lemma rules_record_count_Inr:
  "rules_record_count m = Inr n \<longleftrightarrow> n = rules_total m \<and> n \<le> MAX_RECORDS"
proof -
  have "sum_list (concat (map rule_counts rs)) = (\<Sum>r\<leftarrow>rs. rule_cost r)" for rs
    by (induction rs) (simp_all add: sum_rule_counts)
  then show ?thesis
    using budget_adds [of 0 "[length (rules m)] @ concat (map rule_counts (rules m))" n]
    by (simp add: rules_record_count_def rules_total_def)
qed

lemma runtime_validate_Inr:
  "runtime_validate t = Inr () \<longleftrightarrow>
     length (rt_paths t) + length (rt_hooks t) + (\<Sum>p\<leftarrow>rt_paths t. path_cost p) \<le> MAX_RECORDS
     \<and> runtime_ok t"
  using record_budget_adds [of 0 "[length (rt_paths t), length (rt_hooks t)] @ path_counts (rt_paths t)"]
  by (auto simp: runtime_validate_def tryE_Inr_iff sum_path_counts add.assoc
      simp del: foldE.simps)

lemma scoped_key_eq:
  "scoped_key a = scoped_key b \<longleftrightarrow> (rr_id a, rr_binding a) = (rr_id b, rr_binding b)"
  by (cases "rr_binding a"; cases "rr_binding b") (auto simp: scoped_key_def)

lemma distinct_scoped: "distinct (map (\<lambda>r. (rr_id r, rr_binding r)) rs) = distinct (map scoped_key rs)"
  by (induction rs) (auto simp: scoped_key_eq image_iff)

lemma rules_validate_Inr: "rules_validate m = Inr () \<longleftrightarrow> rules_ok m"
proof -
  let ?P = "\<lambda>r. pred_option (\<lambda>p. dot \<notin> set (pin_name p) \<and> rule_id_ok (pin_name p)) (rr_binding r)
      \<and> runtime_validate (rr_runtime r) = Inr ()"
  have "validate_rule_record r s = Inr s' \<longleftrightarrow> ?P r \<and> (rr_id r, rr_binding r) \<notin> s
      \<and> s' = insert (rr_id r, rr_binding r) s" for r s s'
    by (cases "rr_binding r") (auto simp: validate_rule_record_def tryE_Inr_iff)
  note each = foldE_unique [where k = "\<lambda>r. (rr_id r, rr_binding r)", OF this,
      where xs = "rules m" and s = "{}"]
  have small: "length (rt_paths (rr_runtime r)) + length (rt_hooks (rr_runtime r))
      + (\<Sum>p\<leftarrow>rt_paths (rr_runtime r). path_cost p) \<le> MAX_RECORDS"
    if "r \<in> set (rules m)" "rules_total m \<le> MAX_RECORDS" for r
  proof -
    have "rule_cost r \<le> (\<Sum>r\<leftarrow>rules m. rule_cost r)"
      using that(1) by (simp add: member_le_sum_list)
    then show ?thesis using that(2) by (simp add: rules_total_def rule_cost_def)
  qed
  show ?thesis
    using small
    by (auto simp: rules_validate_def tryE_Inr_iff rules_record_count_Inr each rules_ok_def
        runtime_validate_Inr distinct_scoped)
qed

text \<open>A value as its constructors make it, and its records in the order a file has them.\<close>

definition rules_wf :: "rule_metadata \<Rightarrow> bool" where
  "rules_wf m \<longleftrightarrow> (\<forall>r \<in> set (rules m). rule_wf r)"

definition rules_canonical :: "rule_metadata \<Rightarrow> rule_metadata" where
  "rules_canonical m = \<lparr> rules = sort_key scoped_key (rules m) \<rparr>"

definition rules_file :: "rule_metadata \<Rightarrow> bytes" where
  "rules_file m = file_form (lit ''ORUL'') (rules_total m) (table_form rule_form (rules m))"

lemma small_count: "n \<le> MAX_RECORDS \<Longrightarrow> n < 2 ^ 32"
  by (simp add: MAX_RECORDS_def)

lemma rules_decode_Inr:
  "rules_decode bs = Inr m \<longleftrightarrow> rules_wf m \<and> rules_ok m \<and> sorted_wrt (<) (map scoped_key (rules m))
     \<and> bs = rules_file m \<and> length bs \<le> MAX_METADATA_BYTES"
proof -
  have "in_file (lit ''ORUL'') (rd_table 5 read_rule) bs = Inr rs \<longleftrightarrow>
      length bs \<le> MAX_METADATA_BYTES \<and> rules_wf \<lparr> rules = rs \<rparr>
      \<and> rules_total \<lparr> rules = rs \<rparr> \<le> MAX_RECORDS \<and> bs = rules_file \<lparr> rules = rs \<rparr>" for rs
    using in_file_Inr [of "lit ''ORUL''", OF _ rule_wire.table_parses, of bs rs]
      small_count [of "length rs"]
    by (auto simp: rules_wf_def rules_total_def rules_file_def)
  moreover obtain rs where "m = \<lparr> rules = rs \<rparr>" by (cases m) simp
  ultimately show ?thesis
    by (auto simp: rules_decode_def tryE_Inr_iff any_pair_strict rules_validate_Inr Let_def
        rules_ok_def)
qed

lemma rules_encode_Inr:
  assumes "rules_wf m"
  shows "rules_encode m = Inr bs \<longleftrightarrow> rules_ok m \<and> bs = rules_file (rules_canonical m)
    \<and> length bs \<le> MAX_METADATA_BYTES"
proof -
  have total: "rules_total (rules_canonical m) = rules_total m"
    by (simp add: rules_total_def rules_canonical_def)
  have "writes (wr_table write_rule (sort_key scoped_key (rules m)))
      (table_form rule_form (rules (rules_canonical m)))" if "rules_total m \<le> MAX_RECORDS"
    using rule_wire.table_writes [of "sort_key scoped_key (rules m)"] assms
      small_count [of "length (rules m)"] that
    by (simp add: rules_wf_def rules_canonical_def rules_total_def)
  note out = out_file_Inr [of "lit ''ORUL''" "rules_total m", OF _ _ this]
  show ?thesis
    using out
    by (auto simp: rules_encode_def tryE_Inr_iff rules_validate_Inr rules_record_count_Inr Let_def
        rules_file_def total rules_ok_def)
qed

lemma strict_sort_key:
  fixes k :: "'a \<Rightarrow> 'b::linorder"
  shows "distinct (map k xs) \<Longrightarrow> sorted_wrt (<) (map k (sort_key k xs))"
    and "sorted_wrt (<) (map k xs) \<Longrightarrow> sort_key k xs = xs"
proof -
  assume "distinct (map k xs)"
  then have "distinct (map k (sort_key k xs))" by (simp add: distinct_map)
  then show "sorted_wrt (<) (map k (sort_key k xs))" by (simp add: strict_sorted_iff)
next
  assume "sorted_wrt (<) (map k xs)"
  then show "sort_key k xs = xs" by (simp add: sort_key_id_if_sorted strict_sorted_iff)
qed

lemma rules_canonical_ok [simp]:
  "rules_ok (rules_canonical m) = rules_ok m" "rules_wf (rules_canonical m) = rules_wf m"
  by (simp_all add: rules_ok_def rules_wf_def rules_canonical_def rules_total_def distinct_map)

text \<open>
  C3: The runtime-rule format has one spelling per value, in both directions. Bytes the decoder
  accepts are re-encoded byte for byte; and a value the encoder accepts decodes to the same
  records in the canonical order of their scoped identities, each with its own paths,
  candidates, aliases and hooks in the order they were given.
\<close>

theorem rules_transport_roundtrip:
  "(rules_decode bs = Inr m \<longrightarrow> rules_encode m = Inr bs)
   \<and> (rules_wf m \<longrightarrow> rules_encode m = Inr bs \<longrightarrow> rules_decode bs = Inr (rules_canonical m))"
proof -
  have "rules_canonical m = m" if "sorted_wrt (<) (map scoped_key (rules m))"
    using strict_sort_key(2) [OF that] by (simp add: rules_canonical_def)
  moreover have "sorted_wrt (<) (map scoped_key (rules (rules_canonical m)))" if "rules_ok m"
    using that strict_sort_key(1) [of scoped_key "rules m"]
    by (simp add: rules_ok_def rules_canonical_def)
  ultimately show ?thesis by (auto simp: rules_decode_Inr rules_encode_Inr)
qed

section \<open>Entrypoint-set files\<close>

record entrypoint_selection =
  es_name :: bytes
  es_sets :: "bytes list"

record entrypoint_sets =
  es_pins :: "set_pin list"
  es_entrypoints :: "entrypoint_selection list"

definition validate_entrypoint_name :: "bytes \<Rightarrow> metadata_error + unit" where
  "validate_entrypoint_name name =
     (if name = [] \<or> length name > MAX_ID_BYTES \<or> 0 \<in> set name
      then Inl (MetadataError ''entrypoint name: requires 1..=128 UTF-8 bytes without NUL'')
      else Inr ())"

definition sets_record_count :: "entrypoint_sets \<Rightarrow> metadata_error + nat" where
  "sets_record_count m =
     foldE budget_add ([length (es_pins m), length (es_entrypoints m)]
       @ map (\<lambda>e. length (es_sets e)) (es_entrypoints m)) 0"

definition insert_or :: "string \<Rightarrow> 'a \<Rightarrow> 'a set \<Rightarrow> metadata_error + 'a set" where
  "insert_or reason x seen =
     (if x \<in> seen then Inl (MetadataError reason) else Inr (insert x seen))"

definition validate_pin :: "set_pin \<Rightarrow> bytes set \<Rightarrow> metadata_error + bytes set" where
  "validate_pin pin pins =
     tryE (map_err FromRule (set_name (pin_name pin))) (\<lambda>_.
     insert_or ''pin table: duplicate set name or conflicting pins'' (pin_name pin) pins)"

definition validate_reference :: "bytes set \<Rightarrow> bytes \<Rightarrow> bytes set \<Rightarrow> metadata_error + bytes set" where
  "validate_reference pins name selected =
     (if name \<notin> pins then Inl (MetadataError ''selection: unknown declared set name'')
      else insert_or ''selection: duplicate set reference'' name selected)"

definition validate_selection ::
  "bytes set \<Rightarrow> entrypoint_selection \<Rightarrow> bytes set \<Rightarrow> metadata_error + bytes set" where
  "validate_selection pins e names =
     tryE (validate_entrypoint_name (es_name e)) (\<lambda>_.
     tryE (insert_or ''selection table: duplicate entrypoint name'' (es_name e) names) (\<lambda>names'.
     tryE (foldE (validate_reference pins) (es_sets e) {}) (\<lambda>_. Inr names')))"

definition sets_validate :: "entrypoint_sets \<Rightarrow> metadata_error + unit" where
  "sets_validate m =
     tryE (sets_record_count m) (\<lambda>_.
     tryE (foldE validate_pin (es_pins m) {}) (\<lambda>pins.
     tryE (foldE (validate_selection pins) (es_entrypoints m) {}) (\<lambda>_. Inr ())))"

definition validate_manifest_name :: "bytes \<Rightarrow> bytes set \<Rightarrow> metadata_error + bytes set" where
  "validate_manifest_name name expected =
     tryE (validate_entrypoint_name name) (\<lambda>_.
     insert_or ''manifest: duplicate entrypoint name'' name expected)"

definition validate_against ::
  "entrypoint_sets \<Rightarrow> bytes list \<Rightarrow> set_pin list \<Rightarrow> metadata_error + unit" where
  "validate_against m manifest_names actual_pins =
     tryE (sets_validate m) (\<lambda>_.
     if length manifest_names > MAX_RECORDS \<or> length actual_pins > MAX_RECORDS
     then Inl (MetadataError ''external tables: exceeds MAX_RECORDS (4096)'')
     else
       tryE (foldE validate_manifest_name manifest_names {}) (\<lambda>expected_names.
       if es_name ` set (es_entrypoints m) \<noteq> expected_names
       then Inl (MetadataError ''selection table: does not match final manifest entrypoint names'')
       else
         tryE (foldE (\<lambda>p. insert_or ''actual pins: duplicate set name or conflicting pins'' (pin_name p))
                 actual_pins {}) (\<lambda>_.
         if set (es_pins m) \<noteq> set actual_pins
         then Inl (MetadataError ''pin table: does not match actual declared full pins'')
         else Inr ())))"

definition validate_bindings :: "rule_metadata \<Rightarrow> entrypoint_sets \<Rightarrow> metadata_error + unit" where
  "validate_bindings m sets =
     tryE (rules_validate m) (\<lambda>_.
     tryE (sets_validate sets) (\<lambda>_.
     eachE (\<lambda>rule. case rr_binding rule of
              Some pin \<Rightarrow> if pin \<notin> set (es_pins sets)
                then Inl (MetadataError ''runtime binding: unknown set or mismatched full pin'')
                else Inr ()
            | None \<Rightarrow> Inr ()) (rules m)))"

definition write_selection :: "entrypoint_selection \<Rightarrow> bytes \<Rightarrow> metadata_error + bytes" where
  "write_selection e =
     out_record 2 (\<lambda>w. tryE (wr_string (es_name e) w) (wr_table wr_string (sort (es_sets e))))"

definition sets_encode :: "entrypoint_sets \<Rightarrow> metadata_error + bytes" where
  "sets_encode m =
     tryE (sets_validate m) (\<lambda>_.
     tryE (sets_record_count m) (\<lambda>n.
     out_file (lit ''OSET'') n (\<lambda>w.
       tryE (wr_table (write_pin 1) (sort_key pin_name (es_pins m)) w)
         (wr_table write_selection (sort_key es_name (es_entrypoints m))))))"

definition read_selection :: "reader \<Rightarrow> nat \<Rightarrow> metadata_error + entrypoint_selection \<times> reader \<times> nat" where
  "read_selection r budget =
     tryE (in_record_budget 2 (\<lambda>r budget.
             tryE (rd_string MAX_ID_BYTES r) (\<lambda>(name, r1).
             tryE (validate_entrypoint_name name) (\<lambda>_.
             tryE (rd_table 5 (unbudgeted read_id) r1 budget) (\<lambda>(sets, r2, budget1).
             Inr (\<lparr> es_name = name, es_sets = sets \<rparr>, r2, budget1))))) r budget) (\<lambda>(e, r1, budget1).
     if any_pair (\<lambda>a b. a \<ge> b) (es_sets e)
     then Inl (MetadataError ''selection: noncanonical set-name order'')
     else Inr (e, r1, budget1))"

definition sets_decode :: "bytes \<Rightarrow> metadata_error + entrypoint_sets" where
  "sets_decode bs =
     tryE (in_file (lit ''OSET'') (\<lambda>r budget.
             tryE (rd_table 42 (unbudgeted (read_pin 1)) r budget) (\<lambda>(pins, r1, budget1).
             tryE (rd_table 14 read_selection r1 budget1) (\<lambda>(entrypoints, r2, budget2).
             Inr (\<lparr> es_pins = pins, es_entrypoints = entrypoints \<rparr>, r2, budget2)))) bs) (\<lambda>m.
     tryE (sets_validate m) (\<lambda>_.
     if any_pair (\<lambda>a b. pin_name a \<ge> pin_name b) (es_pins m)
       \<or> any_pair (\<lambda>a b. es_name a \<ge> es_name b) (es_entrypoints m)
     then Inl (MetadataError ''selection table: noncanonical name order'')
     else Inr m))"

section \<open>What entrypoint-set files hold\<close>

definition entry_name_ok :: "bytes \<Rightarrow> bool" where
  "entry_name_ok name \<longleftrightarrow> name \<noteq> [] \<and> length name \<le> MAX_ID_BYTES \<and> 0 \<notin> set name"

lemma validate_entrypoint_name_Inr [simp]:
  "validate_entrypoint_name name = Inr () \<longleftrightarrow> entry_name_ok name"
  by (auto simp: validate_entrypoint_name_def entry_name_ok_def)

definition selection_form :: "entrypoint_selection \<Rightarrow> bytes" where
  "selection_form e = record_form 2 (string_form (es_name e) @ table_form string_form (es_sets e))"

definition selection_wf :: "entrypoint_selection \<Rightarrow> bool" where
  "selection_wf e \<longleftrightarrow> entry_name_ok (es_name e) \<and> utf8 (es_name e)
     \<and> (\<forall>s \<in> set (es_sets e). rule_id_ok s) \<and> length (es_sets e) < 2 ^ 32
     \<and> sorted_wrt (<) (es_sets e)"

definition selection_canonical :: "entrypoint_selection \<Rightarrow> entrypoint_selection" where
  "selection_canonical e = e\<lparr> es_sets := sort (es_sets e) \<rparr>"

interpretation id_wire: wire_codec wr_string "unbudgeted read_id" string_form rule_id_ok "\<lambda>_. 0" 5
  by unfold_locales
    (auto simp: writes_string Suc_le_eq dest: rule_id_ok_string
      intro: parses_weaken [OF parses_unbudgeted [OF parses_id]])

lemma entrypoint_selection_eq [simp]:
  "e = \<lparr> es_name = n, es_sets = ss \<rparr> \<longleftrightarrow> es_name e = n \<and> es_sets e = ss"
  by (cases e) auto

lemma strict_pairs: "\<not> any_pair (\<lambda>a b. a \<ge> b) xs \<longleftrightarrow> sorted_wrt (<) (xs :: bytes list)"
  using any_pair_strict [of "\<lambda>x. x" xs] by simp

lemma parses_selection:
  "parses read_selection (\<lambda>x bs n. selection_wf x \<and> bs = selection_form x \<and> n = length (es_sets x))"
proof -
  note fields = parses_bind_plain [OF parses_string_id parses_check [OF parses_bind [OF
      id_wire.table_parses parses_return]]]
  show ?thesis
    unfolding read_selection_def [abs_def]
    by (rule parses_weaken [OF parses_bind [OF parses_in_record_budget [OF fields]
          parses_if [OF parses_fail parses_return]]])
      (auto simp: selection_wf_def selection_form_def strict_pairs entry_name_ok_def
        split: if_splits)
qed

lemma writes_selection:
  "\<forall>s \<in> set (es_sets e). rule_id_ok s \<Longrightarrow> length (es_sets e) < 2 ^ 32 \<Longrightarrow>
     writes (write_selection e) (selection_form (selection_canonical e))"
  unfolding write_selection_def selection_form_def
  by (intro writes_record) (simp add: selection_canonical_def writes_then writes_string
      id_wire.table_writes)

lemma selection_canonical_wf: "selection_wf e \<Longrightarrow> selection_canonical e = e"
  using strict_sort_key(2) [of "\<lambda>x. x" "es_sets e"]
  by (simp add: selection_wf_def selection_canonical_def)

lemma length_selection_form: "selection_wf e \<Longrightarrow> 14 \<le> length (selection_form e)"
  by (cases "es_name e") (auto simp: selection_wf_def entry_name_ok_def selection_form_def table_form_def)

lemma writes_selection_wf: "selection_wf e \<Longrightarrow> writes (write_selection e) (selection_form e)"
  using writes_selection [of e] selection_canonical_wf [of e] by (simp add: selection_wf_def)

interpretation selection_wire: wire_codec write_selection read_selection selection_form selection_wf
    "\<lambda>e. length (es_sets e)" 14
  by unfold_locales (auto simp: parses_selection length_selection_form writes_selection_wf)

definition sets_total :: "entrypoint_sets \<Rightarrow> nat" where
  "sets_total m = length (es_pins m) + length (es_entrypoints m)
     + (\<Sum>e\<leftarrow>es_entrypoints m. length (es_sets e))"

text \<open>A valid table: pins and entrypoints named once, selections of declared pins without repeats.\<close>

definition sets_ok :: "entrypoint_sets \<Rightarrow> bool" where
  "sets_ok m \<longleftrightarrow> sets_total m \<le> MAX_RECORDS
     \<and> (\<forall>p \<in> set (es_pins m). rule_id_ok (pin_name p) \<and> dot \<notin> set (pin_name p))
     \<and> distinct (map pin_name (es_pins m)) \<and> distinct (map es_name (es_entrypoints m))
     \<and> (\<forall>e \<in> set (es_entrypoints m). entry_name_ok (es_name e) \<and> distinct (es_sets e)
          \<and> set (es_sets e) \<subseteq> pin_name ` set (es_pins m))"

lemma insert_or_Inr [simp]: "insert_or reason x s = Inr s' \<longleftrightarrow> x \<notin> s \<and> s' = insert x s"
  by (auto simp: insert_or_def)

lemma sets_record_count_Inr: "sets_record_count m = Inr n \<longleftrightarrow> n = sets_total m \<and> n \<le> MAX_RECORDS"
  using budget_adds [of 0 "[length (es_pins m), length (es_entrypoints m)]
      @ map (\<lambda>e. length (es_sets e)) (es_entrypoints m)" n]
  by (simp add: sets_record_count_def sets_total_def add.assoc)

lemma sets_validate_Inr: "sets_validate m = Inr () \<longleftrightarrow> sets_ok m"
proof -
  have pins: "foldE validate_pin ps {} = Inr s \<longleftrightarrow>
      (\<forall>p \<in> set ps. rule_id_ok (pin_name p) \<and> dot \<notin> set (pin_name p))
      \<and> distinct (map pin_name ps) \<and> s = pin_name ` set ps" for ps s
    using foldE_unique [of validate_pin "\<lambda>p. rule_id_ok (pin_name p) \<and> dot \<notin> set (pin_name p)"
        pin_name ps "{}" s]
    by (auto simp: validate_pin_def tryE_Inr_iff)
  have refs: "(\<exists>s. foldE (validate_reference names) rs {} = Inr s) \<longleftrightarrow>
      distinct rs \<and> set rs \<subseteq> names" for names rs
    using foldE_unique [of "validate_reference names" "\<lambda>r. r \<in> names" "\<lambda>r. r" rs "{}"]
    by (auto simp: validate_reference_def)
  have entries: "(\<exists>s. foldE (validate_selection names) es {} = Inr s) \<longleftrightarrow>
      (\<forall>e \<in> set es. entry_name_ok (es_name e) \<and> distinct (es_sets e) \<and> set (es_sets e) \<subseteq> names)
      \<and> distinct (map es_name es)" for names es
    using foldE_unique [of "validate_selection names" "\<lambda>e. entry_name_ok (es_name e)
        \<and> distinct (es_sets e) \<and> set (es_sets e) \<subseteq> names" es_name es "{}"]
    by (auto simp: validate_selection_def tryE_Inr_iff refs)
  show ?thesis
    by (auto simp: sets_validate_def tryE_Inr_iff sets_record_count_Inr pins entries sets_ok_def)
qed

definition sets_wf :: "entrypoint_sets \<Rightarrow> bool" where
  "sets_wf m \<longleftrightarrow> (\<forall>p \<in> set (es_pins m). pin_wf p)
     \<and> (\<forall>e \<in> set (es_entrypoints m). utf8 (es_name e) \<and> (\<forall>s \<in> set (es_sets e). rule_id_ok s))"

definition sets_canonical :: "entrypoint_sets \<Rightarrow> entrypoint_sets" where
  "sets_canonical m =
     \<lparr> es_pins = sort_key pin_name (es_pins m),
       es_entrypoints = map selection_canonical (sort_key es_name (es_entrypoints m)) \<rparr>"

definition sets_file :: "entrypoint_sets \<Rightarrow> bytes" where
  "sets_file m = file_form (lit ''OSET'') (sets_total m)
     (table_form (pin_form 1) (es_pins m) @ table_form selection_form (es_entrypoints m))"

definition sets_sorted :: "entrypoint_sets \<Rightarrow> bool" where
  "sets_sorted m \<longleftrightarrow> sorted_wrt (<) (map pin_name (es_pins m))
     \<and> sorted_wrt (<) (map es_name (es_entrypoints m))
     \<and> (\<forall>e \<in> set (es_entrypoints m). sorted_wrt (<) (es_sets e))"

lemma entrypoint_sets_eq [simp]:
  "m = \<lparr> es_pins = ps, es_entrypoints = es \<rparr> \<longleftrightarrow> es_pins m = ps \<and> es_entrypoints m = es"
  by (cases m) auto

lemma selection_small:
  "sets_total m \<le> MAX_RECORDS \<Longrightarrow> e \<in> set (es_entrypoints m) \<Longrightarrow> length (es_sets e) < 2 ^ 32"
proof -
  assume "sets_total m \<le> MAX_RECORDS" "e \<in> set (es_entrypoints m)"
  moreover from this(2) have "length (es_sets e) \<le> (\<Sum>e\<leftarrow>es_entrypoints m. length (es_sets e))"
    by (simp add: member_le_sum_list)
  ultimately show ?thesis by (intro small_count) (simp add: sets_total_def)
qed

lemma sets_decode_Inr:
  "sets_decode bs = Inr m \<longleftrightarrow> sets_wf m \<and> sets_ok m \<and> sets_sorted m
     \<and> bs = sets_file m \<and> length bs \<le> MAX_METADATA_BYTES"
proof -
  note both = parses_bind [OF pin_wire.table_parses parses_bind [OF selection_wire.table_parses
      parses_return]]
  have whole: "in_file (lit ''OSET'') (\<lambda>r budget.
             tryE (rd_table 42 (unbudgeted (read_pin 1)) r budget) (\<lambda>(pins, r1, budget1).
             tryE (rd_table 14 read_selection r1 budget1) (\<lambda>(entrypoints, r2, budget2).
             Inr (\<lparr> es_pins = pins, es_entrypoints = entrypoints \<rparr>, r2, budget2)))) bs = Inr m \<longleftrightarrow>
      length bs \<le> MAX_METADATA_BYTES \<and> (\<forall>p \<in> set (es_pins m). pin_wf p)
      \<and> (\<forall>e \<in> set (es_entrypoints m). selection_wf e)
      \<and> length (es_pins m) < 2 ^ 32 \<and> length (es_entrypoints m) < 2 ^ 32
      \<and> sets_total m \<le> MAX_RECORDS \<and> bs = sets_file m"
    by (subst in_file_Inr [OF _ both]) (auto simp: sets_file_def sets_total_def add.assoc)
  have len: "sets_total m \<le> MAX_RECORDS \<Longrightarrow> length (es_pins m) < 2 ^ 32
      \<and> length (es_entrypoints m) < 2 ^ 32"
    using small_count [of "length (es_pins m)"] small_count [of "length (es_entrypoints m)"]
    by (simp add: sets_total_def)
  show ?thesis
    unfolding sets_decode_def tryE_Inr_iff whole
    using len selection_small [of m]
    by (auto simp: sets_validate_Inr any_pair_strict sets_ok_def sets_wf_def sets_sorted_def
        selection_wf_def whole)
qed

lemma sets_encode_Inr:
  assumes "sets_wf m"
  shows "sets_encode m = Inr bs \<longleftrightarrow> sets_ok m \<and> bs = sets_file (sets_canonical m)
    \<and> length bs \<le> MAX_METADATA_BYTES"
proof -
  have total: "sets_total (sets_canonical m) = sets_total m"
    by (simp add: sets_total_def sets_canonical_def selection_canonical_def comp_def)
  let ?es = "sort_key es_name (es_entrypoints m)"
  have "writes (\<lambda>w. tryE (wr_table (write_pin 1) (sort_key pin_name (es_pins m)) w)
         (wr_table write_selection ?es))
      (table_form (pin_form 1) (es_pins (sets_canonical m))
        @ table_form selection_form (es_entrypoints (sets_canonical m)))"
    if t: "sets_total m \<le> MAX_RECORDS"
  proof (intro writes_then)
    show "writes (wr_table (write_pin 1) (sort_key pin_name (es_pins m)))
        (table_form (pin_form 1) (es_pins (sets_canonical m)))"
      using pin_wire.table_writes [of "sort_key pin_name (es_pins m)"] assms t
        small_count [of "length (es_pins m)"]
      by (simp add: sets_wf_def sets_canonical_def sets_total_def)
    have "writes (foldE write_selection ?es)
        (concat (map (\<lambda>e. selection_form (selection_canonical e)) ?es))"
      by (rule writes_foldE, rule writes_selection)
        (use assms selection_small [OF t] in \<open>auto simp: sets_wf_def\<close>)
    moreover have "length ?es < 2 ^ 32"
      using t by (intro small_count) (simp add: sets_total_def)
    ultimately show "writes (wr_table write_selection ?es)
        (table_form selection_form (es_entrypoints (sets_canonical m)))"
      unfolding wr_table_def [abs_def] table_form_def
      by (simp add: sets_canonical_def comp_def writes_then writes_count)
  qed
  note out = out_file_Inr [of "lit ''OSET''" "sets_total m", OF _ _ this]
  show ?thesis
    using out
    by (auto simp: sets_encode_def tryE_Inr_iff sets_validate_Inr sets_record_count_Inr
        sets_file_def total sets_ok_def)
qed


lemma selection_canonical_fields [simp]:
  "es_name (selection_canonical e) = es_name e" "set (es_sets (selection_canonical e)) = set (es_sets e)"
  "distinct (es_sets (selection_canonical e)) = distinct (es_sets e)"
  "length (es_sets (selection_canonical e)) = length (es_sets e)"
  by (simp_all add: selection_canonical_def)

lemma sets_canonical_ok [simp]:
  "sets_ok (sets_canonical m) = sets_ok m" "sets_wf m \<Longrightarrow> sets_wf (sets_canonical m)"
  by (auto simp: sets_ok_def sets_wf_def sets_canonical_def sets_total_def distinct_map comp_def)

lemma sets_canonical_sorted: "sets_ok m \<Longrightarrow> sets_sorted (sets_canonical m)"
proof -
  assume ok: "sets_ok m"
  have "sorted_wrt (<) (es_sets (selection_canonical e))" if "e \<in> set (es_entrypoints m)" for e
    using ok that strict_sort_key(1) [of "\<lambda>x. x" "es_sets e"]
    by (simp add: sets_ok_def selection_canonical_def)
  then show ?thesis
    using ok strict_sort_key(1) [of pin_name "es_pins m"]
      strict_sort_key(1) [of es_name "es_entrypoints m"]
    by (simp add: sets_sorted_def sets_ok_def sets_canonical_def comp_def)
qed

lemma sets_sorted_canonical: "sets_sorted m \<Longrightarrow> sets_canonical m = m"
proof -
  assume s: "sets_sorted m"
  have "selection_canonical e = e" if "e \<in> set (es_entrypoints m)" for e
    using s that strict_sort_key(2) [of "\<lambda>x. x" "es_sets e"]
    by (simp add: sets_sorted_def selection_canonical_def)
  then show ?thesis
    using s strict_sort_key(2) [of pin_name "es_pins m"]
      strict_sort_key(2) [of es_name "es_entrypoints m"]
    by (simp add: sets_sorted_def sets_canonical_def map_idI)
qed

text \<open>
  C6: The entrypoint-set format has one spelling per table: bytes the decoder accepts are
  re-encoded byte for byte, and a table the encoder accepts decodes to itself with pins,
  entrypoints and each selection's references in name order.
\<close>

theorem sets_transport_roundtrip:
  "(sets_decode bs = Inr m \<longrightarrow> sets_encode m = Inr bs)
   \<and> (sets_wf m \<longrightarrow> sets_encode m = Inr bs \<longrightarrow> sets_decode bs = Inr (sets_canonical m))"
  by (auto simp: sets_decode_Inr sets_encode_Inr sets_sorted_canonical sets_canonical_sorted)

text \<open>
  C14: A selection table matches a manifest and its declared pins exactly when it is valid, its
  entrypoint names are the manifest's, each once, and its pins are the declared pins, each name
  once, with the same hash; the order of neither table matters.
\<close>

theorem validate_against_exact:
  "validate_against m names pins = Inr () \<longleftrightarrow>
     sets_ok m \<and> length names \<le> MAX_RECORDS \<and> length pins \<le> MAX_RECORDS
     \<and> (\<forall>n \<in> set names. entry_name_ok n) \<and> distinct names
     \<and> set names = es_name ` set (es_entrypoints m)
     \<and> distinct (map pin_name pins) \<and> set pins = set (es_pins m)"
proof -
  have ns: "foldE validate_manifest_name names {} = Inr s \<longleftrightarrow>
      (\<forall>n \<in> set names. entry_name_ok n) \<and> distinct names \<and> s = set names" for s
    using foldE_unique [of validate_manifest_name entry_name_ok "\<lambda>n. n" names "{}" s]
    by (auto simp: validate_manifest_name_def tryE_Inr_iff)
  have ps: "(\<exists>s. foldE (\<lambda>p. insert_or reason (pin_name p)) pins {} = Inr s) \<longleftrightarrow>
      distinct (map pin_name pins)" for reason
    using foldE_unique [of "\<lambda>p. insert_or reason (pin_name p)" "\<lambda>_. True" pin_name pins "{}"]
    by auto
  show ?thesis
    by (auto simp: validate_against_def tryE_Inr_iff sets_validate_Inr ns ps not_less)
qed

lemma validate_bindings_Inr:
  "validate_bindings m sets = Inr () \<longleftrightarrow> rules_ok m \<and> sets_ok sets
     \<and> (\<forall>r \<in> set (rules m). \<forall>pin. rr_binding r = Some pin \<longrightarrow> pin \<in> set (es_pins sets))"
  by (auto simp: validate_bindings_def tryE_Inr_iff rules_validate_Inr sets_validate_Inr
      split: option.splits)

text \<open>
  No two pins share a prepared directory: the path below the package root names the set and
  its full digest, so distinct pins of valid set names have distinct directories, and the
  directory is a plain path of three components inside the package.
\<close>

theorem prepared_dir_injective:
  assumes "pin_wf p" and "pin_wf q" and "prepared_dir p = prepared_dir q"
  shows "p = q"
proof -
  have hex: "length (concat (map show_hex2 h)) = 2 * length h" for h
    by (induction h) (simp_all add: show_hex2_def)
  have "slash \<notin> set (pin_name p)" "slash \<notin> set (pin_name q)"
    using assms rule_id_ok_bytes by (auto simp: pin_wf_def)
  moreover have "pin_name p @ slash # concat (map show_hex2 (pin_hash p))
      = pin_name q @ slash # concat (map show_hex2 (pin_hash q))"
    using assms(3) by (simp add: prepared_dir_def)
  ultimately have n: "pin_name p = pin_name q"
    and h: "concat (map show_hex2 (pin_hash p)) = concat (map show_hex2 (pin_hash q))"
    by (metis option.inject prod.inject split_once_append)+
  have "concat (map show_hex2 a) = concat (map show_hex2 b) \<Longrightarrow> a = b" for a b
  proof (induction a arbitrary: b)
    case Nil
    then show ?case by (cases b) (simp_all add: show_hex2_def)
  next
    case (Cons x a)
    then obtain y b' where "b = y # b'" by (cases b) (simp_all add: show_hex2_def)
    moreover have "length (show_hex2 x) = length (show_hex2 y)" by (simp add: show_hex2_def)
    ultimately show ?case using Cons by (auto dest: append_eq_append_conv [THEN iffD1, rotated])
  qed
  then show ?thesis using n h by (cases p; cases q) auto
qed

section \<open>A bound rule and a selection of its set\<close>

definition sample_pin :: set_pin where
  "sample_pin = \<lparr> pin_name = lit ''gpu'', pin_hash = replicate 32 0xAB \<rparr>"

definition sample_rules :: rule_metadata where
  "sample_rules = \<lparr> rules = [\<lparr> rr_id = lit ''fontconfig'', rr_binding = Some sample_pin,
     rr_runtime = \<lparr> rt_paths = [], rt_hooks = [FontconfigGenerate] \<rparr> \<rparr>] \<rparr>"

definition sample_sets :: entrypoint_sets where
  "sample_sets = \<lparr> es_pins = [sample_pin],
     es_entrypoints = [\<lparr> es_name = lit ''run'', es_sets = [lit ''gpu''] \<rparr>,
                       \<lparr> es_name = lit ''cli'', es_sets = [] \<rparr>] \<rparr>"

lemma sample_names: "rule_id_ok (lit ''gpu'')" "rule_id_ok (lit ''fontconfig'')"
  "dot \<notin> set (lit ''gpu'')" "utf8 (lit ''run'')" "utf8 (lit ''cli'')"
  "entry_name_ok (lit ''run'')" "entry_name_ok (lit ''cli'')"
  by code_simp+

lemma sample_pin_wf: "pin_wf sample_pin"
  by (simp add: pin_wf_def sample_pin_def sample_names)

lemma sample_rules_ok: "rules_wf sample_rules" "rules_ok sample_rules"
  by (simp_all add: rules_wf_def sample_rules_def rule_wf_def sample_names sample_pin_wf rules_ok_def
      rules_total_def rule_cost_def binding_cost_def runtime_ok_def MAX_RECORDS_def)
    (simp add: sample_pin_def sample_names)

lemma sample_sets_ok: "sets_wf sample_sets" "sets_ok sample_sets"
  by (simp_all add: sets_wf_def sample_sets_def sample_names sample_pin_wf sets_ok_def
      sets_total_def MAX_RECORDS_def)
    (simp add: sample_pin_def sample_names)

theorem rules_transport_roundtrip_witness:
  "rules_decode (rules_file sample_rules) = Inr sample_rules
   \<and> rules_encode sample_rules = Inr (rules_file sample_rules)"
proof -
  have c: "rules_canonical sample_rules = sample_rules"
    by (simp add: rules_canonical_def sample_rules_def)
  have "length (rules_file sample_rules) \<le> MAX_METADATA_BYTES"
    by (simp add: rules_file_def file_form_def table_form_def sample_rules_def rule_form_def
        binding_form_def pin_form_def hook_form_def sample_pin_def MAX_METADATA_BYTES_def)
  then have "rules_encode sample_rules = Inr (rules_file sample_rules)"
    by (simp add: rules_encode_Inr sample_rules_ok c)
  with rules_transport_roundtrip [of "rules_file sample_rules" sample_rules] show ?thesis
    by (simp add: c sample_rules_ok)
qed

theorem sets_transport_roundtrip_witness:
  "sets_decode (sets_file (sets_canonical sample_sets)) = Inr (sets_canonical sample_sets)"
proof -
  have "length (sets_file (sets_canonical sample_sets)) \<le> MAX_METADATA_BYTES"
    by (simp add: sets_file_def file_form_def table_form_def sample_sets_def selection_form_def
        pin_form_def sample_pin_def MAX_METADATA_BYTES_def sets_canonical_def
        selection_canonical_def)
  then have "sets_encode sample_sets = Inr (sets_file (sets_canonical sample_sets))"
    by (simp add: sets_encode_Inr sample_sets_ok)
  with sets_transport_roundtrip [of "sets_file (sets_canonical sample_sets)" sample_sets]
  show ?thesis by (simp add: sample_sets_ok)
qed

theorem validate_against_exact_witness:
  "validate_against sample_sets [lit ''cli'', lit ''run''] [sample_pin] = Inr ()
   \<and> validate_against sample_sets [lit ''cli''] [sample_pin] \<noteq> Inr ()"
proof -
  have "length [lit ''cli'', lit ''run''] \<le> MAX_RECORDS" "length [sample_pin] \<le> MAX_RECORDS"
    by (simp_all add: MAX_RECORDS_def)
  then show ?thesis
    unfolding validate_against_exact
    by (auto simp: sample_sets_ok sample_names) (auto simp: sample_sets_def)
qed

theorem prepared_dir_injective_witness:
  "prepared_dir (sample_pin\<lparr> pin_hash := replicate 32 1 \<rparr>) \<noteq> prepared_dir sample_pin"
proof
  assume eq: "prepared_dir (sample_pin\<lparr> pin_hash := replicate 32 1 \<rparr>) = prepared_dir sample_pin"
  have "pin_wf (sample_pin\<lparr> pin_hash := replicate 32 1 \<rparr>)"
    using sample_pin_wf by (simp add: pin_wf_def)
  from prepared_dir_injective [OF this sample_pin_wf eq] show False
    by (simp add: sample_pin_def)
qed

end
