(* ===== verification/Elf_Note.thy ===== *)
theory Elf_Note
  imports Strings Bitflags
begin

text \<open>
  \<open>elf.rs\<close>: the bounds-checked walk over the program headers of an ELF image, the interpreter
  slot, and the capability note a runtime carries: its encoder, the scan that finds it, and the
  decision whether a probed runtime is enough. Offsets are 64-bit, so converting one to
  \<open>usize\<close> keeps its value.
\<close>

section \<open>Program headers\<close>

record phdr =
  p_type :: u32
  p_offset :: u64
  p_filesz :: u64

definition u16_at :: "bytes \<Rightarrow> nat \<Rightarrow> u16 option" where
  "u16_at data at = map_option le_value (get_slice data at (at + 2))"

definition u32_at :: "bytes \<Rightarrow> nat \<Rightarrow> u32 option" where
  "u32_at data at = map_option le_value (get_slice data at (at + 4))"

definition u64_at :: "bytes \<Rightarrow> nat \<Rightarrow> u64 option" where
  "u64_at data at = map_option le_value (get_slice data at (at + 8))"

definition ELF_MAGIC :: bytes where
  "ELF_MAGIC = 0x7F # lit ''ELF''"

definition phdr_table :: "bytes \<Rightarrow> (u8 \<times> nat \<times> nat \<times> nat) option" where
  "phdr_table data =
     (if length data < 64 \<or> slice 0 4 data \<noteq> ELF_MAGIC then None
      else
        let cls = data ! 4 in
        if cls = 2 then
          bind_opt (u64_at data 32) (\<lambda>phoff. bind_opt (u16_at data 54) (\<lambda>phentsize.
          bind_opt (u16_at data 56) (\<lambda>phnum.
          Some (cls, unat phoff, unat phentsize, unat phnum))))
        else if cls = 1 then
          bind_opt (u32_at data 28) (\<lambda>phoff. bind_opt (u16_at data 42) (\<lambda>phentsize.
          bind_opt (u16_at data 44) (\<lambda>phnum.
          Some (cls, unat phoff, unat phentsize, unat phnum))))
        else None)"

definition read_phdr :: "bytes \<Rightarrow> u8 \<Rightarrow> nat \<Rightarrow> phdr option" where
  "read_phdr data cls off =
     (if cls = 2 then
        bind_opt (u32_at data off) (\<lambda>t. bind_opt (u64_at data (off + 8)) (\<lambda>o1.
        bind_opt (u64_at data (off + 32)) (\<lambda>sz.
        Some \<lparr> p_type = t, p_offset = o1, p_filesz = sz \<rparr>)))
      else if cls = 1 then
        bind_opt (u32_at data off) (\<lambda>t. bind_opt (u32_at data (off + 4)) (\<lambda>o1.
        bind_opt (u32_at data (off + 16)) (\<lambda>sz.
        Some \<lparr> p_type = t, p_offset = ucast o1, p_filesz = ucast sz \<rparr>)))
      else None)"

text \<open>The loop of \<open>each_phdr\<close> from entry \<open>i\<close> with the given number of entries left.\<close>

primrec phdrs_from :: "bytes \<Rightarrow> u8 \<Rightarrow> nat \<Rightarrow> nat \<Rightarrow> nat \<Rightarrow> nat \<Rightarrow> phdr list" where
  "phdrs_from data cls phoff phentsize i 0 = []"
| "phdrs_from data cls phoff phentsize i (Suc n) =
     let_else (checked_mul i phentsize) [] (\<lambda>step.
     let_else (checked_add phoff step) [] (\<lambda>off.
     let_else (checked_add off phentsize) [] (\<lambda>e.
     if e > length data then []
     else
       let_else (read_phdr data cls off) [] (\<lambda>ph.
       ph # phdrs_from data cls phoff phentsize (Suc i) n))))"

text \<open>The headers \<open>each_phdr\<close> visits, in order.\<close>

definition each_phdr :: "bytes \<Rightarrow> phdr list" where
  "each_phdr data =
     let_else (phdr_table data) [] (\<lambda>(cls, phoff, phentsize, phnum).
     if phentsize < (if cls = 2 then 56 else 32) then []
     else phdrs_from data cls phoff phentsize 0 phnum)"

definition PT_INTERP :: u32 where "PT_INTERP = 3"
definition PT_NOTE :: u32 where "PT_NOTE = 4"

definition pt_interp_slot :: "bytes \<Rightarrow> (nat \<times> nat) option" where
  "pt_interp_slot data =
     foldl (\<lambda>found ph.
              if found = None \<and> p_type ph = PT_INTERP
              then Some (unat (p_offset ph), unat (p_filesz ph)) else found)
       None (each_phdr data)"

text \<open>
  \<open>read_interp\<close> on the bytes of the file at the path: its first 8 KB hold the headers, and the
  string is read at its own offset.
\<close>

definition MAX_INTERP :: nat where "MAX_INTERP = 4096"

definition read_interp :: "bytes \<Rightarrow> bytes option" where
  "read_interp file =
     (let head = take 8192 file in
      bind_opt (pt_interp_slot head) (\<lambda>(offset, sz).
      if sz = 0 \<or> sz > MAX_INTERP then None
      else
        bind_opt (checked_add offset sz) (\<lambda>e.
        if e > length file then None
        else
          bind_opt (case get_slice head offset e of
                      Some s \<Rightarrow> Some s
                    | None \<Rightarrow> get_slice file offset e) (\<lambda>bs.
          from_utf8 (takeWhile (\<lambda>b. b \<noteq> 0) bs)))))"

section \<open>Capabilities and the note\<close>

definition NOTE_NAME :: bytes where "NOTE_NAME = lit ''ONELF''"
definition NOTE_TYPE :: u32 where "NOTE_TYPE = 1"
definition RUNTIME_METADATA_VERSION :: u16 where "RUNTIME_METADATA_VERSION = 1"
definition CAPABILITY_NOTE_BYTES :: nat where "CAPABILITY_NOTE_BYTES = 32"
definition NOTE_DESC_MAGIC :: bytes where "NOTE_DESC_MAGIC = lit ''OCAP''"
definition NOTE_DESC_BYTES :: nat where "NOTE_DESC_BYTES = 12"

definition SELECTION_VIEW :: u32 where "SELECTION_VIEW = 1"
definition STORE_IMPORT :: u32 where "STORE_IMPORT = 2"

definition ALL_KNOWN :: u32 where
  "ALL_KNOWN = flags_union SELECTION_VIEW STORE_IMPORT"

definition from_bits :: "u32 \<Rightarrow> u32 option" where
  "from_bits bits = (if bits AND NOT ALL_KNOWN \<noteq> 0 then None else Some bits)"

definition flags_difference :: "u32 \<Rightarrow> u32 \<Rightarrow> u32" where
  "flags_difference a b = a AND NOT b"

definition capabilities_display :: "u32 \<Rightarrow> bytes" where
  "capabilities_display c =
     (if c = 0 then lit ''(none)''
      else join_with 0x2B (map snd (filter (\<lambda>(flag, name). flags_contains c flag)
             [(SELECTION_VIEW, lit ''selection-view''), (STORE_IMPORT, lit ''store-import'')])))"

text \<open>A diagnostic is bounded to 768 characters; the ones built here are ASCII.\<close>

datatype note_error = NoteError bytes

definition note_error_new :: "bytes \<Rightarrow> note_error" where
  "note_error_new reason = NoteError (take 768 reason)"

datatype runtime_note =
    Present u16 u32
  | Absent
  | Incompatible note_error

record requirements =
  rq_metadata_version :: u16
  rq_capabilities :: u32

definition requirements_NONE :: requirements where
  "requirements_NONE = \<lparr> rq_metadata_version = 0, rq_capabilities = 0 \<rparr>"

definition requirements_metadata :: "u16 \<Rightarrow> requirements" where
  "requirements_metadata version = \<lparr> rq_metadata_version = version, rq_capabilities = 0 \<rparr>"

definition requirements_is_none :: "requirements \<Rightarrow> bool" where
  "requirements_is_none r \<longleftrightarrow> rq_metadata_version r = 0 \<and> rq_capabilities r = 0"

text \<open>
  The encoder fills a zeroed buffer of 32 bytes field by field; the fields are adjacent but for
  the three padding bytes after the name and the two reserved bytes after the version.
\<close>

definition encode_capability_note :: "u16 \<Rightarrow> u32 \<Rightarrow> bytes" where
  "encode_capability_note metadata_version capabilities =
     le_bytes 4 (of_nat (length NOTE_NAME + 1) :: u32) @ le_bytes 4 (of_nat NOTE_DESC_BYTES :: u32)
     @ le_bytes 4 NOTE_TYPE @ NOTE_NAME @ replicate 3 0 @ NOTE_DESC_MAGIC
     @ le_bytes 2 metadata_version @ replicate 2 0 @ le_bytes 4 capabilities"

definition decode_note_desc :: "bytes \<Rightarrow> note_error + u16 \<times> u32" where
  "decode_note_desc desc =
     (if length desc \<noteq> NOTE_DESC_BYTES
      then Inl (note_error_new (lit ''capability note description is '' @ show_nat (length desc)
                  @ lit '' bytes, expected '' @ show_nat NOTE_DESC_BYTES))
      else if slice 0 4 desc \<noteq> NOTE_DESC_MAGIC
      then Inl (note_error_new (lit ''capability note description has an unknown magic''))
      else
        let metadata_version = (le_value [desc ! 4, desc ! 5] :: u16);
            reserved = (le_value [desc ! 6, desc ! 7] :: u16);
            bits = (le_value [desc ! 8, desc ! 9, desc ! 10, desc ! 11] :: u32)
        in if metadata_version = 0
           then Inl (note_error_new (lit ''capability note advertises metadata version 0''))
           else if reserved \<noteq> 0
           then Inl (note_error_new (lit ''capability note reserved field is not zero''))
           else case from_bits bits of
                  None \<Rightarrow> Inl (note_error_new (lit ''capability note advertises unknown features beyond ''
                            @ capabilities_display ALL_KNOWN))
                | Some capabilities \<Rightarrow> Inr (metadata_version, capabilities))"

text \<open>What the scan makes of a vendor signature at \<open>candidate\<close>: the description is tried at both
  padded name offsets, and the first rejection is kept.\<close>

definition desc_attempt :: "bytes \<Rightarrow> nat \<Rightarrow> nat \<Rightarrow> (note_error + u16 \<times> u32) option" where
  "desc_attempt data seg_end desc_pos =
     (if desc_pos + NOTE_DESC_BYTES > seg_end then None
      else Some (decode_note_desc (slice desc_pos (desc_pos + NOTE_DESC_BYTES) data)))"

definition read_desc :: "bytes \<Rightarrow> nat \<Rightarrow> nat \<Rightarrow> runtime_note" where
  "read_desc data seg_end candidate =
     (case desc_attempt data seg_end (candidate + 20) of
        Some (Inr (v, c)) \<Rightarrow> Present v c
      | first \<Rightarrow>
          (case desc_attempt data seg_end (candidate + 24) of
             Some (Inr (v, c)) \<Rightarrow> Present v c
           | second \<Rightarrow>
               Incompatible
                 (case first of Some (Inl e) \<Rightarrow> e
                  | _ \<Rightarrow> (case second of Some (Inl e) \<Rightarrow> e
                         | _ \<Rightarrow> note_error_new (lit ''capability note description is truncated'')))))"

definition vendor_mismatch :: "bytes \<Rightarrow> nat \<Rightarrow> nat \<Rightarrow> u32 \<Rightarrow> u32 \<Rightarrow> bool" where
  "vendor_mismatch data seg_end candidate namesz ntype \<longleftrightarrow>
     unat namesz \<noteq> length NOTE_NAME + 1 \<or> ntype \<noteq> NOTE_TYPE
     \<or> candidate + 12 + length NOTE_NAME + 1 > seg_end
     \<or> slice (candidate + 12) (candidate + 12 + length NOTE_NAME) data \<noteq> NOTE_NAME
     \<or> data ! (candidate + 12 + length NOTE_NAME) \<noteq> 0"

function scan_from :: "bytes \<Rightarrow> nat \<Rightarrow> nat \<Rightarrow> runtime_note" where
  "scan_from data seg_end pos =
     (if pos + 12 \<le> seg_end then
        (case (u32_at data pos, u32_at data (pos + 4), u32_at data (pos + 8)) of
           (Some namesz, Some descsz, Some ntype) \<Rightarrow>
             if vendor_mismatch data seg_end pos namesz ntype then scan_from data seg_end (pos + 4)
             else if unat descsz \<noteq> NOTE_DESC_BYTES
             then Incompatible (note_error_new (lit ''capability note declares a ''
                    @ show_nat (unat descsz) @ lit ''-byte description, expected ''
                    @ show_nat NOTE_DESC_BYTES))
             else read_desc data seg_end pos
         | _ \<Rightarrow> Absent)
      else Absent)"
  by pat_completeness auto
termination by (relation "measure (\<lambda>(data, seg_end, pos). seg_end - pos)") auto

declare scan_from.simps [simp del]

definition scan_note_segment :: "bytes \<Rightarrow> runtime_note \<Rightarrow> phdr \<Rightarrow> runtime_note" where
  "scan_note_segment data state ph =
     (if state \<noteq> Absent then state
      else
        let start = unat (p_offset ph) in
        if start > length data then state
        else
          let_else (checked_add start (unat (p_filesz ph))) state (\<lambda>seg_end.
          if seg_end > length data then state else scan_from data seg_end start))"

definition probe_capability_note :: "bytes \<Rightarrow> note_error + runtime_note" where
  "probe_capability_note data =
     (case phdr_table data of
        None \<Rightarrow> Inl (note_error_new (lit ''runtime is not a little-endian 32- or 64-bit ELF object''))
      | Some (cls, _, _, _) \<Rightarrow>
          if cls \<noteq> 1 \<and> cls \<noteq> 2
          then Inl (note_error_new (lit ''runtime ELF has unknown class '' @ show_nat (unat cls)))
          else Inr (foldl (\<lambda>state ph. if p_type ph = PT_NOTE then scan_note_segment data state ph
                             else state) Absent (each_phdr data)))"

definition check_runtime_support :: "runtime_note \<Rightarrow> requirements \<Rightarrow> note_error + unit" where
  "check_runtime_support note required =
     (case note of
        Incompatible e \<Rightarrow> Inl e
      | Present metadata_version capabilities \<Rightarrow>
          if metadata_version < rq_metadata_version required
          then Inl (note_error_new (lit ''runtime advertises payload metadata version ''
                 @ show_nat (unat metadata_version) @ lit '', packaging requires ''
                 @ show_nat (unat (rq_metadata_version required))))
          else
            let missing = flags_difference (rq_capabilities required) capabilities in
            if missing \<noteq> 0
            then Inl (note_error_new (lit ''runtime does not advertise the required ''
                   @ capabilities_display missing @ lit '' support''))
            else Inr ()
      | Absent \<Rightarrow>
          if requirements_is_none required then Inr ()
          else
            let version = (if rq_metadata_version required \<noteq> 0
                  then lit ''metadata version '' @ show_nat (unat (rq_metadata_version required))
                  else []);
                what = (if rq_capabilities required \<noteq> 0
                  then version @ (if version \<noteq> [] then lit '' and '' else [])
                       @ capabilities_display (rq_capabilities required)
                  else version)
            in Inl (note_error_new
                 (lit ''runtime carries no capability note, so it does not support '' @ what)))"

section \<open>The description\<close>

definition note_desc :: "u16 \<Rightarrow> u32 \<Rightarrow> bytes" where
  "note_desc v c = NOTE_DESC_MAGIC @ le_bytes 2 v @ replicate 2 0 @ le_bytes 4 c"

lemma encode_note_length: "length (encode_capability_note v c) = CAPABILITY_NOTE_BYTES"
  by (simp add: encode_capability_note_def NOTE_NAME_def NOTE_DESC_MAGIC_def
      CAPABILITY_NOTE_BYTES_def)

lemma encode_note_desc: "slice 20 32 (encode_capability_note v c) = note_desc v c"
  by (simp add: encode_capability_note_def note_desc_def slice_def NOTE_NAME_def NOTE_DESC_MAGIC_def)

lemma from_bits_Some_iff: "from_bits b = Some c \<longleftrightarrow> c = b \<and> b AND NOT ALL_KNOWN = 0"
  by (auto simp: from_bits_def)

lemma le_bytes_slice_2: "slice 4 6 (m @ le_bytes 2 v @ r) = le_bytes 2 v" if "length m = 4"
  using that by (simp add: slice_def)

lemma twelve: "length xs = 12 \<Longrightarrow> xs = slice 0 4 xs @ [xs ! 4, xs ! 5] @ [xs ! 6, xs ! 7]
    @ [xs ! 8, xs ! 9, xs ! 10, xs ! 11]"
proof -
  assume l: "length xs = 12"
  have "[xs ! 4, xs ! 5] = slice 4 6 xs" "[xs ! 6, xs ! 7] = slice 6 8 xs"
    "[xs ! 8, xs ! 9, xs ! 10, xs ! 11] = slice 8 12 xs"
    using l by (auto intro!: nth_equalityI simp: nth_slice nth_Cons' less_Suc_eq numeral_eq_Suc)
  then show ?thesis using l by (simp add: slice_join slice_0_all)
qed

lemma decode_note_desc_Inr:
  "decode_note_desc desc = Inr (v, c) \<longleftrightarrow>
     v \<noteq> 0 \<and> c AND NOT ALL_KNOWN = 0 \<and> desc = note_desc v c"
proof
  assume d: "decode_note_desc desc = Inr (v, c)"
  then have len: "length desc = 12" and m: "slice 0 4 desc = NOTE_DESC_MAGIC"
    and v: "v = le_value [desc ! 4, desc ! 5]" "v \<noteq> 0"
    and r: "(le_value [desc ! 6, desc ! 7] :: u16) = 0"
    and c: "c = le_value [desc ! 8, desc ! 9, desc ! 10, desc ! 11]" "c AND NOT ALL_KNOWN = 0"
    by (auto simp: decode_note_desc_def NOTE_DESC_BYTES_def Let_def from_bits_Some_iff
        split: if_splits option.splits)
  have "[desc ! 6, desc ! 7] = le_bytes 2 (0 :: u16)"
    using le_bytes_le_value_eq [of "[desc ! 6, desc ! 7]" 2, where 'a = 16] r by simp
  also have "\<dots> = replicate 2 0" by (simp add: le_bytes_eval eval_nat_numeral)
  finally have r': "[desc ! 6, desc ! 7] = replicate 2 0" .
  have "desc = slice 0 4 desc @ [desc ! 4, desc ! 5] @ [desc ! 6, desc ! 7]
      @ [desc ! 8, desc ! 9, desc ! 10, desc ! 11]" by (rule twelve [OF len])
  also have "[desc ! 4, desc ! 5] = le_bytes 2 v"
    unfolding v(1) by (rule le_bytes_le_value_eq [symmetric]) simp_all
  also have "[desc ! 8, desc ! 9, desc ! 10, desc ! 11] = le_bytes 4 c"
    unfolding c(1) by (rule le_bytes_le_value_eq [symmetric]) simp_all
  also have "slice 0 4 desc @ le_bytes 2 v @ [desc ! 6, desc ! 7] @ le_bytes 4 c = note_desc v c"
    unfolding note_desc_def m r' by simp
  finally show "v \<noteq> 0 \<and> c AND NOT ALL_KNOWN = 0 \<and> desc = note_desc v c" using v c by simp
next
  assume a: "v \<noteq> 0 \<and> c AND NOT ALL_KNOWN = 0 \<and> desc = note_desc v c"
  have "note_desc v c = NOTE_DESC_MAGIC @ [ucast v, ucast (drop_bit 8 v), 0, 0, ucast c,
      ucast (drop_bit 8 c), ucast (drop_bit 16 c), ucast (drop_bit 24 c)]"
    by (simp add: note_desc_def le_bytes_eval eval_nat_numeral)
  moreover have "length NOTE_DESC_MAGIC = 4" by (simp add: NOTE_DESC_MAGIC_def)
  ultimately have "length (note_desc v c) = 12" "slice 0 4 (note_desc v c) = NOTE_DESC_MAGIC"
    "[note_desc v c ! 4, note_desc v c ! 5] = le_bytes 2 v"
    "[note_desc v c ! 6, note_desc v c ! 7] = [0, 0]"
    "[note_desc v c ! 8, note_desc v c ! 9, note_desc v c ! 10, note_desc v c ! 11] = le_bytes 4 c"
    by (simp_all add: slice_def nth_append le_bytes_eval)
  then show "decode_note_desc desc = Inr (v, c)"
    using a by (simp add: decode_note_desc_def NOTE_DESC_BYTES_def Let_def from_bits_def codec_simps
        del: le_value.simps) simp
qed

section \<open>The scan\<close>

text \<open>A vendor signature: name size, type and NUL-terminated name, inside the segment.\<close>

definition signature :: "bytes \<Rightarrow> nat \<Rightarrow> nat \<Rightarrow> bool" where
  "signature data seg_end pos \<longleftrightarrow>
     pos + 18 \<le> seg_end
     \<and> slice pos (pos + 4) data = le_bytes 4 (6 :: u32)
     \<and> slice (pos + 8) (pos + 12) data = le_bytes 4 NOTE_TYPE
     \<and> slice (pos + 12) (pos + 17) data = NOTE_NAME \<and> data ! (pos + 17) = 0"

definition note_at :: "bytes \<Rightarrow> nat \<Rightarrow> nat \<Rightarrow> runtime_note" where
  "note_at data seg_end pos =
     (let descsz = (le_value (slice (pos + 4) (pos + 8) data) :: u32)
      in if unat descsz \<noteq> NOTE_DESC_BYTES
         then Incompatible (note_error_new (lit ''capability note declares a ''
                @ show_nat (unat descsz) @ lit ''-byte description, expected ''
                @ show_nat NOTE_DESC_BYTES))
         else read_desc data seg_end pos)"

lemma u32_at_in: "at + 4 \<le> length data \<Longrightarrow> u32_at data at = Some (le_value (slice at (at + 4) data))"
  by (simp add: u32_at_def get_slice_def)

lemma le_value_eq_iff:
  "length bs = 4 \<Longrightarrow> (le_value bs :: u32) = w \<longleftrightarrow> bs = le_bytes 4 w"
  by (auto simp: codec_simps)

lemma vendor_match:
  assumes "seg_end \<le> length data" and "pos + 12 \<le> seg_end"
  shows "\<not> vendor_mismatch data seg_end pos (le_value (slice pos (pos + 4) data))
      (le_value (slice (pos + 8) (pos + 12) data)) \<longleftrightarrow> signature data seg_end pos"
proof -
  have six: "unat (w :: u32) = 6 \<longleftrightarrow> w = 6" for w by (auto simp: word_unat_eq_iff)
  have len: "length (slice pos (pos + 4) data) = 4" "length (slice (pos + 8) (pos + 12) data) = 4"
    using assms by simp_all
  have name: "length NOTE_NAME + 1 = 6" "pos + 12 + length NOTE_NAME = pos + 17"
    "pos + 12 + length NOTE_NAME + 1 = pos + 18"
    by (simp_all add: NOTE_NAME_def)
  show ?thesis
    unfolding vendor_mismatch_def signature_def name six le_value_eq_iff [OF len(1)]
      le_value_eq_iff [OF len(2)]
    by auto
qed

lemma scan_from_step:
  assumes "seg_end \<le> length data"
  shows "scan_from data seg_end pos =
    (if pos + 12 \<le> seg_end then
       if signature data seg_end pos then note_at data seg_end pos
       else scan_from data seg_end (pos + 4)
     else Absent)"
proof (cases "pos + 12 \<le> seg_end")
  case True
  then have "u32_at data pos = Some (le_value (slice pos (pos + 4) data))"
    "u32_at data (pos + 4) = Some (le_value (slice (pos + 4) (pos + 8) data))"
    "u32_at data (pos + 8) = Some (le_value (slice (pos + 8) (pos + 12) data))"
    using assms True u32_at_in [of pos data] u32_at_in [of "pos + 4" data]
      u32_at_in [of "pos + 8" data]
    by (simp_all add: add.assoc)
  then show ?thesis
    using True vendor_match [OF assms True]
    by (subst scan_from.simps) (auto simp: note_at_def Let_def)
next
  case False
  then show ?thesis by (subst scan_from.simps) simp
qed

lemma signature_end: "signature data seg_end pos \<Longrightarrow> pos + 12 \<le> seg_end"
  by (simp add: signature_def)

lemma scan_from_first:
  assumes "seg_end \<le> length data" and "signature data seg_end (pos + 4 * k)"
    and "\<forall>j < k. \<not> signature data seg_end (pos + 4 * j)"
  shows "scan_from data seg_end pos = note_at data seg_end (pos + 4 * k)"
  using assms(2,3)
proof (induction k arbitrary: pos)
  case 0
  then show ?case using scan_from_step [OF assms(1), of pos] signature_end [of data seg_end pos]
    by simp
next
  case (Suc k)
  have "\<not> signature data seg_end pos" using Suc.prems(2) by force
  moreover have "pos + 12 \<le> seg_end" using signature_end [OF Suc.prems(1)] by simp
  moreover have "scan_from data seg_end (pos + 4) = note_at data seg_end (pos + 4 + 4 * k)"
  proof (rule Suc.IH)
    show "signature data seg_end (pos + 4 + 4 * k)" using Suc.prems(1) by (simp add: algebra_simps)
    show "\<forall>j<k. \<not> signature data seg_end (pos + 4 + 4 * j)"
    proof (intro allI impI)
      fix j assume "j < k"
      then have "\<not> signature data seg_end (pos + 4 * Suc j)" using Suc.prems(2) by blast
      then show "\<not> signature data seg_end (pos + 4 + 4 * j)" by (simp add: algebra_simps)
    qed
  qed
  ultimately show ?case using scan_from_step [OF assms(1), of pos] by (simp add: algebra_simps)
qed

lemma scan_from_none:
  assumes "seg_end \<le> length data" and "\<And>k. \<not> signature data seg_end (pos + 4 * k)"
  shows "scan_from data seg_end pos = Absent"
  using assms(2)
proof (induction "seg_end - pos" arbitrary: pos rule: less_induct)
  case less
  show ?case
  proof (cases "pos + 12 \<le> seg_end")
    case True
    have "scan_from data seg_end (pos + 4) = Absent"
      by (rule less.hyps) (use True less.prems [of "Suc _"] in \<open>simp_all add: algebra_simps\<close>)
    then show ?thesis
      using scan_from_step [OF assms(1), of pos] less.prems [of 0] by simp
  qed (use scan_from_step [OF assms(1), of pos] in simp)
qed

lemma note_at_not_Absent: "note_at data seg_end pos \<noteq> Absent"
  by (auto simp: note_at_def read_desc_def Let_def split: option.splits sum.splits)

lemma scan_from_cases:
  assumes "seg_end \<le> length data"
  obtains "scan_from data seg_end pos = Absent" "\<And>k. \<not> signature data seg_end (pos + 4 * k)"
  | k where "signature data seg_end (pos + 4 * k)"
      "scan_from data seg_end pos = note_at data seg_end (pos + 4 * k)"
proof (cases "\<exists>k. signature data seg_end (pos + 4 * k)")
  case True
  define k where "k = (LEAST k. signature data seg_end (pos + 4 * k))"
  have "signature data seg_end (pos + 4 * k)" unfolding k_def using True by (rule LeastI_ex)
  moreover have "\<forall>j < k. \<not> signature data seg_end (pos + 4 * j)"
    unfolding k_def using not_less_Least by blast
  ultimately show thesis using scan_from_first [OF assms] that(2) by blast
next
  case False
  then show thesis using scan_from_none [OF assms] that(1) by blast
qed

section \<open>What a probe reports\<close>

text \<open>A note segment whose extent lies inside the image, with its bounds.\<close>

definition note_segment :: "bytes \<Rightarrow> phdr \<Rightarrow> nat \<Rightarrow> nat \<Rightarrow> bool" where
  "note_segment data ph start seg_end \<longleftrightarrow> p_type ph = PT_NOTE \<and> start = unat (p_offset ph)
     \<and> seg_end = start + unat (p_filesz ph) \<and> seg_end \<le> length data \<and> seg_end \<le> usize_max"

lemma scan_note_segment_Absent:
  assumes "p_type ph = PT_NOTE"
  shows "scan_note_segment data Absent ph =
    (if note_segment data ph (unat (p_offset ph)) (unat (p_offset ph) + unat (p_filesz ph))
     then scan_from data (unat (p_offset ph) + unat (p_filesz ph)) (unat (p_offset ph)) else Absent)"
  using assms by (auto simp: scan_note_segment_def note_segment_def checked_add_def Let_def)

definition scan_phdr :: "bytes \<Rightarrow> runtime_note \<Rightarrow> phdr \<Rightarrow> runtime_note" where
  "scan_phdr data state ph = (if p_type ph = PT_NOTE then scan_note_segment data state ph else state)"

lemma scan_phdrs_kept: "state \<noteq> Absent \<Longrightarrow> foldl (scan_phdr data) state phs = state"
  by (induction phs) (auto simp: scan_phdr_def scan_note_segment_def)

lemma scan_phdrs_Absent_iff:
  "foldl (scan_phdr data) Absent phs = Absent \<longleftrightarrow> (\<forall>ph \<in> set phs. scan_phdr data Absent ph = Absent)"
proof (induction phs)
  case (Cons ph phs)
  then show ?case
    by (cases "scan_phdr data Absent ph = Absent") (auto simp: scan_phdrs_kept)
qed simp

lemma scan_phdrs_found:
  "foldl (scan_phdr data) Absent phs = n \<Longrightarrow> n \<noteq> Absent \<Longrightarrow>
     \<exists>ph \<in> set phs. scan_phdr data Absent ph = n"
proof (induction phs)
  case (Cons ph phs)
  then show ?case
    by (cases "scan_phdr data Absent ph = Absent") (auto simp: scan_phdrs_kept)
qed simp

lemma probe_eq:
  "probe_capability_note data = Inr n \<longleftrightarrow>
     phdr_table data \<noteq> None \<and> n = foldl (scan_phdr data) Absent (each_phdr data)"
proof -
  have "(\<lambda>state ph. if p_type ph = PT_NOTE then scan_note_segment data state ph else state)
      = scan_phdr data" by (intro ext) (simp add: scan_phdr_def)
  moreover have "cls = 1 \<or> cls = 2" if "phdr_table data = Some (cls, a, b, c)" for cls a b c
    using that by (auto simp: phdr_table_def Let_def bind_opt_Some_iff split: if_splits)
  ultimately show ?thesis by (auto simp: probe_capability_note_def split: option.splits)
qed


lemma read_desc_Present:
  "read_desc data seg_end pos = Present v c \<Longrightarrow>
     \<exists>d \<in> {20, 24}. pos + d + NOTE_DESC_BYTES \<le> seg_end
       \<and> decode_note_desc (slice (pos + d) (pos + d + NOTE_DESC_BYTES) data) = Inr (v, c)"
  by (auto simp: read_desc_def desc_attempt_def split: if_splits option.splits sum.splits prod.splits)

text \<open>
  C23: A reported advertisement is in the image. If the probe reports a metadata version and
  capabilities, the version is not zero, every capability is one this code names, and some note
  segment inside the image holds, at a four-byte stride, the vendor signature followed at one of
  the two padded offsets by the canonical description of exactly that version and these bits.
\<close>

theorem probe_present_sound:
  assumes "probe_capability_note data = Inr (Present v c)"
  shows "v \<noteq> 0 \<and> c AND NOT ALL_KNOWN = 0 \<and>
    (\<exists>ph \<in> set (each_phdr data). \<exists>start seg_end k. \<exists>d \<in> {20, 24}.
       note_segment data ph start seg_end \<and> signature data seg_end (start + 4 * k)
       \<and> start + 4 * k + d + 12 \<le> seg_end
       \<and> slice (start + 4 * k + d) (start + 4 * k + d + 12) data = note_desc v c)"
proof -
  from assms obtain ph where ph: "ph \<in> set (each_phdr data)" "scan_phdr data Absent ph = Present v c"
    unfolding probe_eq using scan_phdrs_found by (metis runtime_note.distinct(1))
  let ?s = "unat (p_offset ph)" and ?e = "unat (p_offset ph) + unat (p_filesz ph)"
  from ph(2) have seg: "note_segment data ph ?s ?e" and scan: "scan_from data ?e ?s = Present v c"
    by (auto simp: scan_phdr_def scan_note_segment_Absent split: if_splits)
  from seg have e: "?e \<le> length data" by (simp add: note_segment_def)
  obtain k where k: "signature data ?e (?s + 4 * k)" "note_at data ?e (?s + 4 * k) = Present v c"
    by (rule scan_from_cases [OF e, of ?s]) (use scan in auto)
  from k(2) have "read_desc data ?e (?s + 4 * k) = Present v c"
    by (auto simp: note_at_def Let_def split: if_splits)
  from read_desc_Present [OF this] obtain d where d: "d \<in> {20, 24}" "?s + 4 * k + d + 12 \<le> ?e"
    "decode_note_desc (slice (?s + 4 * k + d) (?s + 4 * k + d + 12) data) = Inr (v, c)"
    unfolding NOTE_DESC_BYTES_def by blast
  then show ?thesis using ph(1) seg k(1) unfolding decode_note_desc_Inr by blast
qed

lemma canonical_note_signature:
  assumes "slice pos (pos + 32) data = encode_capability_note v c" and "pos + 32 \<le> seg_end"
    and "seg_end \<le> length data"
  shows "signature data seg_end pos"
    and "slice (pos + 4) (pos + 8) data = le_bytes 4 (12 :: u32)"
    and "slice (pos + 20) (pos + 32) data = note_desc v c"
proof -
  have sub: "slice (pos + a) (pos + b) data = slice a b (encode_capability_note v c)"
    if "a \<le> b" "b \<le> 32" for a b
    unfolding assms(1) [symmetric] using that
    by (simp add: slice_def take_drop min_def add.commute)
  have parts: "slice 0 4 (encode_capability_note v c) = le_bytes 4 (6 :: u32)"
    "slice 4 8 (encode_capability_note v c) = le_bytes 4 (12 :: u32)"
    "slice 8 12 (encode_capability_note v c) = le_bytes 4 NOTE_TYPE"
    "slice 12 17 (encode_capability_note v c) = NOTE_NAME"
    "slice 17 18 (encode_capability_note v c) = [0]"
    by (simp_all add: encode_capability_note_def slice_def NOTE_NAME_def NOTE_DESC_BYTES_def
        numeral_3_eq_3)
  have "data ! (pos + 17) = slice (pos + 17) (pos + 18) data ! 0"
    using assms(2,3) by (simp add: nth_slice)
  then have "data ! (pos + 17) = 0" using sub [of 17 18] parts(5) by simp
  then show "signature data seg_end pos"
    using assms(2) sub [of 0 4] sub [of 8 12] sub [of 12 17] parts by (simp add: signature_def)
  show "slice (pos + 4) (pos + 8) data = le_bytes 4 (12 :: u32)"
    using sub [of 4 8] parts(2) by simp
  show "slice (pos + 20) (pos + 32) data = note_desc v c"
    using sub [of 20 32] encode_note_desc by simp
qed

text \<open>
  C22: The probe finds what the packer embeds: if the first note segment of the image starts with
  the note this code encodes for a nonzero version and known capabilities, the probe reports
  exactly that version and these capabilities, whatever follows in the image.
\<close>

theorem probe_finds_embedded_note:
  assumes "phdr_table data \<noteq> None"
    and "each_phdr data = before @ ph # after" and "\<forall>q \<in> set before. p_type q \<noteq> PT_NOTE"
    and "note_segment data ph start seg_end" and "start + 32 \<le> seg_end"
    and "slice start (start + 32) data = encode_capability_note v c"
    and "v \<noteq> 0" and "c AND NOT ALL_KNOWN = 0"
  shows "probe_capability_note data = Inr (Present v c)"
proof -
  have e: "seg_end \<le> length data" using assms(4) by (simp add: note_segment_def)
  note sig = canonical_note_signature [OF assms(6,5) e]
  have "desc_attempt data seg_end (start + 20) = Some (Inr (v, c))"
    using assms(5,7,8) sig(3) decode_note_desc_Inr [of "note_desc v c" v c]
    by (simp add: desc_attempt_def NOTE_DESC_BYTES_def add.assoc)
  then have "read_desc data seg_end start = Present v c" by (simp add: read_desc_def)
  then have "note_at data seg_end start = Present v c"
    using sig(2) by (simp add: note_at_def NOTE_DESC_BYTES_def codec_simps)
  then have "scan_from data seg_end start = Present v c"
    using scan_from_first [OF e, of start 0] sig(1) by simp
  then have "scan_phdr data Absent ph = Present v c"
    using assms(4) by (auto simp: scan_phdr_def scan_note_segment_Absent note_segment_def)
  moreover have "foldl (scan_phdr data) Absent before = Absent"
    unfolding scan_phdrs_Absent_iff using assms(3) by (simp add: scan_phdr_def)
  ultimately have "foldl (scan_phdr data) Absent (each_phdr data) = Present v c"
    by (simp add: assms(2) scan_phdrs_kept)
  then show ?thesis unfolding probe_eq using assms(1) by simp
qed

text \<open>
  Support is granted exactly when the requirement is covered: an unreadable note never is, a
  runtime without a note only for the empty requirement, and otherwise the advertised version is
  at least the required one and every required capability is advertised.
\<close>

theorem check_runtime_support_exact:
  "check_runtime_support note required = Inr () \<longleftrightarrow>
     (case note of
        Incompatible e \<Rightarrow> False
      | Absent \<Rightarrow> required = requirements_NONE
      | Present v c \<Rightarrow> rq_metadata_version required \<le> v
          \<and> flags_contains c (rq_capabilities required))"
proof -
  have low: "bit a n \<Longrightarrow> n < 32" for a :: u32 and n using bit_imp_le_length [of a n] by simp
  have "flags_difference a b = 0 \<longleftrightarrow> flags_contains b a" for a b
    using low [of a] by (auto simp: flags_difference_def flags_contains_iff bit_eq_iff bit_simps)
  moreover have "requirements_is_none required \<longleftrightarrow> required = requirements_NONE"
    by (cases required) (auto simp: requirements_is_none_def requirements_NONE_def)
  ultimately show ?thesis
    by (cases "note") (auto simp: check_runtime_support_def Let_def not_less)
qed

section \<open>An image with a note\<close>

text \<open>A 64-bit header, one program header of note type at 64, and the note at 120.\<close>

definition sample_image :: bytes where
  "sample_image =
     (ELF_MAGIC @ [2] @ replicate 27 0 @ le_bytes 8 (64 :: u64) @ replicate 14 0
      @ le_bytes 2 (56 :: u16) @ le_bytes 2 (1 :: u16) @ replicate 6 0)
     @ (le_bytes 4 PT_NOTE @ replicate 4 0 @ le_bytes 8 (120 :: u64) @ replicate 16 0
        @ le_bytes 8 (32 :: u64) @ replicate 16 0)
     @ encode_capability_note 1 3"

definition sample_phdr :: phdr where
  "sample_phdr = \<lparr> p_type = PT_NOTE, p_offset = 120, p_filesz = 32 \<rparr>"

lemma sample_image_table: "phdr_table sample_image = Some (2, 64, 56, 1)"
proof -
  have "slice 0 4 sample_image = ELF_MAGIC" "sample_image ! 4 = 2"
    "slice 32 40 sample_image = le_bytes 8 (64 :: u64)"
    "slice 54 56 sample_image = le_bytes 2 (56 :: u16)"
    "slice 56 58 sample_image = le_bytes 2 (1 :: u16)" "length sample_image = 152"
    by (simp_all add: sample_image_def ELF_MAGIC_def slice_def nth_append encode_note_length
        CAPABILITY_NOTE_BYTES_def)
  then show ?thesis
    by (simp add: phdr_table_def u64_at_def u16_at_def get_slice_def codec_simps Let_def)
qed

lemma sample_image_phdrs: "each_phdr sample_image = [sample_phdr]"
proof -
  have "slice 64 68 sample_image = le_bytes 4 PT_NOTE"
    "slice 72 80 sample_image = le_bytes 8 (120 :: u64)"
    "slice 96 104 sample_image = le_bytes 8 (32 :: u64)" "length sample_image = 152"
    by (simp_all add: sample_image_def ELF_MAGIC_def slice_def encode_note_length
        CAPABILITY_NOTE_BYTES_def)
  then show ?thesis
    by (simp add: each_phdr_def sample_image_table checked_mul_def checked_add_def usize_max_def
        read_phdr_def u32_at_def u64_at_def get_slice_def codec_simps sample_phdr_def
        phdrs_from.simps(2) [of _ _ _ _ _ 0, simplified])
qed

lemma sample_image_segment: "note_segment sample_image sample_phdr 120 152"
  by (simp add: note_segment_def sample_phdr_def usize_max_def sample_image_def ELF_MAGIC_def
      encode_note_length CAPABILITY_NOTE_BYTES_def)

theorem probe_finds_embedded_note_witness:
  "probe_capability_note sample_image = Inr (Present 1 3)"
proof (rule probe_finds_embedded_note [where before = "[]" and after = "[]" and ph = sample_phdr
      and seg_end = 152])
  show "slice 120 (120 + 32) sample_image = encode_capability_note 1 3"
    by (simp add: sample_image_def ELF_MAGIC_def slice_def encode_note_length
        CAPABILITY_NOTE_BYTES_def)
qed (simp_all add: sample_image_table sample_image_phdrs sample_image_segment ALL_KNOWN_def
    flags_union_def SELECTION_VIEW_def STORE_IMPORT_def)

theorem probe_present_sound_witness:
  "\<exists>ph \<in> set (each_phdr sample_image). \<exists>start seg_end k. \<exists>d \<in> {20, 24}.
     note_segment sample_image ph start seg_end \<and> signature sample_image seg_end (start + 4 * k)
     \<and> start + 4 * k + d + 12 \<le> seg_end
     \<and> slice (start + 4 * k + d) (start + 4 * k + d + 12) sample_image = note_desc 1 3"
proof -
  have "foldl (scan_phdr sample_image) Absent (each_phdr sample_image) = Present 1 3"
  proof -
    have "slice 120 (120 + 32) sample_image = encode_capability_note 1 3"
      by (simp add: sample_image_def ELF_MAGIC_def slice_def encode_note_length
          CAPABILITY_NOTE_BYTES_def)
    note sig = canonical_note_signature [OF this, of 152]
    have e: "(152 :: nat) \<le> length sample_image" using sample_image_segment by (simp add: note_segment_def)
    have "decode_note_desc (note_desc 1 3) = Inr (1, 3)"
      by (simp add: decode_note_desc_Inr ALL_KNOWN_def flags_union_def SELECTION_VIEW_def
          STORE_IMPORT_def)
    then have "note_at sample_image 152 120 = Present 1 3"
      using sig(2,3) e by (simp add: note_at_def NOTE_DESC_BYTES_def codec_simps read_desc_def
          desc_attempt_def)
    then have "scan_from sample_image 152 120 = Present 1 3"
      using scan_from_first [OF e, of 120 0] sig(1) e by simp
    then show ?thesis
      using sample_image_segment
      by (simp add: sample_image_phdrs scan_phdr_def scan_note_segment_Absent sample_phdr_def
          note_segment_def)
  qed
  then have "probe_capability_note sample_image = Inr (Present 1 3)"
    by (simp add: probe_eq sample_image_table)
  from probe_present_sound [OF this] show ?thesis by blast
qed

text \<open>A bare 64-bit header whose data-encoding byte says big-endian; the probe does not read it.\<close>

definition bare_image :: bytes where
  "bare_image = ELF_MAGIC @ [2, 2] @ replicate 58 0"

lemma bare_image_table: "phdr_table bare_image = Some (2, 0, 0, 0)"
proof -
  have "slice 0 4 bare_image = ELF_MAGIC" "bare_image ! 4 = 2" "length bare_image = 64"
    "slice 32 40 bare_image = replicate 8 0" "slice 54 56 bare_image = replicate 2 0"
    "slice 56 58 bare_image = replicate 2 0"
    by (simp_all add: bare_image_def ELF_MAGIC_def slice_def nth_append)
  then show ?thesis
    by (simp add: phdr_table_def u64_at_def u16_at_def get_slice_def Let_def eval_nat_numeral)
qed


end
