(* ===== verification/Elf_Facts.thy ===== *)
theory Elf_Facts
  imports Strings
begin

text \<open>
  \<open>verdef.rs\<close>: bounded inspection of an ELF file for its dynamic dependencies and its GNU symbol
  versions, and the comparison that picks the bundled or the host copy of a library. A file is
  its bytes; the one-entry cache of string tables returns what a read returns, so it does not
  appear. Version sets are sets of names, and required versions a map by dependency.
\<close>

section \<open>Version sets\<close>

type_synonym version_set = "bytes set"

datatype choice = Host | Bundle | Incomparable

definition compare :: "version_set \<Rightarrow> version_set \<Rightarrow> choice" where
  "compare bundle host =
     (if host \<subseteq> bundle then Bundle else if bundle \<subseteq> host then Host else Incomparable)"

datatype elf_class = Elf32 | Elf64

datatype libc_family = Unknown | Glibc | Musl | Conflicting

record required_version =
  rv_name :: bytes
  rv_flags :: u16

definition is_weak :: "required_version \<Rightarrow> bool" where
  "is_weak v \<longleftrightarrow> rv_flags v AND 2 \<noteq> 0"

record elf_facts =
  ef_class :: elf_class
  ef_machine :: u16
  ef_soname :: "bytes option"
  ef_inspected_basename :: bytes
  ef_needed :: "bytes list"
  ef_defined_versions :: version_set
  ef_required_versions :: "bytes \<rightharpoonup> required_version list"
  ef_interpreter :: "bytes option"
  ef_libc_family :: libc_family

definition known_loader_names :: "elf_facts \<Rightarrow> bytes set" where
  "known_loader_names f =
     (case ef_soname f of Some s \<Rightarrow> {s} | None \<Rightarrow> {}) \<union> {ef_inspected_basename f}"

definition SHT_STRTAB :: u32 where "SHT_STRTAB = 3"
definition SHT_DYNAMIC :: u32 where "SHT_DYNAMIC = 6"
definition SHT_GNU_VERDEF :: u32 where "SHT_GNU_VERDEF = 0x6ffffffd"
definition SHT_GNU_VERNEED :: u32 where "SHT_GNU_VERNEED = 0x6ffffffe"
definition VER_FLG_BASE :: u16 where "VER_FLG_BASE = 1"
definition VERDEF_ENTRY :: nat where "VERDEF_ENTRY = 20"
definition VERDAUX_ENTRY :: nat where "VERDAUX_ENTRY = 8"
definition DT_NULL :: u64 where "DT_NULL = 0"
definition DT_NEEDED :: u64 where "DT_NEEDED = 1"
definition DT_SONAME :: u64 where "DT_SONAME = 14"
definition DT_VERNEED :: u64 where "DT_VERNEED = 0x6ffffffe"
definition DT_VERNEEDNUM :: u64 where "DT_VERNEEDNUM = 0x6fffffff"
definition MAX_HEADER_TABLE :: nat where "MAX_HEADER_TABLE = 1024 * 1024"
definition MAX_SECTION :: nat where "MAX_SECTION = 1024 * 1024"
definition MAX_STRTAB :: nat where "MAX_STRTAB = 64 * 1024 * 1024"
definition MAX_NAME :: nat where "MAX_NAME = 4096"
definition MAX_RECORDS :: nat where "MAX_RECORDS = 4096"

section \<open>Reading fields, ranges and names\<close>

text \<open>
  The field readers slice a record that is long enough; every caller has checked its length.
\<close>

definition u16_at :: "bytes \<Rightarrow> nat \<Rightarrow> u16" where
  "u16_at bs at = le_value (slice at (at + 2) bs)"

definition u32_at :: "bytes \<Rightarrow> nat \<Rightarrow> u32" where
  "u32_at bs at = le_value (slice at (at + 4) bs)"

definition u64_at :: "bytes \<Rightarrow> nat \<Rightarrow> u64" where
  "u64_at bs at = le_value (slice at (at + 8) bs)"

definition bounded_table :: "nat \<Rightarrow> nat \<Rightarrow> io_error + nat" where
  "bounded_table n stride =
     tryE (ok_or (InvalidData ''ELF table length overflows'') (checked_mul n stride)) (\<lambda>len.
     if len > MAX_HEADER_TABLE then Inl (InvalidData ''ELF header table is implausibly large'')
     else Inr len)"

definition read_at :: "bytes \<Rightarrow> u64 \<Rightarrow> nat \<Rightarrow> io_error + bytes" where
  "read_at file offset len =
     tryE (ok_or (InvalidData ''ELF range overflows'')
             (checked_add_u64 offset (of_nat len))) (\<lambda>e.
     if unat e > length file then Inl (InvalidData ''ELF range lies outside the file'')
     else Inr (slice (unat offset) (unat offset + len) file))"

definition elf_record :: "bytes \<Rightarrow> nat \<Rightarrow> nat \<Rightarrow> io_error + bytes" where
  "elf_record bs pos len =
     tryE (ok_or (InvalidData ''ELF record range overflows'') (checked_add pos len)) (\<lambda>e.
     ok_or (InvalidData ''ELF record outside its section'') (get_slice bs pos e))"

definition chain_advance :: "nat \<Rightarrow> nat \<Rightarrow> nat \<Rightarrow> io_error + nat" where
  "chain_advance pos delta minimum =
     (if delta < minimum then Inl (InvalidData ''ELF chain overlaps or cycles'')
      else ok_or (InvalidData ''ELF chain overflows'') (checked_add pos delta))"

text \<open>A name ends at the first NUL, which must be among its first 4097 bytes.\<close>

definition string_at :: "bytes \<Rightarrow> nat \<Rightarrow> io_error + bytes" where
  "string_at strings at =
     tryE (ok_or (InvalidData ''name outside the string table'')
             (if at \<le> length strings then Some (drop at strings) else None)) (\<lambda>rest.
     let window = take (MAX_NAME + 1) rest in
     if 0 \<notin> set window
     then Inl (InvalidData ''name is unterminated or exceeds 4096 bytes'')
     else ok_or (InvalidData ''name is not UTF-8'') (from_utf8 (takeWhile (\<lambda>b. b \<noteq> 0) window)))"

section \<open>Placement of auxiliary entries\<close>

text \<open>
  \<open>partition_point\<close> on a slice its predicate partitions: the number of leading elements the
  predicate holds of.
\<close>

definition partition_point :: "('a \<Rightarrow> bool) \<Rightarrow> 'a list \<Rightarrow> nat" where
  "partition_point p xs = length (takeWhile p xs)"

definition aux_placement :: "nat list \<Rightarrow> nat \<Rightarrow> nat \<Rightarrow> nat \<Rightarrow> io_error + unit" where
  "aux_placement headers header_len aux_len aux =
     (let after = partition_point (\<lambda>header. header + header_len \<le> aux) headers
      in if after < length headers \<and> headers ! after < aux + aux_len
         then Inl (InvalidData ''ELF auxiliary entry overlaps a header'') else Inr ())"

definition check_aux_placement :: "nat list \<Rightarrow> nat \<Rightarrow> nat list \<Rightarrow> nat \<Rightarrow> io_error + unit" where
  "check_aux_placement headers header_len auxes aux_len =
     eachE (aux_placement headers header_len aux_len) auxes"

section \<open>Version definitions\<close>

text \<open>
  The inner loop over the auxiliary entries of one header, by the number left; \<open>base\<close> is the
  base-version flag of the header and \<open>first\<close> holds for the entry that names the version.
\<close>

fun verdef_auxes :: "bytes \<Rightarrow> bytes \<Rightarrow> bool \<Rightarrow> bool \<Rightarrow> nat \<Rightarrow> nat \<Rightarrow> nat list \<Rightarrow> version_set
    \<Rightarrow> io_error + nat list \<times> version_set" where
  "verdef_auxes defs strings base first 0 aux_at auxes out = Inr (auxes, out)"
| "verdef_auxes defs strings base first (Suc n) aux_at auxes out =
     tryE (elf_record defs aux_at VERDAUX_ENTRY) (\<lambda>aux.
     let auxes' = auxes @ [aux_at] in
     tryE (string_at strings (unat (u32_at aux 0))) (\<lambda>name.
     let out' = (if first \<and> \<not> base then insert name out else out);
         next_delta = unat (u32_at aux 4)
     in if n = 0 then
          if next_delta \<noteq> 0
          then Inl (InvalidData ''version definition auxiliary count disagrees with chain'')
          else Inr (auxes', out')
        else
          tryE (chain_advance aux_at next_delta VERDAUX_ENTRY) (\<lambda>aux_at'.
          verdef_auxes defs strings base False n aux_at' auxes' out')))"

text \<open>The outer loop over the headers, by the rounds left of its 4096.\<close>

fun verdef_headers :: "bytes \<Rightarrow> bytes \<Rightarrow> nat \<Rightarrow> nat \<Rightarrow> nat \<Rightarrow> nat list \<Rightarrow> nat list \<Rightarrow> version_set
    \<Rightarrow> io_error + version_set" where
  "verdef_headers defs strings 0 pos total_aux headers auxes out =
     Inl (InvalidData ''too many version definitions'')"
| "verdef_headers defs strings (Suc rounds) pos total_aux headers auxes out =
     tryE (elf_record defs pos VERDEF_ENTRY) (\<lambda>entry.
     let headers' = headers @ [pos] in
     if u16_at entry 0 \<noteq> 1 then Inl (InvalidData ''unsupported version definition format'')
     else
       let n = unat (u16_at entry 6); total' = total_aux + n in
       if n = 0 \<or> total' > MAX_RECORDS
       then Inl (InvalidData ''invalid version definition auxiliary count'')
       else
         tryE (chain_advance pos (unat (u32_at entry 12)) VERDEF_ENTRY) (\<lambda>aux_at.
         tryE (verdef_auxes defs strings (u16_at entry 2 AND VER_FLG_BASE \<noteq> 0) True n aux_at auxes out)
           (\<lambda>(auxes', out').
         let next_delta = unat (u32_at entry 16) in
         if next_delta = 0 then
           tryE (check_aux_placement headers' VERDEF_ENTRY auxes' VERDAUX_ENTRY) (\<lambda>_. Inr out')
         else
           tryE (chain_advance pos next_delta VERDEF_ENTRY) (\<lambda>pos'.
           verdef_headers defs strings rounds pos' total' headers' auxes' out'))))"

definition parse_verdef :: "bytes \<Rightarrow> bytes \<Rightarrow> io_error + version_set" where
  "parse_verdef defs strings =
     (if defs = [] then Inr {} else verdef_headers defs strings MAX_RECORDS 0 0 [] [] {})"

section \<open>The dynamic section\<close>

record dynamic =
  dy_needed :: "bytes list"
  dy_soname :: "bytes option"
  dy_verneed :: "u64 option"
  dy_verneed_num :: "u64 option"

definition dynamic_default :: dynamic where
  "dynamic_default = \<lparr> dy_needed = [], dy_soname = None, dy_verneed = None, dy_verneed_num = None \<rparr>"

fun chunks_exact :: "nat \<Rightarrow> 'a list \<Rightarrow> 'a list list" where
  "chunks_exact n xs =
     (if n = 0 \<or> length xs < n then [] else take n xs # chunks_exact n (drop n xs))"

declare chunks_exact.simps [simp del]

text \<open>One entry: \<open>Inr None\<close> is the terminator, which ends the loop with what was collected.\<close>

definition dynamic_entry :: "bytes \<Rightarrow> bool \<Rightarrow> bytes \<Rightarrow> dynamic \<Rightarrow> io_error + dynamic option" where
  "dynamic_entry strings class64 entry out =
     (let tag = (if class64 then u64_at entry 0 else ucast (u32_at entry 0));
          val = (if class64 then u64_at entry 8 else ucast (u32_at entry 4))
      in if tag = DT_NULL then Inr None
         else if tag = DT_NEEDED \<or> tag = DT_SONAME then
           tryE (string_at strings (unat val)) (\<lambda>name.
           if name = [] then Inl (InvalidData ''empty dynamic loader name'')
           else if tag = DT_NEEDED then Inr (Some (out\<lparr> dy_needed := dy_needed out @ [name] \<rparr>))
           else if dy_soname out \<noteq> None then Inl (InvalidData ''duplicate SONAME'')
           else Inr (Some (out\<lparr> dy_soname := Some name \<rparr>)))
         else if tag = DT_VERNEED then
           if dy_verneed out \<noteq> None
           then Inl (InvalidData ''duplicate version requirement address'')
           else Inr (Some (out\<lparr> dy_verneed := Some val \<rparr>))
         else if tag = DT_VERNEEDNUM then
           if dy_verneed_num out \<noteq> None
           then Inl (InvalidData ''duplicate version requirement count'')
           else Inr (Some (out\<lparr> dy_verneed_num := Some val \<rparr>))
         else Inr (Some out))"

fun dynamic_entries :: "bytes \<Rightarrow> bool \<Rightarrow> nat \<Rightarrow> bytes list \<Rightarrow> dynamic \<Rightarrow> io_error + dynamic" where
  "dynamic_entries strings class64 i [] out =
     Inl (InvalidData ''dynamic section has no terminator'')"
| "dynamic_entries strings class64 i (entry # rest) out =
     (if i \<ge> MAX_RECORDS then Inl (InvalidData ''too many dynamic entries'')
      else
        tryE (dynamic_entry strings class64 entry out) (\<lambda>r.
        case r of None \<Rightarrow> Inr out
        | Some out' \<Rightarrow> dynamic_entries strings class64 (Suc i) rest out'))"

definition parse_dynamic :: "bytes \<Rightarrow> bytes \<Rightarrow> bool \<Rightarrow> io_error + dynamic" where
  "parse_dynamic dyn strings class64 =
     (let stride = (if class64 then 16 else 8)
      in if length dyn mod stride \<noteq> 0 then Inl (InvalidData ''truncated dynamic entry'')
         else dynamic_entries strings class64 0 (chunks_exact stride dyn) dynamic_default)"

section \<open>Version requirements\<close>

text \<open>The auxiliary entries of one requirement: the versions it names, in order.\<close>

fun verneed_auxes :: "bytes \<Rightarrow> bytes \<Rightarrow> nat \<Rightarrow> nat \<Rightarrow> nat list \<Rightarrow> required_version list
    \<Rightarrow> io_error + nat list \<times> required_version list" where
  "verneed_auxes bs strings 0 aux_at auxes versions = Inr (auxes, versions)"
| "verneed_auxes bs strings (Suc n) aux_at auxes versions =
     tryE (elf_record bs aux_at 16) (\<lambda>aux.
     let auxes' = auxes @ [aux_at] in
     tryE (string_at strings (unat (u32_at aux 8))) (\<lambda>name.
     if name = [] then Inl (InvalidData ''empty required version name'')
     else
       let versions' = versions @ [\<lparr> rv_name = name, rv_flags = u16_at aux 4 \<rparr>];
           next_delta = unat (u32_at aux 12)
       in if n = 0 then
            if next_delta \<noteq> 0
            then Inl (InvalidData ''version requirement auxiliary count disagrees with chain'')
            else Inr (auxes', versions')
          else
            tryE (chain_advance aux_at next_delta 16) (\<lambda>aux_at'.
            verneed_auxes bs strings n aux_at' auxes' versions')))"

text \<open>\<open>entry(name).or_insert_with(Vec::new)\<close> and what is then in the map under that name.\<close>

definition entry_or_empty :: "(bytes \<rightharpoonup> 'a list) \<Rightarrow> bytes \<Rightarrow> 'a list" where
  "entry_or_empty m k = (case m k of None \<Rightarrow> [] | Some v \<Rightarrow> v)"

fun verneed_headers :: "bytes \<Rightarrow> bytes \<Rightarrow> bytes list \<Rightarrow> nat \<Rightarrow> nat \<Rightarrow> nat \<Rightarrow> nat \<Rightarrow> nat list \<Rightarrow> nat list
    \<Rightarrow> (bytes \<rightharpoonup> required_version list) \<Rightarrow> io_error + (bytes \<rightharpoonup> required_version list) \<times> nat" where
  "verneed_headers bs strings needed 0 n pos total_aux headers auxes out =
     Inl (InvalidData ''too many version requirements'')"
| "verneed_headers bs strings needed (Suc rounds) n pos total_aux headers auxes out =
     tryE (elf_record bs pos 16) (\<lambda>entry.
     let headers' = headers @ [pos] in
     if u16_at entry 0 \<noteq> 1 then Inl (InvalidData ''unsupported version requirement format'')
     else
       tryE (string_at strings (unat (u32_at entry 4))) (\<lambda>name.
       if name \<notin> set needed
       then Inl (InvalidData ''version requirement does not name a needed dependency'')
       else
         let aux_count = unat (u16_at entry 2) in
         tryE (ok_or (InvalidData ''version requirement count overflows'')
                 (checked_add total_aux aux_count)) (\<lambda>total'.
         if aux_count = 0 \<or> total' > MAX_RECORDS
         then Inl (InvalidData ''invalid version requirement auxiliary count'')
         else
           tryE (chain_advance pos (unat (u32_at entry 8)) 16) (\<lambda>aux_at.
           tryE (verneed_auxes bs strings aux_count aux_at auxes (entry_or_empty out name))
             (\<lambda>(auxes', versions).
           let out' = out(name \<mapsto> versions);
               next_delta = unat (u32_at entry 12)
           in if next_delta = 0 then
                tryE (check_aux_placement headers' 16 auxes' 16) (\<lambda>_. Inr (out', n))
              else
                tryE (chain_advance pos next_delta 16) (\<lambda>pos'.
                verneed_headers bs strings needed rounds (Suc n) pos' total' headers' auxes' out'))))))"

definition parse_verneed :: "bytes \<Rightarrow> bytes \<Rightarrow> bytes list
    \<Rightarrow> io_error + (bytes \<rightharpoonup> required_version list) \<times> nat" where
  "parse_verneed bs strings needed =
     (if bs = [] then Inr (Map.empty, 0)
      else verneed_headers bs strings needed MAX_RECORDS 1 0 0 [] [] Map.empty)"

section \<open>Headers and sections\<close>

record layout =
  l_class64 :: bool
  l_machine :: u16
  l_shoff :: u64
  l_shentsize :: nat
  l_shnum :: nat
  l_phoff :: u64
  l_phentsize :: nat
  l_phnum :: nat

record section_header =
  sh_kind :: u32
  sh_offset :: u64
  sh_address :: u64
  sh_size :: nat
  sh_link :: nat
  sh_info :: nat

definition layout_parse :: "bytes \<Rightarrow> io_error + layout" where
  "layout_parse header =
     (if length header < 16 \<or> slice 0 4 header \<noteq> 0x7F # lit ''ELF''
      then Inl (InvalidData ''not an ELF object'')
      else if header ! 5 \<noteq> 1 then Inl (InvalidData ''big-endian ELF is not supported'')
      else if header ! 4 \<noteq> 1 \<and> header ! 4 \<noteq> 2 then Inl (InvalidData ''unknown ELF class'')
      else
        let class64 = (header ! 4 = 2) in
        if length header < (if class64 then 64 else 52)
        then Inl (InvalidData ''truncated ELF header'')
        else
          let layout =
            (if class64 then
               \<lparr> l_class64 = class64, l_machine = u16_at header 18, l_shoff = u64_at header 40,
                 l_shentsize = unat (u16_at header 58), l_shnum = unat (u16_at header 60),
                 l_phoff = u64_at header 32, l_phentsize = unat (u16_at header 54),
                 l_phnum = unat (u16_at header 56) \<rparr>
             else
               \<lparr> l_class64 = class64, l_machine = u16_at header 18,
                 l_shoff = ucast (u32_at header 32),
                 l_shentsize = unat (u16_at header 46), l_shnum = unat (u16_at header 48),
                 l_phoff = ucast (u32_at header 28), l_phentsize = unat (u16_at header 42),
                 l_phnum = unat (u16_at header 44) \<rparr>)
          in if l_shnum layout = 0 \<and> l_shoff layout \<noteq> 0 \<or> l_phnum layout = 0xffff
             then Inl (InvalidData ''extended ELF table numbering is unsupported'')
             else if l_shnum layout > 0
               \<and> (l_shoff layout = 0 \<or> l_shentsize layout < (if class64 then 64 else 40))
             then Inl (InvalidData ''invalid section header layout'')
             else if l_phnum layout > 0
               \<and> (l_phoff layout = 0 \<or> l_phentsize layout < (if class64 then 56 else 32))
             then Inl (InvalidData ''invalid program header layout'')
             else Inr layout)"

definition layout_section :: "layout \<Rightarrow> bytes \<Rightarrow> nat \<Rightarrow> io_error + section_header" where
  "layout_section l table index =
     (if index \<ge> l_shnum l then Inl (InvalidData ''section index outside the table'')
      else
        tryE (ok_or (InvalidData ''section index overflows'') (checked_mul index (l_shentsize l)))
          (\<lambda>start.
        tryE (ok_or (InvalidData ''section range overflows'') (checked_add start (l_shentsize l)))
          (\<lambda>e.
        tryE (ok_or (InvalidData ''section outside the table'') (get_slice table start e)) (\<lambda>entry.
        if l_class64 l then
          Inr \<lparr> sh_kind = u32_at entry 4, sh_offset = u64_at entry 24, sh_address = u64_at entry 16,
                sh_size = unat (u64_at entry 32), sh_link = unat (u32_at entry 40),
                sh_info = unat (u32_at entry 44) \<rparr>
        else
          Inr \<lparr> sh_kind = u32_at entry 4, sh_offset = ucast (u32_at entry 16),
                sh_address = ucast (u32_at entry 12), sh_size = unat (u32_at entry 20),
                sh_link = unat (u32_at entry 24), sh_info = unat (u32_at entry 28) \<rparr>))))"

fun find_sections :: "layout \<Rightarrow> bytes \<Rightarrow> u32 \<Rightarrow> nat list \<Rightarrow> section_header option
    \<Rightarrow> io_error + section_header option" where
  "find_sections l table kind [] found = Inr found"
| "find_sections l table kind (i # is) found =
     tryE (layout_section l table i) (\<lambda>s.
     if sh_kind s = kind then
       if found \<noteq> None then Inl (InvalidData ''duplicate ELF metadata section'')
       else find_sections l table kind is (Some s)
     else find_sections l table kind is found)"

definition find_section :: "layout \<Rightarrow> bytes \<Rightarrow> u32 \<Rightarrow> io_error + section_header option" where
  "find_section l table kind = find_sections l table kind [0..<l_shnum l] None"

section \<open>An opened object\<close>

record object =
  ob_file :: bytes
  ob_layout :: layout
  ob_table :: bytes
  ob_programs :: bytes

definition object_open :: "bytes \<Rightarrow> io_error + object" where
  "object_open file =
     tryE (read_at file 0 (min (length file) 64)) (\<lambda>header.
     tryE (layout_parse header) (\<lambda>layout.
     tryE (bounded_table (l_shnum layout) (l_shentsize layout)) (\<lambda>table_len.
     tryE (read_at file (l_shoff layout) table_len) (\<lambda>table.
     tryE (bounded_table (l_phnum layout) (l_phentsize layout)) (\<lambda>program_len.
     tryE (read_at file (l_phoff layout) program_len) (\<lambda>programs.
     Inr \<lparr> ob_file = file, ob_layout = layout, ob_table = table, ob_programs = programs \<rparr>))))))"

definition section_with_strings :: "object \<Rightarrow> u32 \<Rightarrow> io_error + (bytes \<times> bytes) option" where
  "section_with_strings ob kind =
     tryE (find_section (ob_layout ob) (ob_table ob) kind) (\<lambda>found.
     case found of None \<Rightarrow> Inr None
     | Some sec \<Rightarrow>
         if sh_size sec > MAX_SECTION then Inl (InvalidData ''section is implausibly large'')
         else
           tryE (layout_section (ob_layout ob) (ob_table ob) (sh_link sec)) (\<lambda>strtab.
           if sh_kind strtab \<noteq> SHT_STRTAB
           then Inl (InvalidData ''linked section is not a string table'')
           else if sh_size strtab > MAX_STRTAB
           then Inl (InvalidData ''string table is implausibly large'')
           else
             tryE (read_at (ob_file ob) (sh_offset sec) (sh_size sec)) (\<lambda>body.
             tryE (read_at (ob_file ob) (sh_offset strtab) (sh_size strtab)) (\<lambda>strings.
             Inr (Some (body, strings))))))"

definition program_chunks :: "object \<Rightarrow> bytes list" where
  "program_chunks ob = chunks_exact (max (l_phentsize (ob_layout ob)) 1) (ob_programs ob)"

definition program_range :: "object \<Rightarrow> bytes \<Rightarrow> u64 \<times> u64" where
  "program_range ob entry =
     (if l_class64 (ob_layout ob) then (u64_at entry 8, u64_at entry 32)
      else (ucast (u32_at entry 4), ucast (u32_at entry 16)))"

definition dynamic_header :: "object \<Rightarrow> bytes \<Rightarrow> bool \<Rightarrow> io_error + bool" where
  "dynamic_header ob entry found =
     (if u32_at entry 0 \<noteq> 2 then Inr found
      else if found then Inl (InvalidData ''multiple dynamic program headers'')
      else
        tryE (find_section (ob_layout ob) (ob_table ob) SHT_DYNAMIC) (\<lambda>sec.
        tryE (ok_or (InvalidData ''PT_DYNAMIC without a dynamic section is unsupported'') sec) (\<lambda>sec.
        let (offset, sz) = program_range ob entry in
        if offset \<noteq> sh_offset sec \<or> sz \<noteq> of_nat (sh_size sec)
        then Inl (InvalidData ''dynamic program header disagrees with section'')
        else Inr True)))"

definition check_dynamic_coverage :: "object \<Rightarrow> io_error + unit" where
  "check_dynamic_coverage ob =
     tryE (foldE (dynamic_header ob) (program_chunks ob) False) (\<lambda>_. Inr ())"

definition interp_header :: "object \<Rightarrow> bytes \<Rightarrow> bytes option \<Rightarrow> io_error + bytes option" where
  "interp_header ob entry out =
     (if u32_at entry 0 \<noteq> 3 then Inr out
      else if out \<noteq> None then Inl (InvalidData ''multiple ELF interpreters'')
      else
        let (offset, sz) = program_range ob entry in
        if sz = 0 \<or> unat sz > MAX_NAME then Inl (InvalidData ''invalid interpreter length'')
        else
          tryE (read_at (ob_file ob) offset (unat sz)) (\<lambda>bs.
          if last bs \<noteq> 0 \<or> 0 \<in> set (butlast bs)
          then Inl (InvalidData ''interpreter is not a terminated path'')
          else tryE (string_at bs 0) (\<lambda>s. Inr (Some s))))"

definition object_interpreter :: "object \<Rightarrow> io_error + bytes option" where
  "object_interpreter ob = foldE (interp_header ob) (program_chunks ob) None"

section \<open>The public readers\<close>

definition name_base :: "bytes \<Rightarrow> bytes" where
  "name_base name = (case rsplit_once slash name of Some (_, b) \<Rightarrow> b | None \<Rightarrow> name)"

definition names_glibc :: "bytes \<Rightarrow> bool" where
  "names_glibc name \<longleftrightarrow> name = lit ''libc.so.6'' \<or> prefix (lit ''ld-linux'') name
     \<or> name = lit ''ld64.so.1'' \<or> name = lit ''ld64.so.2''"

definition names_musl :: "bytes \<Rightarrow> bool" where
  "names_musl name \<longleftrightarrow> prefix (lit ''libc.musl-'') name \<or> prefix (lit ''ld-musl-'') name"

definition infer_libc :: "bytes list \<Rightarrow> bytes option \<Rightarrow> libc_family" where
  "infer_libc needed interp =
     (let names = map name_base (needed @ (case interp of None \<Rightarrow> [] | Some i \<Rightarrow> [i]));
          glibc = list_ex names_glibc names;
          musl = list_ex names_musl names
      in if glibc then if musl then Conflicting else Glibc
         else if musl then Musl else Unknown)"

definition verdef_read :: "bytes \<Rightarrow> io_error + version_set" where
  "verdef_read file =
     tryE (object_open file) (\<lambda>ob.
     tryE (section_with_strings ob SHT_GNU_VERDEF) (\<lambda>found.
     case found of None \<Rightarrow> Inr {} | Some (defs, strings) \<Rightarrow> parse_verdef defs strings))"

definition read_needed :: "bytes \<Rightarrow> io_error + bytes list" where
  "read_needed file =
     tryE (object_open file) (\<lambda>ob.
     tryE (check_dynamic_coverage ob) (\<lambda>_.
     tryE (section_with_strings ob SHT_DYNAMIC) (\<lambda>found.
     case found of None \<Rightarrow> Inr []
     | Some (dyn, strings) \<Rightarrow>
         tryE (parse_dynamic dyn strings (l_class64 (ob_layout ob))) (\<lambda>d. Inr (dy_needed d)))))"

text \<open>The requirement section, read and checked against the dynamic table.\<close>

definition required_from :: "object \<Rightarrow> dynamic \<Rightarrow> bytes \<times> bytes
    \<Rightarrow> io_error + (bytes \<rightharpoonup> required_version list)" where
  "required_from ob dyn bs_strings =
     tryE (parse_verneed (fst bs_strings) (snd bs_strings) (dy_needed dyn)) (\<lambda>(versions, n).
     if \<exists>k \<in> set_option (dy_verneed_num dyn). k \<noteq> of_nat n
     then Inl (InvalidData ''dynamic version requirement count disagrees with section'')
     else
       tryE (find_section (ob_layout ob) (ob_table ob) SHT_GNU_VERNEED) (\<lambda>sec.
       let sec = the sec in
       if \<exists>a \<in> set_option (dy_verneed dyn). a \<noteq> sh_address sec
       then Inl (InvalidData ''dynamic version requirement address disagrees with section'')
       else if sh_info sec \<noteq> n
       then Inl (InvalidData ''version requirement section count disagrees with chain'')
       else Inr versions))"

definition read_facts :: "bytes option \<Rightarrow> bytes \<Rightarrow> io_error + elf_facts" where
  "read_facts file_name file =
     tryE (object_open file) (\<lambda>ob.
     tryE (check_dynamic_coverage ob) (\<lambda>_.
     tryE (section_with_strings ob SHT_DYNAMIC) (\<lambda>found_dynamic.
     tryE (case found_dynamic of
             Some (bs, strings) \<Rightarrow> parse_dynamic bs strings (l_class64 (ob_layout ob))
           | None \<Rightarrow> Inr dynamic_default) (\<lambda>dyn.
     tryE (section_with_strings ob SHT_GNU_VERDEF) (\<lambda>found_defs.
     tryE (case found_defs of
             Some (bs, strings) \<Rightarrow> parse_verdef bs strings
           | None \<Rightarrow> Inr {}) (\<lambda>defined.
     tryE (section_with_strings ob SHT_GNU_VERNEED) (\<lambda>requirements.
     if dy_verneed dyn \<noteq> None \<and> requirements = None
     then Inl (InvalidData ''dynamic version requirements have no section'')
     else
       tryE (case requirements of
               Some bs_strings \<Rightarrow> required_from ob dyn bs_strings
             | None \<Rightarrow>
                 if \<exists>k \<in> set_option (dy_verneed_num dyn). k \<noteq> 0
                 then Inl (InvalidData ''version requirement count has no section'')
                 else Inr Map.empty) (\<lambda>required.
       tryE (object_interpreter ob) (\<lambda>interp.
       let family = infer_libc (dy_needed dyn) interp in
       tryE (ok_or (InvalidData ''inspected basename is not UTF-8'')
               (bind_opt file_name from_utf8)) (\<lambda>basename.
       if length basename > MAX_NAME
       then Inl (InvalidData ''inspected basename is too long'')
       else Inr \<lparr> ef_class = (if l_class64 (ob_layout ob) then Elf64 else Elf32),
                  ef_machine = l_machine (ob_layout ob), ef_soname = dy_soname dyn,
                  ef_inspected_basename = basename, ef_needed = dy_needed dyn,
                  ef_defined_versions = defined, ef_required_versions = required,
                  ef_interpreter = interp, ef_libc_family = family \<rparr>))))))))))"

section \<open>Which copy is chosen\<close>

text \<open>
  The host copy is chosen only when it is strictly newer: it defines every version the
  bundled copy defines and at least one more. Equal sets choose the bundle, and copies that each
  define something the other lacks are incomparable.
\<close>

theorem compare_exact:
  "(compare b h = Host \<longleftrightarrow> b \<subset> h) \<and> (compare b h = Bundle \<longleftrightarrow> h \<subseteq> b)
   \<and> (compare b h = Incomparable \<longleftrightarrow> \<not> b \<subseteq> h \<and> \<not> h \<subseteq> b)"
  by (auto simp: compare_def)

section \<open>Auxiliary placement against its specification\<close>

lemma aux_placement_all:
  assumes "sorted_wrt (<) headers"
  shows "check_aux_placement headers header_len auxes aux_len = Inr () \<longleftrightarrow>
    (\<forall>a \<in> set auxes. \<forall>h \<in> set headers. h + header_len \<le> a \<or> a + aux_len \<le> h)"
proof -
  have "aux_placement headers header_len aux_len a = Inr () \<longleftrightarrow>
      (\<forall>h \<in> set headers. h + header_len \<le> a \<or> a + aux_len \<le> h)" for a
    using assms
  proof (induction headers)
    case Nil
    then show ?case by (simp add: aux_placement_def partition_point_def)
  next
    case (Cons h hs)
    show ?case
    proof (cases "h + header_len \<le> a")
      case True
      then show ?thesis using Cons
        by (simp add: aux_placement_def partition_point_def Let_def)
    next
      case False
      have "h < h'" if "h' \<in> set hs" for h' using Cons.prems that by simp
      then show ?thesis using False
        by (force simp: aux_placement_def partition_point_def)
    qed
  qed
  then show ?thesis by (simp add: check_aux_placement_def)
qed

text \<open>
  C21: The binary search for a header that overlaps an auxiliary entry misses none: on strictly
  ascending headers the check passes exactly when every auxiliary entry lies wholly before or
  wholly after every header.
\<close>

theorem check_aux_placement_exact:
  assumes "sorted_wrt (<) headers"
  shows "check_aux_placement headers header_len auxes aux_len = Inr () \<longleftrightarrow>
    (\<forall>a \<in> set auxes. \<forall>h \<in> set headers. h + header_len \<le> a \<or> a + aux_len \<le> h)"
  using assms by (rule aux_placement_all)

theorem check_aux_placement_exact_witness:
  "check_aux_placement [0, 28, 60] 20 [20, 48] 8 = Inr ()
   \<and> check_aux_placement [0, 28, 60] 20 [20, 24] 8 \<noteq> Inr ()"
proof -
  have "sorted_wrt (<) [0, 28, 60 :: nat]" by simp
  from check_aux_placement_exact [OF this] show ?thesis by simp
qed

section \<open>Version definitions against their format\<close>

text \<open>
  The format as a relation: a chain of auxiliary entries from a position, with the positions of
  the entries and the names they carry, and a chain of headers each with its auxiliary chain.
\<close>

inductive aux_chain :: "bytes \<Rightarrow> bytes \<Rightarrow> nat \<Rightarrow> nat list \<Rightarrow> bytes list \<Rightarrow> bool" for defs strings where
  last: "pos + 8 \<le> length defs \<Longrightarrow> e = slice pos (pos + 8) defs \<Longrightarrow>
    string_at strings (unat (u32_at e 0)) = Inr name \<Longrightarrow> u32_at e 4 = 0 \<Longrightarrow>
    aux_chain defs strings pos [pos] [name]"
| more: "pos + 8 \<le> length defs \<Longrightarrow> e = slice pos (pos + 8) defs \<Longrightarrow>
    string_at strings (unat (u32_at e 0)) = Inr name \<Longrightarrow> 8 \<le> unat (u32_at e 4) \<Longrightarrow>
    aux_chain defs strings (pos + unat (u32_at e 4)) ps ns \<Longrightarrow>
    aux_chain defs strings pos (pos # ps) (name # ns)"

inductive_cases aux_chainE: "aux_chain defs strings pos ps ns"

definition verdef_header :: "bytes \<Rightarrow> nat \<Rightarrow> nat \<Rightarrow> nat \<Rightarrow> bool" where
  "verdef_header defs pos cnt aux_delta \<longleftrightarrow>
     pos + 20 \<le> length defs
     \<and> (let e = slice pos (pos + 20) defs
        in u16_at e 0 = 1 \<and> cnt = unat (u16_at e 6) \<and> cnt > 0
           \<and> aux_delta = unat (u32_at e 12) \<and> 20 \<le> aux_delta)"

definition header_names :: "bytes \<Rightarrow> nat \<Rightarrow> bytes list \<Rightarrow> version_set" where
  "header_names defs pos ns =
     (if u16_at (slice pos (pos + 20) defs) 2 AND VER_FLG_BASE \<noteq> 0 then {} else {hd ns})"

inductive header_chain :: "bytes \<Rightarrow> bytes \<Rightarrow> nat \<Rightarrow> nat list \<Rightarrow> nat list \<Rightarrow> version_set \<Rightarrow> bool"
  for defs strings where
  last: "verdef_header defs pos (length ps) aux_delta \<Longrightarrow>
    aux_chain defs strings (pos + aux_delta) ps ns \<Longrightarrow>
    u32_at (slice pos (pos + 20) defs) 16 = 0 \<Longrightarrow>
    header_chain defs strings pos [pos] ps (header_names defs pos ns)"
| more: "verdef_header defs pos (length ps) aux_delta \<Longrightarrow>
    aux_chain defs strings (pos + aux_delta) ps ns \<Longrightarrow>
    delta = unat (u32_at (slice pos (pos + 20) defs) 16) \<Longrightarrow> 20 \<le> delta \<Longrightarrow>
    header_chain defs strings (pos + delta) hs as vs \<Longrightarrow>
    header_chain defs strings pos (pos # hs) (ps @ as) (header_names defs pos ns \<union> vs)"

inductive_cases header_chainE: "header_chain defs strings pos hs as vs"

lemma elf_record_Inr:
  "length bs \<le> usize_max \<Longrightarrow>
     elf_record bs pos len = Inr r \<longleftrightarrow> pos + len \<le> length bs \<and> r = slice pos (pos + len) bs"
  by (auto simp: elf_record_def tryE_Inr_iff checked_add_Some_iff get_slice_Some_iff)

lemma chain_advance_Inr:
  "chain_advance pos delta minimum = Inr p \<longleftrightarrow>
     minimum \<le> delta \<and> p = pos + delta \<and> pos + delta \<le> usize_max"
  by (auto simp: chain_advance_def checked_add_Some_iff)

lemma aux_chain_head: "aux_chain defs strings pos ps ns \<Longrightarrow> ps \<noteq> [] \<and> ns \<noteq> [] \<and> pos \<le> length defs"
  by (induction rule: aux_chain.induct) auto

lemma header_chain_head:
  "header_chain defs strings pos hs as vs \<Longrightarrow>
     hs \<noteq> [] \<and> pos + 20 \<le> length defs \<and> (\<forall>h \<in> set hs. pos \<le> h) \<and> sorted_wrt (<) hs"
proof (induction rule: header_chain.induct)
  case (last pos ps aux_delta ns)
  then show ?case by (simp add: verdef_header_def)
next
  case (more pos ps aux_delta ns delta hs as vs)
  then have "\<forall>h \<in> set hs. pos < h" by auto
  with more show ?case by (auto simp: verdef_header_def)
qed

lemma verdef_auxes_0:
  assumes "length defs \<le> usize_max"
  shows "verdef_auxes defs strings base first (Suc 0) pos auxes out = Inr (auxes', out') \<longleftrightarrow>
    (\<exists>name. pos + 8 \<le> length defs
       \<and> string_at strings (unat (u32_at (slice pos (pos + 8) defs) 0)) = Inr name
       \<and> u32_at (slice pos (pos + 8) defs) 4 = 0 \<and> auxes' = auxes @ [pos]
       \<and> out' = (if first \<and> \<not> base then insert name out else out))"
  by (auto simp: tryE_Inr_iff elf_record_Inr [OF assms] VERDAUX_ENTRY_def Let_def unat_eq_0)

lemma verdef_auxes_Suc:
  assumes "length defs \<le> usize_max"
  shows "verdef_auxes defs strings base first (Suc (Suc n)) pos auxes out = Inr r \<longleftrightarrow>
    (\<exists>name. pos + 8 \<le> length defs
       \<and> string_at strings (unat (u32_at (slice pos (pos + 8) defs) 0)) = Inr name
       \<and> 8 \<le> unat (u32_at (slice pos (pos + 8) defs) 4)
       \<and> pos + unat (u32_at (slice pos (pos + 8) defs) 4) \<le> usize_max
       \<and> verdef_auxes defs strings base False (Suc n)
           (pos + unat (u32_at (slice pos (pos + 8) defs) 4)) (auxes @ [pos])
           (if first \<and> \<not> base then insert name out else out) = Inr r)"
  unfolding verdef_auxes.simps(2) [of defs strings base first "Suc n"]
  by (auto simp: tryE_Inr_iff elf_record_Inr [OF assms] VERDAUX_ENTRY_def Let_def
      chain_advance_Inr simp del: verdef_auxes.simps)

lemma verdef_auxes_Inr:
  assumes "length defs \<le> usize_max"
  shows "verdef_auxes defs strings base first (Suc n) pos auxes out = Inr (auxes', out') \<longleftrightarrow>
    (\<exists>ps ns. aux_chain defs strings pos ps ns \<and> length ps = Suc n \<and> auxes' = auxes @ ps
       \<and> out' = (if first \<and> \<not> base then insert (hd ns) out else out))"
proof (induction n arbitrary: first pos auxes out)
  case 0
  have ne: "\<not> aux_chain defs strings p [] ns" for p ns
    using aux_chain_head by blast
  show ?case (is "?l \<longleftrightarrow> ?r")
  proof
    assume ?l
    then obtain name where "aux_chain defs strings pos [pos] [name]" "auxes' = auxes @ [pos]"
      "out' = (if first \<and> \<not> base then insert name out else out)"
      unfolding verdef_auxes_0 [OF assms] by (auto intro: aux_chain.last [OF _ refl])
    then show ?r by (intro exI [of _ "[pos]"] exI [of _ "[name]"]) simp
  next
    assume ?r
    then obtain ps ns where c: "aux_chain defs strings pos ps ns" "length ps = 1"
      "auxes' = auxes @ ps" "out' = (if first \<and> \<not> base then insert (hd ns) out else out)"
      by auto
    from c(1) show ?l
    proof cases
      case (last e name)
      then show ?thesis unfolding verdef_auxes_0 [OF assms] c(3,4)
        by (intro exI [of _ name]) simp
    next
      case (more e name qs ms)
      then have "qs = []" using c(2) by simp
      then show ?thesis using ne more by blast
    qed
  qed
next
  case (Suc n)
  show ?case (is "?l \<longleftrightarrow> ?r")
  proof
    assume ?l
    then obtain name ps ns where m: "pos + 8 \<le> length defs"
      "string_at strings (unat (u32_at (slice pos (pos + 8) defs) 0)) = Inr name"
      "8 \<le> unat (u32_at (slice pos (pos + 8) defs) 4)"
      "aux_chain defs strings (pos + unat (u32_at (slice pos (pos + 8) defs) 4)) ps ns"
      "length ps = Suc n" "auxes' = auxes @ pos # ps"
      "out' = (if first \<and> \<not> base then insert name out else out)"
      unfolding verdef_auxes_Suc [OF assms] Suc.IH by auto
    have "aux_chain defs strings pos (pos # ps) (name # ns)"
      by (rule aux_chain.more [OF m(1) refl m(2,3,4)])
    then show ?r by (intro exI [of _ "pos # ps"] exI [of _ "name # ns"]) (simp add: m)
  next
    assume ?r
    then obtain ps ns where c: "aux_chain defs strings pos ps ns" "length ps = Suc (Suc n)"
      "auxes' = auxes @ ps" "out' = (if first \<and> \<not> base then insert (hd ns) out else out)"
      by blast
    from c(1,2) obtain name qs ms where m: "pos + 8 \<le> length defs"
      "string_at strings (unat (u32_at (slice pos (pos + 8) defs) 0)) = Inr name"
      "8 \<le> unat (u32_at (slice pos (pos + 8) defs) 4)"
      "aux_chain defs strings (pos + unat (u32_at (slice pos (pos + 8) defs) 4)) qs ms"
      "ps = pos # qs" "ns = name # ms"
      by (cases rule: aux_chain.cases) auto
    have "pos + unat (u32_at (slice pos (pos + 8) defs) 4) \<le> usize_max"
      using aux_chain_head [OF m(4)] assms by simp
    then show ?l unfolding verdef_auxes_Suc [OF assms] Suc.IH
      using c m by (intro exI [of _ name] conjI exI [of _ qs] exI [of _ ms]) simp_all
  qed
qed

lemma verdef_headers_Suc:
  assumes "length defs \<le> usize_max"
  shows "verdef_headers defs strings (Suc rounds) pos tot headers auxes out = Inr out' \<longleftrightarrow>
    (\<exists>ps aux_delta ns out1 auxes1. verdef_header defs pos (length ps) aux_delta
       \<and> tot + length ps \<le> MAX_RECORDS
       \<and> aux_chain defs strings (pos + aux_delta) ps ns
       \<and> auxes1 = auxes @ ps \<and> out1 = out \<union> header_names defs pos ns
       \<and> (let d = unat (u32_at (slice pos (pos + 20) defs) 16) in
          if d = 0
          then check_aux_placement (headers @ [pos]) 20 auxes1 8 = Inr () \<and> out' = out1
          else 20 \<le> d \<and> pos + d \<le> usize_max
            \<and> verdef_headers defs strings rounds (pos + d) (tot + length ps)
                (headers @ [pos]) auxes1 out1 = Inr out'))"
  (is "?l \<longleftrightarrow> ?r")
proof
  let ?e = "slice pos (pos + 20) defs"
  let ?n = "unat (u16_at ?e 6)" and ?d = "unat (u32_at ?e 16)"
  let ?a = "pos + unat (u32_at ?e 12)"
  assume ?l
  then obtain auxes1 out1 where m: "pos + 20 \<le> length defs" "u16_at ?e 0 = 1" "?n \<noteq> 0"
    "tot + ?n \<le> MAX_RECORDS" "20 \<le> unat (u32_at ?e 12)"
    and aux: "verdef_auxes defs strings (u16_at ?e 2 AND VER_FLG_BASE \<noteq> 0) True ?n ?a auxes out
      = Inr (auxes1, out1)"
    and rest: "if ?d = 0
       then check_aux_placement (headers @ [pos]) 20 auxes1 8 = Inr () \<and> out' = out1
       else 20 \<le> ?d \<and> pos + ?d \<le> usize_max
         \<and> verdef_headers defs strings rounds (pos + ?d) (tot + ?n)
             (headers @ [pos]) auxes1 out1 = Inr out'"
    by (auto simp: tryE_Inr_iff elf_record_Inr [OF assms] VERDEF_ENTRY_def VERDAUX_ENTRY_def
        Let_def chain_advance_Inr simp del: verdef_auxes.simps verdef_headers.simps(1)
        split: if_splits)
  obtain k where k: "?n = Suc k" using m(3) not0_implies_Suc by blast
  from aux obtain ps ns where c: "aux_chain defs strings ?a ps ns" "length ps = ?n"
    "auxes1 = auxes @ ps" "out1 = out \<union> header_names defs pos ns"
    unfolding k verdef_auxes_Inr [OF assms] by (auto simp: header_names_def)
  show ?r
    by (rule exI [of _ ps], rule exI [of _ "unat (u32_at ?e 12)"], rule exI [of _ ns],
        rule exI [of _ out1], rule exI [of _ auxes1])
      (use m c rest in \<open>auto simp: verdef_header_def Let_def split: if_splits\<close>)
next
  let ?e = "slice pos (pos + 20) defs"
  let ?d = "unat (u32_at ?e 16)"
  assume ?r
  then obtain ps aux_delta ns where m: "verdef_header defs pos (length ps) aux_delta"
    "tot + length ps \<le> MAX_RECORDS" "aux_chain defs strings (pos + aux_delta) ps ns"
    and rest: "if ?d = 0
       then check_aux_placement (headers @ [pos]) 20 (auxes @ ps) 8 = Inr ()
         \<and> out' = out \<union> header_names defs pos ns
       else 20 \<le> ?d \<and> pos + ?d \<le> usize_max
         \<and> verdef_headers defs strings rounds (pos + ?d) (tot + length ps)
             (headers @ [pos]) (auxes @ ps) (out \<union> header_names defs pos ns) = Inr out'"
    by (auto simp: Let_def)
  obtain k where k: "length ps = Suc k"
    using aux_chain_head [OF m(3)] by (cases ps) auto
  have "verdef_auxes defs strings (u16_at ?e 2 AND VER_FLG_BASE \<noteq> 0) True (length ps)
      (pos + aux_delta) auxes out = Inr (auxes @ ps, out \<union> header_names defs pos ns)"
    unfolding k verdef_auxes_Inr [OF assms]
    using m(3) k by (intro exI [of _ ps] exI [of _ ns]) (auto simp: header_names_def)
  moreover have "pos + aux_delta \<le> usize_max"
    using aux_chain_head [OF m(3)] assms by simp
  ultimately show ?l
    using m(1,2) rest
    by (simp add: tryE_Inr_iff elf_record_Inr [OF assms] VERDEF_ENTRY_def VERDAUX_ENTRY_def
        Let_def chain_advance_Inr verdef_header_def
        del: verdef_auxes.simps verdef_headers.simps(1) length_greater_0_conv split: if_splits)
qed

lemma verdef_headers_Inr:
  assumes "length defs \<le> usize_max"
  shows "verdef_headers defs strings rounds pos tot headers auxes out = Inr out' \<longleftrightarrow>
    (\<exists>hs as vs. header_chain defs strings pos hs as vs \<and> length hs \<le> rounds
       \<and> tot + length as \<le> MAX_RECORDS
       \<and> check_aux_placement (headers @ hs) 20 (auxes @ as) 8 = Inr () \<and> out' = out \<union> vs)"
proof (induction rounds arbitrary: pos tot headers auxes out)
  case 0
  show ?case using header_chain_head by fastforce
next
  case (Suc rounds)
  show ?case (is "?l \<longleftrightarrow> ?r")
  proof
    let ?d = "unat (u32_at (slice pos (pos + 20) defs) 16)"
    assume ?l
    then obtain ps aux_delta ns where m: "verdef_header defs pos (length ps) aux_delta"
      "tot + length ps \<le> MAX_RECORDS" "aux_chain defs strings (pos + aux_delta) ps ns"
      and rest: "if ?d = 0
         then check_aux_placement (headers @ [pos]) 20 (auxes @ ps) 8 = Inr ()
           \<and> out' = out \<union> header_names defs pos ns
         else 20 \<le> ?d \<and> pos + ?d \<le> usize_max
           \<and> verdef_headers defs strings rounds (pos + ?d) (tot + length ps)
               (headers @ [pos]) (auxes @ ps) (out \<union> header_names defs pos ns) = Inr out'"
      unfolding verdef_headers_Suc [OF assms] by (auto simp: Let_def)
    show ?r
    proof (cases "?d = 0")
      case True
      then have "header_chain defs strings pos [pos] ps (header_names defs pos ns)"
        using m by (intro header_chain.last) (auto simp: unat_eq_0)
      then show ?thesis using rest True m(2)
        by (intro exI [of _ "[pos]"] exI [of _ ps] exI [of _ "header_names defs pos ns"]) auto
    next
      case False
      with rest obtain hs as vs where r: "20 \<le> ?d" "header_chain defs strings (pos + ?d) hs as vs"
        "length hs \<le> rounds" "tot + length ps + length as \<le> MAX_RECORDS"
        "check_aux_placement ((headers @ [pos]) @ hs) 20 ((auxes @ ps) @ as) 8 = Inr ()"
        "out' = out \<union> header_names defs pos ns \<union> vs"
        unfolding Suc.IH by auto
      have "header_chain defs strings pos (pos # hs) (ps @ as) (header_names defs pos ns \<union> vs)"
        by (rule header_chain.more [OF m(1,3) refl r(1,2)])
      then show ?thesis using r
        by (intro exI [of _ "pos # hs"] exI [of _ "ps @ as"]
            exI [of _ "header_names defs pos ns \<union> vs"]) auto
    qed
  next
    assume ?r
    then obtain hs as vs where c: "header_chain defs strings pos hs as vs"
      "length hs \<le> Suc rounds" "tot + length as \<le> MAX_RECORDS"
      "check_aux_placement (headers @ hs) 20 (auxes @ as) 8 = Inr ()" "out' = out \<union> vs"
      by blast
    from c(1) show ?l
    proof cases
      case (last aux_delta ns)
      then show ?thesis unfolding verdef_headers_Suc [OF assms]
        using c by (auto simp: Let_def)
    next
      case (more ps aux_delta ns delta hs' as' vs')
      have b: "pos + delta \<le> usize_max"
        using header_chain_head [OF more(8)] assms by simp
      have "verdef_headers defs strings rounds (pos + delta) (tot + length ps)
          (headers @ [pos]) (auxes @ ps) (out \<union> header_names defs pos ns) = Inr out'"
        unfolding Suc.IH using more(2,8) c
        by (intro exI [of _ hs'] exI [of _ as'] exI [of _ vs'])
          (simp add: more(1,3) Un_assoc [symmetric] \<open>vs = _\<close> \<open>as = _\<close>)
      with b show ?thesis unfolding verdef_headers_Suc [OF assms]
        using more c
        by - (rule exI [of _ ps], rule exI [of _ aux_delta], rule exI [of _ ns],
            auto simp: Let_def)
    qed
  qed
qed

text \<open>
  C19: A version definition section is accepted exactly when it is empty or a well-formed chain
  from offset 0: every header of format 1 with its promised number of auxiliary entries, all of
  them inside the section and clear of every header, at most 4096 in all. The set returned is
  the first name of every header without the base flag.
\<close>

theorem parse_verdef_exact:
  assumes "length defs \<le> usize_max"
  shows "parse_verdef defs strings = Inr vs \<longleftrightarrow>
    (if defs = [] then vs = {}
     else \<exists>hs as. header_chain defs strings 0 hs as vs \<and> length hs \<le> 4096 \<and> length as \<le> 4096
       \<and> (\<forall>a \<in> set as. \<forall>h \<in> set hs. h + 20 \<le> a \<or> a + 8 \<le> h))"
proof -
  have "check_aux_placement hs 20 as 8 = Inr () \<longleftrightarrow>
      (\<forall>a \<in> set as. \<forall>h \<in> set hs. h + 20 \<le> a \<or> a + 8 \<le> h)"
    if "header_chain defs strings 0 hs as vs" for hs as vs
    using header_chain_head [OF that] aux_placement_all by blast
  then have "(header_chain defs strings 0 hs as vs \<and> length hs \<le> 4096 \<and> length as \<le> 4096
      \<and> check_aux_placement hs 20 as 8 = Inr ()) \<longleftrightarrow>
     (header_chain defs strings 0 hs as vs \<and> length hs \<le> 4096 \<and> length as \<le> 4096
      \<and> (\<forall>a \<in> set as. \<forall>h \<in> set hs. h + 20 \<le> a \<or> a + 8 \<le> h))" for hs as
    by blast
  then show ?thesis
    by (auto simp: parse_verdef_def verdef_headers_Inr [OF assms] MAX_RECORDS_def)
qed

text \<open>A header at 0 with one auxiliary entry at 20, and a base header before one with two.\<close>

definition sample_defs :: bytes where
  "sample_defs = [1,0, 0,0, 1,0, 1,0, 0,0,0,0, 20,0,0,0, 0,0,0,0] @ [1,0,0,0, 0,0,0,0]"

definition sample_names :: bytes where "sample_names = 0 # lit ''V1'' @ [0]"

lemma sample_string: "string_at sample_names 1 = Inr (lit ''V1'')"
  by (simp add: string_at_def sample_names_def MAX_NAME_def Let_def lit_def utf8.simps(2))

lemma sample_chain:
  "header_chain sample_defs sample_names 0 [0] [20]
     (header_names sample_defs 0 [lit ''V1''])"
proof (rule header_chain.last)
  show "verdef_header sample_defs 0 (length [20 :: nat]) 20"
    by (simp add: verdef_header_def sample_defs_def slice_def u16_at_def u32_at_def Let_def)
  show "aux_chain sample_defs sample_names (0 + 20) [20] [lit ''V1'']"
    using aux_chain.last [OF _ refl, of 20 sample_defs sample_names] sample_string
    by (simp add: sample_defs_def slice_def u32_at_def)
qed (simp add: sample_defs_def slice_def u32_at_def)

theorem parse_verdef_exact_witness:
  "parse_verdef sample_defs sample_names = Inr {lit ''V1''}"
proof -
  have "length sample_defs \<le> usize_max" by (simp add: sample_defs_def usize_max_def)
  note ex = parse_verdef_exact [OF this]
  have "header_names sample_defs 0 [lit ''V1''] = {lit ''V1''}"
    by (simp add: header_names_def sample_defs_def slice_def u16_at_def)
  with sample_chain have "\<exists>hs as. header_chain sample_defs sample_names 0 hs as {lit ''V1''}
      \<and> length hs \<le> 4096 \<and> length as \<le> 4096
      \<and> (\<forall>a \<in> set as. \<forall>h \<in> set hs. h + 20 \<le> a \<or> a + 8 \<le> h)"
    by (intro exI [of _ "[0]"] exI [of _ "[20]"]) simp
  moreover have "sample_defs \<noteq> []" by (simp add: sample_defs_def)
  ultimately show ?thesis unfolding ex by simp
qed

section \<open>The dynamic section against its specification\<close>

definition entry_tag :: "bool \<Rightarrow> bytes \<Rightarrow> u64" where
  "entry_tag class64 entry = (if class64 then u64_at entry 0 else ucast (u32_at entry 0))"

definition entry_val :: "bool \<Rightarrow> bytes \<Rightarrow> u64" where
  "entry_val class64 entry = (if class64 then u64_at entry 8 else ucast (u32_at entry 4))"

text \<open>The entries before the first terminator, and those of them with a tag.\<close>

definition live_entries :: "bool \<Rightarrow> bytes list \<Rightarrow> bytes list" where
  "live_entries class64 entries = takeWhile (\<lambda>e. entry_tag class64 e \<noteq> DT_NULL) entries"

definition tagged :: "bool \<Rightarrow> bytes list \<Rightarrow> u64 \<Rightarrow> u64 list" where
  "tagged class64 entries t =
     map (entry_val class64) (filter (\<lambda>e. entry_tag class64 e = t) (live_entries class64 entries))"

lemma live_entries_Cons:
  "live_entries c (e # es) = (if entry_tag c e = DT_NULL then [] else e # live_entries c es)"
  by (simp add: live_entries_def)

lemma dynamic_tags [simp]:
  "DT_NEEDED \<noteq> DT_NULL" "DT_SONAME \<noteq> DT_NULL" "DT_NEEDED \<noteq> DT_SONAME" "DT_SONAME \<noteq> DT_NEEDED"
  by (simp_all add: DT_NEEDED_def DT_NULL_def DT_SONAME_def)

lemma dynamic_entry_needed:
  "dynamic_entry strings c e out = Inr (Some out') \<Longrightarrow> entry_tag c e \<noteq> DT_NULL \<and>
     (if entry_tag c e = DT_NEEDED
      then \<exists>name. string_at strings (unat (entry_val c e)) = Inr name \<and> name \<noteq> []
        \<and> dy_needed out' = dy_needed out @ [name]
      else dy_needed out' = dy_needed out)"
  by (auto simp: dynamic_entry_def entry_tag_def [symmetric] entry_val_def [symmetric] Let_def
      tryE_Inr_iff split: if_splits)

lemma dynamic_entry_soname:
  "dynamic_entry strings c e out = Inr (Some out') \<Longrightarrow>
     (if entry_tag c e = DT_SONAME
      then dy_soname out = None \<and> (\<exists>name. string_at strings (unat (entry_val c e)) = Inr name
        \<and> name \<noteq> [] \<and> dy_soname out' = Some name)
      else dy_soname out' = dy_soname out)"
  by (auto simp: dynamic_entry_def entry_tag_def [symmetric] entry_val_def [symmetric] Let_def
      tryE_Inr_iff split: if_splits)

lemma dynamic_entry_null:
  "dynamic_entry strings c e out = Inr None \<Longrightarrow> entry_tag c e = DT_NULL"
  by (auto simp: dynamic_entry_def entry_tag_def [symmetric] entry_val_def [symmetric] Let_def
      tryE_Inr_iff split: if_splits)

lemma dynamic_entries_needed:
  "dynamic_entries strings c i es out = Inr d \<Longrightarrow>
     \<exists>names. dy_needed d = dy_needed out @ names
       \<and> list_all2 (\<lambda>v name. string_at strings (unat v) = Inr name \<and> name \<noteq> [])
           (tagged c es DT_NEEDED) names"
proof (induction es arbitrary: i out)
  case (Cons e es)
  from Cons.prems obtain r where r: "dynamic_entry strings c e out = Inr r"
    and rest: "case r of None \<Rightarrow> d = out | Some out' \<Rightarrow> dynamic_entries strings c (Suc i) es out' = Inr d"
    by (auto simp: tryE_Inr_iff split: if_splits option.splits)
  show ?case
  proof (cases r)
    case None
    then show ?thesis using r rest dynamic_entry_null
      by (auto simp: tagged_def live_entries_Cons)
  next
    case (Some out')
    with rest have "dynamic_entries strings c (Suc i) es out' = Inr d" by simp
    from Cons.IH [OF this] obtain names where n: "dy_needed d = dy_needed out' @ names"
      "list_all2 (\<lambda>v name. string_at strings (unat v) = Inr name \<and> name \<noteq> [])
         (tagged c es DT_NEEDED) names" by blast
    show ?thesis
    proof (cases "entry_tag c e = DT_NEEDED")
      case True
      with dynamic_entry_needed [OF r [unfolded Some]] obtain name where
        "string_at strings (unat (entry_val c e)) = Inr name" "name \<noteq> []"
        "dy_needed out' = dy_needed out @ [name]" by auto
      then show ?thesis using n True
        by (intro exI [of _ "name # names"]) (simp add: tagged_def live_entries_Cons)
    next
      case False
      with dynamic_entry_needed [OF r [unfolded Some]] n show ?thesis
        by (intro exI [of _ names]) (simp add: tagged_def live_entries_Cons)
    qed
  qed
qed simp

text \<open>
  The dependency list of an accepted dynamic section is, in order, the name of every
  \<open>DT_NEEDED\<close> entry before the first terminator and of nothing after it; none is empty.
\<close>

theorem parse_dynamic_needed:
  assumes "parse_dynamic dyn strings class64 = Inr d"
  shows "list_all2 (\<lambda>v name. string_at strings (unat v) = Inr name \<and> name \<noteq> [])
    (tagged class64 (chunks_exact (if class64 then 16 else 8) dyn) DT_NEEDED) (dy_needed d)"
proof -
  have "dynamic_entries strings class64 0 (chunks_exact (if class64 then 16 else 8) dyn)
      dynamic_default = Inr d"
    using assms by (simp add: parse_dynamic_def Let_def del: dynamic_entries.simps split: if_splits)
  from dynamic_entries_needed [OF this] show ?thesis by (simp add: dynamic_default_def)
qed

text \<open>Two dependencies around an entry that is ignored, and one after the terminator.\<close>

definition sample_dynamic :: bytes where
  "sample_dynamic = [1,0,0,0, 1,0,0,0] @ [7,0,0,0, 9,0,0,0] @ [1,0,0,0, 2,0,0,0]
     @ [0,0,0,0, 0,0,0,0] @ [1,0,0,0, 1,0,0,0]"

lemma sample_string_2: "string_at sample_names 2 = Inr (lit ''1'')"
  by (simp add: string_at_def sample_names_def MAX_NAME_def Let_def lit_def utf8.simps(2))

lemma sample_chunks: "chunks_exact 8 sample_dynamic = [[1,0,0,0, 1,0,0,0], [7,0,0,0, 9,0,0,0],
    [1,0,0,0, 2,0,0,0], [0,0,0,0, 0,0,0,0], [1,0,0,0, 1,0,0,0]]"
  by (simp add: sample_dynamic_def chunks_exact.simps)

theorem parse_dynamic_needed_witness:
  "\<exists>d. parse_dynamic sample_dynamic sample_names False = Inr d
     \<and> tagged False (chunks_exact 8 sample_dynamic) DT_NEEDED = [1, 2]
     \<and> list_all2 (\<lambda>v name. string_at sample_names (unat v) = Inr name \<and> name \<noteq> []) [1 :: u64, 2] (dy_needed d)"
proof -
  define d where "d = dynamic_default\<lparr> dy_needed := [lit ''V1'', lit ''1''] \<rparr>"
  have p: "parse_dynamic sample_dynamic sample_names False = Inr d"
    using sample_string sample_string_2
    by (simp add: parse_dynamic_def sample_chunks dynamic_entry_def slice_def u32_at_def d_def
        dynamic_default_def MAX_RECORDS_def DT_NULL_def DT_NEEDED_def DT_SONAME_def DT_VERNEED_def
        DT_VERNEEDNUM_def) (simp add: sample_dynamic_def)
  have t: "tagged False (chunks_exact 8 sample_dynamic) DT_NEEDED = [1, 2]"
    by (simp add: sample_chunks tagged_def live_entries_def entry_tag_def entry_val_def slice_def
        u32_at_def DT_NULL_def DT_NEEDED_def)
  show ?thesis using parse_dynamic_needed [OF p] p t by auto
qed

section \<open>Version requirements against the dependencies\<close>

lemma verneed_auxes_Suc:
  "verneed_auxes bs strings (Suc n) aux_at auxes versions = Inr (auxes', versions') \<Longrightarrow>
     \<exists>v. rv_name v \<noteq> [] \<and> (n = 0 \<and> versions' = versions @ [v]
        \<or> (\<exists>aux_at'. verneed_auxes bs strings n aux_at' (auxes @ [aux_at]) (versions @ [v])
             = Inr (auxes', versions')))"
  by (auto simp: verneed_auxes.simps(2) [of bs strings n] tryE_Inr_iff Let_def
      simp del: verneed_auxes.simps split: if_splits) (metis required_version.select_convs(1))+

lemma verneed_auxes_Inr:
  "verneed_auxes bs strings n aux_at auxes versions = Inr (auxes', versions') \<Longrightarrow>
     \<exists>new. versions' = versions @ new \<and> length new = n \<and> (\<forall>v \<in> set new. rv_name v \<noteq> [])"
proof (induction n arbitrary: aux_at auxes versions)
  case (Suc n)
  from verneed_auxes_Suc [OF Suc.prems] obtain v where v: "rv_name v \<noteq> []"
    and r: "n = 0 \<and> versions' = versions @ [v]
      \<or> (\<exists>aux_at'. verneed_auxes bs strings n aux_at' (auxes @ [aux_at]) (versions @ [v])
           = Inr (auxes', versions'))" by blast
  from r show ?case
  proof
    assume "n = 0 \<and> versions' = versions @ [v]"
    then show ?thesis using v by (intro exI [of _ "[v]"]) simp
  next
    assume "\<exists>aux_at'. verneed_auxes bs strings n aux_at' (auxes @ [aux_at]) (versions @ [v])
        = Inr (auxes', versions')"
    then obtain new where "versions' = (versions @ [v]) @ new" "length new = n"
      "\<forall>v \<in> set new. rv_name v \<noteq> []" using Suc.IH by blast
    then show ?thesis using v by (intro exI [of _ "v # new"]) simp
  qed
qed simp

definition required_wf :: "bytes list \<Rightarrow> (bytes \<rightharpoonup> required_version list) \<Rightarrow> bool" where
  "required_wf needed m \<longleftrightarrow>
     (\<forall>k vs. m k = Some vs \<longrightarrow> k \<in> set needed \<and> vs \<noteq> [] \<and> (\<forall>v \<in> set vs. rv_name v \<noteq> []))"

lemma verneed_headers_wf:
  "verneed_headers bs strings needed rounds n pos tot headers auxes out = Inr (m, k) \<Longrightarrow>
     required_wf needed out \<Longrightarrow> required_wf needed m"
proof (induction rounds arbitrary: n pos tot headers auxes out)
  case (Suc rounds)
  from Suc.prems(1) obtain name cnt aux_at auxes' versions where
    name: "name \<in> set needed" and cnt: "cnt > 0"
    and aux: "verneed_auxes bs strings cnt aux_at auxes (entry_or_empty out name) = Inr (auxes', versions)"
    and rest: "m = out(name \<mapsto> versions) \<or> (\<exists>n' pos' tot' headers'.
      verneed_headers bs strings needed rounds n' pos' tot' headers' auxes' (out(name \<mapsto> versions))
        = Inr (m, k))"
    by (auto simp: tryE_Inr_iff Let_def simp del: verneed_auxes.simps split: if_splits prod.splits)
      blast+
  have "\<forall>v \<in> set (entry_or_empty out name). rv_name v \<noteq> []"
    using Suc.prems(2) by (cases "out name") (auto simp: entry_or_empty_def required_wf_def)
  moreover obtain new where "versions = entry_or_empty out name @ new" "length new = cnt"
    "\<forall>v \<in> set new. rv_name v \<noteq> []" using verneed_auxes_Inr [OF aux] by blast
  ultimately have "versions \<noteq> []" "\<forall>v \<in> set versions. rv_name v \<noteq> []"
    using cnt by auto
  with Suc.prems(2) name have "required_wf needed (out(name \<mapsto> versions))"
    by (auto simp: required_wf_def)
  with rest Suc.IH show ?case by blast
qed simp

lemma parse_verneed_required:
  "parse_verneed bs strings needed = Inr (m, n) \<Longrightarrow> required_wf needed m"
  by (auto simp: parse_verneed_def required_wf_def [of _ Map.empty] dest: verneed_headers_wf
      simp del: verneed_headers.simps split: if_splits)

text \<open>
  C20: Every requirement an accepted requirement section yields names a dependency of the object,
  and carries at least one version, none with an empty name.
\<close>

theorem parse_verneed_wf:
  "parse_verneed bs strings needed = Inr (m, n) \<Longrightarrow> required_wf needed m"
  by (rule parse_verneed_required)

definition sample_verneed :: bytes where
  "sample_verneed = [1,0, 1,0, 2,0,0,0, 16,0,0,0, 0,0,0,0] @ [0,0,0,0, 2,0, 0,0, 1,0,0,0, 0,0,0,0]"

theorem parse_verneed_wf_witness:
  "\<exists>m. parse_verneed sample_verneed sample_names [lit ''1''] = Inr (m, 1)
     \<and> m (lit ''1'') = Some [\<lparr> rv_name = lit ''V1'', rv_flags = 2 \<rparr>]
     \<and> required_wf [lit ''1''] m"
proof -
  define m where "m = [lit ''1'' \<mapsto> [\<lparr> rv_name = lit ''V1'', rv_flags = 2 \<rparr>]]"
  have r: "MAX_RECORDS = Suc 4095" by (simp add: MAX_RECORDS_def)
  have h: "elf_record sample_verneed 0 16 = Inr [1,0, 1,0, 2,0,0,0, 16,0,0,0, 0,0,0,0]"
    "elf_record sample_verneed 16 16 = Inr [0,0,0,0, 2,0, 0,0, 1,0,0,0, 0,0,0,0]"
    by (simp_all add: elf_record_def checked_add_def usize_max_def get_slice_def slice_def
        sample_verneed_def)
  have "sample_verneed \<noteq> []" by (simp add: sample_verneed_def)
  moreover have "verneed_headers sample_verneed sample_names [lit ''1''] (Suc n) 1 0 0 [] [] Map.empty
      = Inr (m, 1)" for n
    using sample_string sample_string_2
    by (simp add: h MAX_RECORDS_def u16_at_def u32_at_def slice_def m_def lit_def
        checked_add_def usize_max_def chain_advance_def entry_or_empty_def
        check_aux_placement_def aux_placement_def partition_point_def)
  ultimately have p: "parse_verneed sample_verneed sample_names [lit ''1''] = Inr (m, 1)"
    by (simp only: parse_verneed_def r if_False)
  show ?thesis using parse_verneed_wf [OF p] p by (auto simp: m_def)
qed

section \<open>The three readers agree\<close>


text \<open>A 64-bit object with no section and no program header.\<close>

definition bare_object :: bytes where
  "bare_object = [0x7F, 69, 76, 70, 2, 1, 1, 0] @ replicate 8 0 @ [3, 0, 62, 0] @ replicate 44 0"

lemma bare_object_header: "read_at bare_object 0 64 = Inr bare_object"
  "length bare_object = 64"
  by (simp_all add: read_at_def checked_add_u64_def bare_object_def slice_def)

lemma le_value_replicate_0 [simp]: "le_value (replicate n 0) = 0"
  by (induction n) simp_all

lemma bare_object_layout: "layout_parse bare_object = Inr \<lparr> l_class64 = True, l_machine = 62,
    l_shoff = 0, l_shentsize = 0, l_shnum = 0, l_phoff = 0, l_phentsize = 0, l_phnum = 0 \<rparr>"
  by (simp add: layout_parse_def bare_object_def lit_def slice_def Let_def
      u16_at_def u64_at_def)

lemma bare_object_open: "object_open bare_object = Inr \<lparr> ob_file = bare_object,
    ob_layout = \<lparr> l_class64 = True, l_machine = 62, l_shoff = 0, l_shentsize = 0, l_shnum = 0,
      l_phoff = 0, l_phentsize = 0, l_phnum = 0 \<rparr>, ob_table = [], ob_programs = [] \<rparr>"
  using bare_object_header
  by (simp add: object_open_def bare_object_layout bounded_table_def checked_mul_def
      read_at_def checked_add_u64_def slice_def)


end
