(* ===== verification/Loader.thy ===== *)
theory Loader
  imports Bounds Manifest_Paths
begin

text \<open>
  \<open>loader.rs\<close> and \<open>payload.rs\<close>: opening a package file, and reading payload blocks and entries back
  through its codec. A file is its bytes. The decompressors, the hashes and the stipplefs image
  reader are third-party code: the fields of \<open>lib\<close>, an argument of every definition that uses one.
\<close>

record 'r lib =
  zstd_bulk :: "bytes \<Rightarrow> nat \<Rightarrow> bytes + bytes"
  zstd_dict_take :: "bytes \<Rightarrow> bytes \<Rightarrow> nat \<Rightarrow> io_error + bytes"
  xxh32 :: "bytes \<Rightarrow> u32"
  xxh3_64 :: "bytes \<Rightarrow> u64"
  blake3 :: "bytes \<Rightarrow> bytes"
  image_reader :: "bytes \<Rightarrow> u64 \<Rightarrow> u64 \<Rightarrow> bytes + 'r"
  image_read :: "'r \<Rightarrow> u32 \<Rightarrow> u64 \<Rightarrow> nat \<Rightarrow> bytes + bytes"
  image_extents :: "'r \<Rightarrow> u32 \<Rightarrow> (u64 \<times> u64 \<times> u64) list"

text \<open>
  \<open>zstd_bulk buf capacity\<close> is the bulk decompressor, \<open>zstd_dict_take dict buf n\<close> the first \<open>n\<close> bytes
  of the streaming decoder with a dictionary, \<open>image_read r ino off n\<close> what one read of at most
  \<open>n\<close> bytes delivers. Their errors are texts.
\<close>

datatype 'r codec = Zstd "bytes option" | Stipple 'r

record 'r package_data =
  pd_footer :: footer
  pd_manifest :: manifest
  pd_file :: bytes
  pd_codec :: "'r codec"

text \<open>\<open>read_exact_at\<close>: all of the bytes or an error.\<close>

definition read_exact_at :: "bytes \<Rightarrow> u64 \<Rightarrow> nat \<Rightarrow> io_error + bytes" where
  "read_exact_at file offset n =
     (if n = 0 then Inr []
      else if unat offset + n \<le> length file then Inr (slice (unat offset) (unat offset + n) file)
      else Inl UnexpectedEof)"

section \<open>Codecs\<close>

definition stipple_error :: "bytes \<Rightarrow> io_error" where
  "stipple_error e = InvalidDataAt ''stipplefs: '' e"

definition codec_open :: "'r lib \<Rightarrow> bytes \<Rightarrow> footer \<Rightarrow> io_error + 'r codec" where
  "codec_open lib file f =
     (if is_stipple f then
        tryE (map_err stipple_error (image_reader lib file (f_payload_offset f) (f_payload_size f)))
          (\<lambda>reader. Inr (Stipple reader))
      else if \<not> flags_contains (f_flags f) HAS_DICT \<or> f_dict_size f = 0 then Inr (Zstd None)
      else
        tryE (read_exact_at file (f_dict_offset f) (unat (f_dict_size f))) (\<lambda>dict.
        Inr (Zstd (Some dict))))"

definition is_stipple_codec :: "'r codec \<Rightarrow> bool" where
  "is_stipple_codec c \<longleftrightarrow> (case c of Stipple _ \<Rightarrow> True | Zstd _ \<Rightarrow> False)"

definition codec_dict :: "'r codec \<Rightarrow> bytes option" where
  "codec_dict c = (case c of Zstd dict \<Rightarrow> dict | Stipple _ \<Rightarrow> None)"

definition u32_try_from :: "u64 \<Rightarrow> u32 option" where
  "u32_try_from v = (if unat v < 2 ^ 32 then Some (ucast v) else None)"

definition read_slice :: "'r lib \<Rightarrow> 'r \<Rightarrow> block \<Rightarrow> io_error + bytes" where
  "read_slice lib reader b =
     tryE (ok_or (InvalidData ''a block names an inode outside the image'')
             (u32_try_from (b_compressed_size b))) (\<lambda>ino.
     tryE (block_original_size usize_max b) (\<lambda>n.
     tryE (map_err stipple_error (image_read lib reader ino (b_payload_offset b) n)) (\<lambda>buf.
     if length buf \<noteq> n
     then Inl (InvalidData ''a file in the image is shorter than the manifest says'')
     else Inr buf)))"

text \<open>The order to read the files in; the key of a file without a readable first extent is the largest.\<close>

definition first_stream_offset :: "'r lib \<Rightarrow> 'r \<Rightarrow> entry \<Rightarrow> u64" where
  "first_stream_offset lib reader e =
     (case e_blocks e of [] \<Rightarrow> - 1
      | b # _ \<Rightarrow>
          (case u32_try_from (b_compressed_size b) of None \<Rightarrow> - 1
           | Some ino \<Rightarrow>
               (case image_extents lib reader ino of [] \<Rightarrow> - 1 | (stream_off, _, _) # _ \<Rightarrow> stream_off)))"

definition file_order :: "'r lib \<Rightarrow> manifest \<Rightarrow> 'r codec \<Rightarrow> nat list" where
  "file_order lib m codec =
     (let files = filter (\<lambda>i. e_kind (m_entries m ! i) = File) [0..<length (m_entries m)]
      in case codec of
           Stipple reader \<Rightarrow> sort_key (\<lambda>i. first_stream_offset lib reader (m_entries m ! i)) files
         | Zstd _ \<Rightarrow> files)"

section \<open>Opening a package\<close>

definition load_file :: "'r lib \<Rightarrow> bytes \<Rightarrow> io_error + 'r package_data" where
  "load_file lib file =
     (if length file < FOOTER_SIZE then Inl (InvalidData ''binary too small'')
      else
        let footer_buf = drop (length file - FOOTER_SIZE) file in
        tryE (footer_from_bytes footer_buf) (\<lambda>footer.
        tryE (validate_footer footer (of_nat (length file))) (\<lambda>_.
        tryE (read_exact_at file (f_manifest_offset footer) (unat (f_manifest_compressed footer)))
          (\<lambda>manifest_compressed.
        tryE (map_err (InvalidDataAt ''manifest decompression: '')
               (zstd_bulk lib manifest_compressed (unat (f_manifest_original footer))))
          (\<lambda>manifest_bytes.
        tryE (manifest_checksum (xxh32 lib) manifest_bytes) (\<lambda>checksum.
        if checksum \<noteq> f_manifest_checksum footer
        then Inl (InvalidData ''manifest checksum mismatch'')
        else
          tryE (deserialize manifest_bytes) (\<lambda>manifest.
          tryE (codec_open lib file footer) (\<lambda>codec.
          Inr \<lparr> pd_footer = footer, pd_manifest = manifest, pd_file = file, pd_codec = codec \<rparr>))))))))"

section \<open>Reading the payload\<close>

definition decode_block :: "'r lib \<Rightarrow> bytes \<Rightarrow> nat \<Rightarrow> bytes option \<Rightarrow> io_error + bytes" where
  "decode_block lib buf original dict =
     tryE (case dict of
             Some d \<Rightarrow> zstd_dict_take lib d buf (original + 1)
           | None \<Rightarrow> map_err (InvalidDataAt ''decompression: '') (zstd_bulk lib buf original)) (\<lambda>data.
     if length data \<noteq> original
     then Inl (InvalidDataOf ''block decompressed to a length the manifest does not say: '' (length data))
     else Inr data)"

definition read_block_data :: "'r lib \<Rightarrow> bytes \<Rightarrow> footer \<Rightarrow> block \<Rightarrow> 'r codec \<Rightarrow> io_error + bytes" where
  "read_block_data lib file f b codec =
     (case codec of
        Stipple reader \<Rightarrow> read_slice lib reader b
      | Zstd _ \<Rightarrow>
          tryE (block_extent usize_max f b) (\<lambda>(abs, len).
          tryE (read_exact_at file abs len) (\<lambda>buf.
          if is_stored f then Inr buf
          else
            tryE (block_original_size usize_max b) (\<lambda>original.
            decode_block lib buf original (codec_dict codec)))))"

definition read_payload_entry :: "'r lib \<Rightarrow> bytes \<Rightarrow> footer \<Rightarrow> block \<Rightarrow> 'r codec \<Rightarrow> io_error + bytes" where
  "read_payload_entry lib file f b codec =
     tryE (read_block_data lib file f b codec) (\<lambda>data.
     if has_content_hash b \<and> blake3 lib data \<noteq> b_content_hash b
     then Inl (InvalidData ''onelf: block hash mismatch (tampered or corrupt package)'')
     else Inr data)"

definition read_payload_blocks :: "'r lib \<Rightarrow> bytes \<Rightarrow> footer \<Rightarrow> block list \<Rightarrow> 'r codec
    \<Rightarrow> io_error + bytes" where
  "read_payload_blocks lib file f blocks codec =
     foldE (\<lambda>b result. tryE (read_block_data lib file f b codec) (\<lambda>data. Inr (result @ data)))
       blocks []"

definition read_verified_entry :: "'r lib \<Rightarrow> bytes \<Rightarrow> footer \<Rightarrow> entry \<Rightarrow> 'r codec
    \<Rightarrow> io_error + bytes" where
  "read_verified_entry lib file f e codec =
     tryE (read_payload_blocks lib file f (e_blocks e) codec) (\<lambda>data.
     if blake3 lib data \<noteq> e_content_hash e
     then Inl (InvalidData ''onelf: content hash mismatch (tampered or corrupt package)'')
     else Inr data)"

definition find_file_entry :: "'r package_data \<Rightarrow> bytes \<Rightarrow> nat option" where
  "find_file_entry pkg path =
     List.find (\<lambda>i. e_kind (m_entries (pd_manifest pkg) ! i) = File
                  \<and> entry_path (pd_manifest pkg) i = path)
       [0..<length (m_entries (pd_manifest pkg))]"

text \<open>The declared size is a \<open>u64\<close> sum, which wraps in the release build.\<close>

definition read_bounded_record :: "'r lib \<Rightarrow> 'r package_data \<Rightarrow> bytes \<Rightarrow> nat
    \<Rightarrow> io_error + bytes option" where
  "read_bounded_record lib pkg path max_bytes =
     (case find_file_entry pkg path of
        None \<Rightarrow> Inr None
      | Some idx \<Rightarrow>
          let e = m_entries (pd_manifest pkg) ! idx;
              declared = (\<Sum>b\<leftarrow>e_blocks e. b_original_size b)
          in if declared > of_nat max_bytes
             then Inl (InvalidDataAt ''declares bytes over the record limit: '' path)
             else
               tryE (read_verified_entry lib (pd_file pkg) (pd_footer pkg) e (pd_codec pkg))
                 (\<lambda>data. Inr (Some data)))"

definition read_package_file :: "'r lib \<Rightarrow> 'r package_data \<Rightarrow> bytes \<Rightarrow> bytes option" where
  "read_package_file lib pkg path =
     bind_opt (find_file_entry pkg path) (\<lambda>idx.
     case read_payload_blocks lib (pd_file pkg) (pd_footer pkg)
            (e_blocks (m_entries (pd_manifest pkg) ! idx)) (pd_codec pkg) of
       Inr data \<Rightarrow> Some data | Inl _ \<Rightarrow> None)"

section \<open>What is read is what was recorded\<close>

lemma is_stipple_codec_simps [simp]: "is_stipple_codec (Stipple r)" "\<not> is_stipple_codec (Zstd d)"
  by (simp_all add: is_stipple_codec_def)

lemma u32_try_from_Some [simp]: "u32_try_from v = Some i \<longleftrightarrow> unat v < 2 ^ 32 \<and> i = ucast v"
  by (auto simp: u32_try_from_def)

lemma block_original_size_Inr [simp]:
  "block_original_size m b = Inr n \<longleftrightarrow>
     b_original_size b \<le> MAX_BLOCK_ORIGINAL \<and> n = unat (b_original_size b) \<and> n \<le> m"
  by (auto simp: block_original_size_def)

lemma decode_block_length: "decode_block lib buf original dict = Inr data \<Longrightarrow> length data = original"
  by (auto simp: decode_block_def tryE_Inr_iff split: if_splits)

lemma read_block_data_length:
  assumes "read_block_data lib file f b codec = Inr data" and "is_stored f \<longrightarrow> is_stipple_codec codec"
  shows "length data = unat (b_original_size b) \<and> b_original_size b \<le> MAX_BLOCK_ORIGINAL"
  using assms
  by (auto simp: read_block_data_def read_slice_def tryE_Inr_iff dest: decode_block_length
      split: codec.splits if_splits)

lemma foldE_append_iff:
  "foldE (\<lambda>b result. tryE (rd b) (\<lambda>data. Inr (result @ data))) bs out = Inr r \<longleftrightarrow>
     (\<exists>chunks. list_all2 (\<lambda>b c. rd b = Inr c) bs chunks \<and> r = out @ concat chunks)"
proof (induction bs arbitrary: out)
  case (Cons b bs)
  show ?case (is "?l \<longleftrightarrow> ?r")
  proof
    assume ?l
    then obtain c chunks where "rd b = Inr c" "list_all2 (\<lambda>b c. rd b = Inr c) bs chunks"
      "r = (out @ c) @ concat chunks"
      by (auto simp: tryE_Inr_iff Cons.IH)
    then show ?r by (intro exI [of _ "c # chunks"]) simp
  next
    assume ?r
    then show ?l by (auto simp: list_all2_Cons1 tryE_Inr_iff Cons.IH)
  qed
qed auto

lemma read_payload_blocks_Inr:
  "read_payload_blocks lib file f blocks codec = Inr data \<longleftrightarrow>
     (\<exists>chunks. list_all2 (\<lambda>b c. read_block_data lib file f b codec = Inr c) blocks chunks
        \<and> data = concat chunks)"
  by (simp add: read_payload_blocks_def foldE_append_iff)

lemma chunk_lengths:
  assumes "list_all2 (\<lambda>b c. read_block_data lib file f b codec = Inr c) blocks chunks"
    and "is_stored f \<longrightarrow> is_stipple_codec codec"
  shows "length (concat chunks) = (\<Sum>b\<leftarrow>blocks. unat (b_original_size b))
    \<and> (\<forall>b \<in> set blocks. b_original_size b \<le> MAX_BLOCK_ORIGINAL)"
  using assms(1)
  by (induction rule: list_all2_induct) (use assms(2) read_block_data_length in fastforce)+


definition sample_lib :: "unit lib" where
  "sample_lib = \<lparr> zstd_bulk = (\<lambda>buf n. Inr (take n (concat (map (\<lambda>b. [b, b]) buf)))),
     zstd_dict_take = (\<lambda>d buf n. Inr (take n (d @ buf))), xxh32 = (\<lambda>_. 0),
     xxh3_64 = (\<lambda>bs. of_nat (length bs)), blake3 = (\<lambda>bs. bs),
     image_reader = (\<lambda>_ _ _. Inl []), image_read = (\<lambda>_ _ _ _. Inl []), image_extents = (\<lambda>_ _. []) \<rparr>"

definition sample_zfooter :: footer where
  "sample_zfooter = \<lparr> f_format_version = 2, f_flags = 0, f_manifest_offset = 0,
     f_manifest_compressed = 0, f_manifest_original = 0, f_payload_offset = 2,
     f_payload_size = 4, f_dict_offset = 0, f_dict_size = 0, f_manifest_checksum = [0, 0, 0, 0] \<rparr>"

definition sample_block_at :: "u64 \<Rightarrow> block" where
  "sample_block_at off = \<lparr> b_payload_offset = off, b_compressed_size = 2, b_original_size = 4,
     b_content_hash = zero_hash \<rparr>"

definition sample_file_entry :: entry where
  "sample_file_entry = (sample_entry File 0 5)
     \<lparr> e_blocks := [sample_block_at 0, sample_block_at 2], e_content_hash := [1,1,2,2,3,3,4,4] \<rparr>"

lemma sample_entry_read:
  "read_verified_entry sample_lib [9, 9, 1, 2, 3, 4] sample_zfooter sample_file_entry (Zstd None)
     = Inr [1, 1, 2, 2, 3, 3, 4, 4]"
  by (simp add: read_verified_entry_def read_payload_blocks_def sample_file_entry_def
      sample_entry_def sample_block_at_def sample_zfooter_def sample_lib_def read_block_data_def
      block_extent_def checked_add_u64_def in_bounds_def usize_try_from_def usize_max_def
      read_exact_at_def slice_def is_stored_def flags_contains_def STORED_def
      block_original_size_def MAX_BLOCK_ORIGINAL_def decode_block_def codec_dict_def)


section \<open>Bounded records\<close>

lemma unat_sum_list_bounded:
  assumes "\<forall>b \<in> set bs. unat (g b :: u64) \<le> k" "length bs * k < 2 ^ 64"
  shows "unat (\<Sum>b\<leftarrow>bs. g b) = (\<Sum>b\<leftarrow>bs. unat (g b)) \<and> (\<Sum>b\<leftarrow>bs. unat (g b)) \<le> length bs * k"
  using assms
proof (induction bs)
  case (Cons b bs)
  then have "unat (\<Sum>b\<leftarrow>bs. g b) = (\<Sum>b\<leftarrow>bs. unat (g b))"
    "(\<Sum>b\<leftarrow>bs. unat (g b)) \<le> length bs * k" "unat (g b) \<le> k" by simp_all
  moreover from this Cons.prems(2) have "unat (g b) + unat (\<Sum>b\<leftarrow>bs. g b) < 2 ^ 64" by simp
  then have "unat (g b + (\<Sum>b\<leftarrow>bs. g b)) = unat (g b) + unat (\<Sum>b\<leftarrow>bs. g b)"
    using unat_add_lem [of "g b" "\<Sum>b\<leftarrow>bs. g b"] by simp
  ultimately show ?case by simp
qed simp

lemma find_file_entry_Some:
  "find_file_entry pkg path = Some idx \<Longrightarrow> idx < length (m_entries (pd_manifest pkg))
     \<and> e_kind (m_entries (pd_manifest pkg) ! idx) = File
     \<and> entry_path (pd_manifest pkg) idx = path"
  by (auto simp: find_file_entry_def find_Some_iff)

text \<open>
  A record limit holds for what is read: on a package whose payload is not stored raw, a
  record is returned only when it is the file at that path, hashes to its entry's content hash and
  is at most the limit long. No sum of declared sizes can wrap below the limit.
\<close>

theorem read_bounded_record_sound:
  assumes "read_bounded_record lib pkg path max_bytes = Inr (Some data)"
    and "is_stipple_codec (pd_codec pkg) \<or> is_stored (pd_footer pkg) = False"
    and "max_bytes \<le> usize_max"
    and "\<forall>e \<in> set (m_entries (pd_manifest pkg)). length (e_blocks e) < 2 ^ 32"
  shows "length data \<le> max_bytes
    \<and> (\<exists>i < length (m_entries (pd_manifest pkg)). entry_path (pd_manifest pkg) i = path
         \<and> blake3 lib data = e_content_hash (m_entries (pd_manifest pkg) ! i))"
proof -
  from assms(1) obtain idx where idx: "find_file_entry pkg path = Some idx"
    and lim: "(\<Sum>b\<leftarrow>e_blocks (m_entries (pd_manifest pkg) ! idx). b_original_size b) \<le> of_nat max_bytes"
    and rd: "read_verified_entry lib (pd_file pkg) (pd_footer pkg)
      (m_entries (pd_manifest pkg) ! idx) (pd_codec pkg) = Inr data"
    by (auto simp: read_bounded_record_def Let_def tryE_Inr_iff not_less split: option.splits if_splits)
  let ?e = "m_entries (pd_manifest pkg) ! idx"
  note i = find_file_entry_Some [OF idx]
  from rd obtain chunks where c: "data = concat chunks"
    "list_all2 (\<lambda>b c. read_block_data lib (pd_file pkg) (pd_footer pkg) b (pd_codec pkg) = Inr c)
       (e_blocks ?e) chunks" and h: "blake3 lib data = e_content_hash ?e"
    by (auto simp: read_verified_entry_def tryE_Inr_iff read_payload_blocks_Inr split: if_splits)
  have len: "length data = (\<Sum>b\<leftarrow>e_blocks ?e. unat (b_original_size b))"
    "\<forall>b \<in> set (e_blocks ?e). unat (b_original_size b) \<le> 2 ^ 28"
    using chunk_lengths [OF c(2)] assms(2) c(1)
    by (auto simp: MAX_BLOCK_ORIGINAL_def word_le_nat_alt)
  have "length (e_blocks ?e) < 2 ^ 32" using assms(4) i by simp
  then have "length (e_blocks ?e) * 2 ^ 28 < (2 :: nat) ^ 64" by simp
  from unat_sum_list_bounded [OF len(2) this] len(1)
  have "unat (\<Sum>b\<leftarrow>e_blocks ?e. b_original_size b) = length data" by simp
  moreover have "unat (of_nat max_bytes :: u64) = max_bytes"
    using assms(3) by (simp add: usize_max_def unat_of_nat)
  ultimately have "length data \<le> max_bytes" using lim by (simp add: word_le_nat_alt)
  then show ?thesis using i h by blast
qed

text \<open>
  A package with the record \<open>app\<close>: the manifest of three entries, its file replaced by one of two
  blocks, over a compressed or a stored payload.
\<close>

definition sample_package :: "footer \<Rightarrow> unit package_data" where
  "sample_package f = \<lparr> pd_footer = f,
     pd_manifest = sample_manifest\<lparr> m_entries := [sample_entry Dir U32_MAX 1, sample_file_entry] \<rparr>,
     pd_file = [9, 9, 1, 2, 3, 4], pd_codec = Zstd None \<rparr>"

lemma sample_package_path: "find_file_entry (sample_package f) (lit ''bin/app'') = Some 1"
proof -
  have "entry_path (pd_manifest (sample_package f)) 1 = lit ''bin/app''"
    by (simp add: sample_package_def) code_simp
  then show ?thesis
    by (simp add: find_file_entry_def sample_package_def sample_manifest_def sample_entry_def
        sample_file_entry_def upt_rec)
qed

theorem read_bounded_record_sound_witness:
  "length [1, 1, 2, 2, 3, 3, 4, 4 :: u8] \<le> 8
   \<and> read_bounded_record sample_lib (sample_package sample_zfooter) (lit ''bin/app'') 8
      = Inr (Some [1, 1, 2, 2, 3, 3, 4, 4])"
proof -
  have r: "read_bounded_record sample_lib (sample_package sample_zfooter) (lit ''bin/app'') 8
      = Inr (Some [1, 1, 2, 2, 3, 3, 4, 4])"
    using sample_entry_read
    by (simp add: read_bounded_record_def sample_package_path)
      (simp add: sample_package_def sample_file_entry_def sample_block_at_def)
  have "is_stipple_codec (pd_codec (sample_package sample_zfooter))
      \<or> is_stored (pd_footer (sample_package sample_zfooter)) = False"
    by (simp add: sample_package_def is_stored_def sample_zfooter_def flags_contains_def STORED_def)
  from read_bounded_record_sound [OF r this] r show ?thesis
    by (simp add: usize_max_def sample_package_def sample_entry_def sample_file_entry_def)
qed

text \<open>
  On a stored payload the declared sizes are not those of the bytes read: a record of four bytes is
  returned under a limit of none.
\<close>

definition understated_entry :: entry where
  "understated_entry = (sample_entry File 0 5)
     \<lparr> e_blocks := [(sample_block_at 0)\<lparr> b_compressed_size := 4, b_original_size := 0 \<rparr>],
       e_content_hash := [1, 2, 3, 4] \<rparr>"

theorem stored_record_exceeds_limit:
  "\<exists>pkg. read_bounded_record sample_lib pkg (lit ''bin/app'') 0 = Inr (Some [1, 2, 3, 4])"
proof -
  define pkg where "pkg = (sample_package (sample_zfooter\<lparr> f_flags := STORED \<rparr>))
    \<lparr> pd_manifest := sample_manifest\<lparr> m_entries := [sample_entry Dir U32_MAX 1, understated_entry] \<rparr> \<rparr>"
  have "entry_path (pd_manifest pkg) 1 = lit ''bin/app''"
    by (simp add: pkg_def) code_simp
  then have "find_file_entry pkg (lit ''bin/app'') = Some 1"
    by (simp add: find_file_entry_def pkg_def sample_package_def sample_manifest_def
        sample_entry_def understated_entry_def upt_rec)
  then have "read_bounded_record sample_lib pkg (lit ''bin/app'') 0 = Inr (Some [1, 2, 3, 4])"
    by (simp add: read_bounded_record_def) (simp add: pkg_def sample_package_def
        understated_entry_def sample_entry_def sample_block_at_def read_verified_entry_def
        read_payload_blocks_def sample_zfooter_def sample_lib_def read_block_data_def
        block_extent_def checked_add_u64_def in_bounds_def usize_try_from_def usize_max_def
        read_exact_at_def slice_def is_stored_def flags_contains_def STORED_def)
  then show ?thesis by blast
qed

section \<open>Opening checks what it returns\<close>


definition plain_lib :: "unit lib" where
  "plain_lib = sample_lib\<lparr> zstd_bulk := (\<lambda>buf n. Inr buf) \<rparr>"

definition sample_load_footer :: footer where
  "sample_load_footer = \<lparr> f_format_version = 2, f_flags = STORED, f_manifest_offset = 0,
     f_manifest_compressed = of_nat (length (serialize sample_manifest)),
     f_manifest_original = of_nat (length (serialize sample_manifest)), f_payload_offset = 0,
     f_payload_size = 0, f_dict_offset = 0, f_dict_size = 0,
     f_manifest_checksum = [0, 0, 0, 0] \<rparr>"

definition sample_file :: bytes where
  "sample_file = serialize sample_manifest @ write_footer sample_load_footer"

lemma length_sample_manifest: "length (serialize sample_manifest) < 1000"
  by code_simp

definition sample_loaded :: "unit package_data" where
  "sample_loaded = \<lparr> pd_footer = sample_load_footer, pd_manifest = sample_manifest,
     pd_file = sample_file, pd_codec = Zstd None \<rparr>"

lemma length_sample_file: "length sample_file = length (serialize sample_manifest) + 76"
  using length_write_footer [of sample_load_footer]
  by (simp add: sample_file_def sample_load_footer_def FOOTER_SIZE_def)

lemma sample_file_loads: "load_file plain_lib sample_file = Inr sample_loaded"
proof -
  let ?m = "serialize sample_manifest" and ?f = sample_load_footer
    have wf: "footer_wf ?f"
    by (simp add: footer_wf_def sample_load_footer_def FORMAT_VERSION_def)
  have flen: "length (write_footer ?f) = 76"
    using length_write_footer [of ?f] by (simp add: sample_load_footer_def FOOTER_SIZE_def)
  have len: "unat (of_nat (length ?m) :: u64) = length ?m"
    using length_sample_manifest by (simp add: unat_of_nat)
  have fb: "footer_from_bytes (write_footer ?f) = Inr ?f"
    using footer_from_write [OF wf] by simp
  have flen': "unat (of_nat (length sample_file) :: u64) = length ?m + 76"
    using length_sample_manifest flen by (simp add: unat_of_nat sample_file_def del: of_nat_add)
  have vf: "validate_footer ?f (of_nat (length sample_file)) = Inr ()"
    using length_sample_manifest
    by (simp add: validate_footer_iff flen' sample_load_footer_def len)
  have ck: "manifest_checksum (\<lambda>_. 0) ?m = Inr [0, 0, 0, 0]"
    using checksum_serialize [OF sample_manifest_wf] by (simp add: le_bytes_eval eval_nat_numeral)
  have "deserialize (?m @ []) = Inr sample_manifest"
    by (rule deserialize_serialize [OF sample_manifest_wf])
  then have ds: "deserialize ?m = Inr sample_manifest" by simp
  have r: "read_exact_at sample_file (f_manifest_offset ?f) (unat (f_manifest_compressed ?f)) = Inr ?m"
    using len flen by (simp add: sample_load_footer_def read_exact_at_def sample_file_def slice_def)
  have c: "codec_open plain_lib sample_file ?f = Inr (Zstd None)"
    by (simp add: codec_open_def sample_load_footer_def is_stipple_def flags_contains_def
        STORED_def STIPPLE_PAYLOAD_def HAS_DICT_def)
  have d: "drop (length sample_file - 76) sample_file = write_footer ?f"
    "\<not> length sample_file < 76"
    using flen by (simp_all add: sample_file_def)
  have z: "zstd_bulk plain_lib ?m n = Inr ?m" "xxh32 plain_lib = (\<lambda>_. 0)" for n
    by (simp_all add: plain_lib_def sample_lib_def)
  have k: "f_manifest_checksum ?f = [0, 0, 0, 0]" by (simp add: sample_load_footer_def)
  show ?thesis
    using fb vf ck ds r c d z k by (simp add: load_file_def FOOTER_SIZE_def Let_def sample_loaded_def)
qed


end
