(* ===== verification/Range_Source.thy ===== *)
theory Range_Source
  imports Loader
begin

text \<open>
  \<open>update/range.rs\<close>: the ranged HTTPS transport and the probe of a remote release. The HTTP client is
  third-party code and the server is anyone's: \<open>net i request\<close> is the answer to the \<open>i\<close>-th request,
  an argument of every definition that makes one. The state of a source is its two memories (does
  the host honour Range, which release was selected) and the number of requests made.
\<close>

datatype fetch_error = NoRanges | Other string

record response =
  rs_status :: u16
  rs_headers :: "bytes \<Rightarrow> bytes option"
  rs_body :: bytes

text \<open>A header is present when its value is visible ASCII, which is what \<open>to_str\<close> accepts.\<close>

datatype request = Head_Release | Get_Range u64 u64 "bytes option"

type_synonym net = "nat \<Rightarrow> request \<Rightarrow> bytes + response"

record source =
  so_ranges :: bool
  so_release :: "(u64 \<times> bytes option) option"
  so_clock :: nat

definition source_new :: source where
  "source_new = \<lparr> so_ranges = True, so_release = None, so_clock = 0 \<rparr>"

definition call :: "net \<Rightarrow> request \<Rightarrow> source \<Rightarrow> (bytes + response) \<times> source" where
  "call net rq s = (net (so_clock s) rq, s\<lparr> so_clock := Suc (so_clock s) \<rparr>)"

section \<open>Headers\<close>

definition content_length :: "response \<Rightarrow> u64 option" where
  "content_length r = bind_opt (rs_headers r (lit ''content-length'')) (\<lambda>v. parse_u64 (trim v))"

text \<open>\<open>scoped_total\<close>: the outer result is the error, the inner option the unknown total.\<close>

definition scoped_total :: "bytes \<Rightarrow> u64 \<Rightarrow> u64 \<Rightarrow> unit + u64 option" where
  "scoped_total header start end' =
     tryE (ok_or () (strip_prefix
            (lit ''bytes '' @ show_nat (unat start) @ lit ''-'' @ show_nat (unat end') @ lit ''/'')
            (trim header))) (\<lambda>t.
     if t = lit ''*'' then Inr None
     else case parse_u64 t of Some n \<Rightarrow> Inr (Some n) | None \<Rightarrow> Inl ())"

definition range_verdict :: "u16 \<Rightarrow> bytes option \<Rightarrow> u64 \<Rightarrow> u64 \<Rightarrow> u64 \<Rightarrow> string + bool" where
  "range_verdict status content_range start end' expected_total =
     (if status = 206 then
        case content_range of
          None \<Rightarrow> Inl ''a 206 carries no Content-Range header''
        | Some header \<Rightarrow>
            (case scoped_total header start end' of
               Inl _ \<Rightarrow> Inl ''a 206 claims another Content-Range''
             | Inr t \<Rightarrow>
                 if end' \<ge> expected_total \<or> (\<exists>n \<in> set_option t. n \<noteq> expected_total)
                 then Inl ''the release changed size or has an invalid Content-Range''
                 else Inr True)
      else if status = 200 then Inr False
      else Inl ''HTTP error status'')"

definition strong_etag :: "response \<Rightarrow> bytes option" where
  "strong_etag r =
     (case rs_headers r (lit ''etag'') of
        None \<Rightarrow> None
      | Some v \<Rightarrow>
          let v = trim v in
          if v \<noteq> [] \<and> hd v = 0x22 \<and> last v = 0x22 then Some v else None)"

definition remember :: "u64 \<Rightarrow> response \<Rightarrow> source \<Rightarrow> u64 \<times> source" where
  "remember n r s =
     (case so_release s of
        Some (m, _) \<Rightarrow> (m, s)
      | None \<Rightarrow> (n, s\<lparr> so_release := Some (n, strong_etag r) \<rparr>))"

definition remembered :: "u64 \<Rightarrow> response \<Rightarrow> (source, fetch_error, u64) step" where
  "remembered n r s = (case remember n r s of (m, t) \<Rightarrow> (Inr m, t))"

section \<open>The size probe and ranged fetches\<close>

definition is_success :: "u16 \<Rightarrow> bool" where
  "is_success status \<longleftrightarrow> 200 \<le> status \<and> status < 300"

definition probe_size :: "net \<Rightarrow> (source, fetch_error, u64) step" where
  "probe_size net s =
     (case call net (Get_Range 0 0 None) s of
        (Inl _, t) \<Rightarrow> (Inl (Other ''probe''), t)
      | (Inr r, t) \<Rightarrow>
          if rs_status r = 206 then
            (case rs_headers r (lit ''content-range'') of
               None \<Rightarrow> (Inl (Other ''206 without a bytes 0-0 Content-Range''), t)
             | Some v \<Rightarrow>
                 (case scoped_total v 0 0 of
                    Inl _ \<Rightarrow> (Inl (Other ''206 without a bytes 0-0 Content-Range''), t)
                  | Inr None \<Rightarrow> (Inl (Other ''206 without a known Content-Range total''), t)
                  | Inr (Some n) \<Rightarrow>
                      if n > 0 then remembered n r t
                      else (Inl (Other ''empty release in a 206 size probe''), t)))
          else if rs_status r = 200 then
            let t' = t\<lparr> so_ranges := False \<rparr> in
            (case content_length r of
               None \<Rightarrow> (Inl (Other ''no Content-Length''), t')
             | Some n \<Rightarrow> remembered n r t')
          else (Inl (Other ''HTTP status probing the release size''), t))"

definition source_size :: "net \<Rightarrow> (source, fetch_error, u64) step" where
  "source_size net s =
     (case so_release s of
        Some (n, _) \<Rightarrow> (Inr n, s)
      | None \<Rightarrow>
          (case call net Head_Release s of
             (Inr r, t) \<Rightarrow>
               if is_success (rs_status r) then
                 (case content_length r of
                    Some n \<Rightarrow> remembered n r t
                  | None \<Rightarrow> probe_size net t)
               else probe_size net t
           | (Inl _, t) \<Rightarrow> probe_size net t))"

definition fetch_scoped :: "net \<Rightarrow> u64 \<Rightarrow> u64 \<Rightarrow> u64 \<Rightarrow> u64 \<Rightarrow> (source, fetch_error, bytes) step" where
  "fetch_scoped net start len end' n s =
     (case call net (Get_Range start end' (bind_opt (so_release s) snd)) s of
        (Inl _, t) \<Rightarrow> (Inl (Other ''range''), t)
      | (Inr r, t) \<Rightarrow>
          (case range_verdict (rs_status r) (rs_headers r (lit ''content-range'')) start end' n of
             Inr True \<Rightarrow> (Inr (take (unat len) (rs_body r)), t)
           | Inr False \<Rightarrow> (Inl NoRanges, t\<lparr> so_ranges := False \<rparr>)
           | Inl why \<Rightarrow> (Inl (Other why), t)))"

definition fetch_range :: "net \<Rightarrow> u64 \<Rightarrow> u64 \<Rightarrow> (source, fetch_error, bytes) step" where
  "fetch_range net start len s =
     (if len = 0 then (Inr [], s)
      else if \<not> so_ranges s then (Inl NoRanges, s)
      else case checked_add_u64 start (len - 1) of
        None \<Rightarrow> (Inl (Other ''the range overflows the file size''), s)
      | Some end' \<Rightarrow> seqS (source_size net) (fetch_scoped net start len end') s)"

section \<open>The probe\<close>

record remote_package =
  rp_footer :: footer
  rp_footer_bytes :: bytes
  rp_manifest :: manifest
  rp_manifest_bytes :: bytes
  rp_size :: u64

definition package_id :: "remote_package \<Rightarrow> bytes" where
  "package_id rp = h_package_id (m_header (rp_manifest rp))"

definition MAX_PROBE_READ :: u64 where "MAX_PROBE_READ = push_bit 20 256"

text \<open>\<open>fetch_range(start, len)?.read_exact(&mut buf)\<close>, for a source given by its two operations.\<close>

definition read_range :: "(u64 \<Rightarrow> u64 \<Rightarrow> ('s, fetch_error, bytes) step) \<Rightarrow> u64 \<Rightarrow> u64
    \<Rightarrow> ('s, fetch_error, bytes) step" where
  "read_range fetch start len =
     seqS (fetch start len) (\<lambda>body.
     if length body < unat len then failS (Other ''read: unexpected end'')
     else returnS (take (unat len) body))"

definition probe_error :: "io_error + 'a \<Rightarrow> fetch_error + 'a" where
  "probe_error = map_err (\<lambda>_. Other ''remote package'')"

definition probe :: "'r lib \<Rightarrow> ('s, fetch_error, u64) step
    \<Rightarrow> (u64 \<Rightarrow> u64 \<Rightarrow> ('s, fetch_error, bytes) step) \<Rightarrow> ('s, fetch_error, remote_package) step" where
  "probe lib sz fetch =
     seqS sz (\<lambda>n.
     if n < of_nat FOOTER_SIZE then failS (Other ''the remote release is smaller than an onelf footer'')
     else
       seqS (read_range fetch (n - of_nat FOOTER_SIZE) (of_nat FOOTER_SIZE)) (\<lambda>footer_bytes.
       seqS (liftS (probe_error (footer_from_bytes footer_bytes))) (\<lambda>footer.
       seqS (liftS (probe_error (validate_footer footer n))) (\<lambda>_.
       if f_manifest_compressed footer > MAX_PROBE_READ
       then failS (Other ''the remote manifest claims too many compressed bytes'')
       else
         seqS (read_range fetch (f_manifest_offset footer) (f_manifest_compressed footer)) (\<lambda>manifest_bytes.
         seqS (liftS (map_err (\<lambda>_. Other ''remote manifest decompression'')
                (zstd_bulk lib manifest_bytes (unat (f_manifest_original footer))))) (\<lambda>manifest_raw.
         seqS (liftS (probe_error (manifest_checksum (xxh32 lib) manifest_raw))) (\<lambda>checksum.
         if checksum \<noteq> f_manifest_checksum footer
         then failS (Other ''remote manifest checksum mismatch'')
         else
           seqS (liftS (probe_error (deserialize manifest_raw))) (\<lambda>manifest.
           returnS \<lparr> rp_footer = footer, rp_footer_bytes = footer_bytes, rp_manifest = manifest,
                     rp_manifest_bytes = manifest_bytes, rp_size = n \<rparr>))))))))"

section \<open>What a source promises\<close>

text \<open>
  The contract the planner relies on: once the size is known it stays known and is answered from
  memory, a fetch never hands out more than was asked for, and only bytes inside that size.
\<close>

locale range_source =
  fixes sz :: "('s, fetch_error, u64) step"
    and fetch :: "u64 \<Rightarrow> u64 \<Rightarrow> ('s, fetch_error, bytes) step"
    and known :: "'s \<Rightarrow> u64 option"
  assumes size_known: "sz s = (Inr n, t) \<Longrightarrow> known t = Some n"
    and size_again: "known s = Some n \<Longrightarrow> sz s = (Inr n, s)"
    and fetch_keeps: "fetch a l s = (r, t) \<Longrightarrow> known s = Some n \<Longrightarrow> known t = Some n"
    and fetch_inside: "fetch a l s = (Inr bs, t) \<Longrightarrow> known s = Some n \<Longrightarrow>
      length bs \<le> unat l \<and> (l = 0 \<or> unat a + unat l \<le> unat n)"
begin

lemma read_range_Inr:
  assumes "read_range fetch a l s = (Inr bs, t)" "known s = Some n"
  shows "length bs = unat l \<and> fetch a l s = (Inr bs, t) \<and> known t = Some n
    \<and> (l = 0 \<or> unat a + unat l \<le> unat n)"
proof -
  from assms(1) obtain body u where f: "fetch a l s = (Inr body, u)"
    and b: "\<not> length body < unat l" "bs = take (unat l) body" "t = u"
    unfolding read_range_def by (elim seqS_Inr) (auto split: if_splits)
  from fetch_inside [OF f assms(2)] fetch_keeps [OF f assms(2)] f b show ?thesis by simp
qed

lemma probe_Inr:
  assumes "probe lib sz fetch s = (Inr rp, t)"
  shows "known t = Some (rp_size rp) \<and> length (rp_footer_bytes rp) = 76
    \<and> footer_from_bytes (rp_footer_bytes rp) = Inr (rp_footer rp)
    \<and> validate_footer (rp_footer rp) (rp_size rp) = Inr ()
    \<and> length (rp_manifest_bytes rp) = unat (f_manifest_compressed (rp_footer rp))
    \<and> length (rp_manifest_bytes rp) \<le> 2 ^ 28 \<and> 76 \<le> unat (rp_size rp)
    \<and> (\<exists>u v w. known u = Some (rp_size rp)
         \<and> read_range fetch (rp_size rp - 76) 76 u = (Inr (rp_footer_bytes rp), v)
         \<and> read_range fetch (f_manifest_offset (rp_footer rp)) (f_manifest_compressed (rp_footer rp)) v
             = (Inr (rp_manifest_bytes rp), w))
    \<and> (\<exists>raw. zstd_bulk lib (rp_manifest_bytes rp) (unat (f_manifest_original (rp_footer rp))) = Inr raw
         \<and> manifest_checksum (xxh32 lib) raw = Inr (f_manifest_checksum (rp_footer rp))
         \<and> deserialize raw = Inr (rp_manifest rp))"
proof -
  have fs: "(of_nat FOOTER_SIZE :: u64) = 76" by (simp add: FOOTER_SIZE_def)
  from assms obtain n u fb v f m w raw ck mf where
    a: "sz s = (Inr n, u)" "\<not> n < 76" "read_range fetch (n - 76) 76 u = (Inr fb, v)"
    "footer_from_bytes fb = Inr f" "validate_footer f n = Inr ()"
    "\<not> f_manifest_compressed f > MAX_PROBE_READ"
    "read_range fetch (f_manifest_offset f) (f_manifest_compressed f) v = (Inr m, w)"
    "zstd_bulk lib m (unat (f_manifest_original f)) = Inr raw"
    "manifest_checksum (xxh32 lib) raw = Inr ck" "ck = f_manifest_checksum f"
    "deserialize raw = Inr mf" "t = w"
    "rp = \<lparr> rp_footer = f, rp_footer_bytes = fb, rp_manifest = mf, rp_manifest_bytes = m, rp_size = n \<rparr>"
    unfolding probe_def fs
    by (elim seqS_Inr) (auto simp: probe_error_def split: if_splits elim!: seqS_Inr)
  note k = size_known [OF a(1)]
  note r1 = read_range_Inr [OF a(3) k]
  note r2 = read_range_Inr [OF a(7)]
  have "unat (f_manifest_compressed f) \<le> 2 ^ 28"
    using a(6) by (simp add: MAX_PROBE_READ_def not_less word_le_nat_alt)
  then show ?thesis using a k r1 r2 by (auto simp: word_less_nat_alt)
qed

end

section \<open>The HTTPS source keeps the promise\<close>

text \<open>What no operation undoes: the release once selected, and the verdict that Range is ignored.\<close>

definition later :: "source \<Rightarrow> source \<Rightarrow> bool" where
  "later s t \<longleftrightarrow> so_clock s \<le> so_clock t
     \<and> (\<forall>x. so_release s = Some x \<longrightarrow> so_release t = Some x) \<and> (so_ranges t \<longrightarrow> so_ranges s)"

lemma later_refl [simp]: "later s s"
  by (simp add: later_def)

lemma later_trans: "later s t \<Longrightarrow> later t u \<Longrightarrow> later s u"
  by (auto simp: later_def)

lemma later_call: "call net rq s = (r, t) \<Longrightarrow> later s t"
  by (auto simp: call_def later_def)

lemma remembered_known:
  "remembered n r s = (Inr m, t) \<Longrightarrow> later s t \<and> map_option fst (so_release t) = Some m"
  by (auto simp: remembered_def remember_def later_def split: option.splits)

lemma remembered_fails [simp]: "remembered n r s \<noteq> (Inl e, t)"
  by (simp add: remembered_def split: prod.splits)

lemma later_no_ranges: "later s t \<Longrightarrow> later s (t\<lparr> so_ranges := False \<rparr>)"
  by (auto simp: later_def)

lemma probe_size_later:
  assumes "probe_size net s = (r, t)"
  shows "later s t \<and> (\<forall>n. r = Inr n \<longrightarrow> map_option fst (so_release t) = Some n)"
proof -
  obtain a u where c: "call net (Get_Range 0 0 None) s = (a, u)" by fastforce
  note l = later_call [OF c]
  show ?thesis
    using assms c l later_no_ranges [OF l]
    by (cases r) (auto simp: probe_size_def Let_def dest!: remembered_known intro: later_trans
        split: sum.splits option.splits if_splits)
qed

lemma source_size_later:
  assumes "source_size net s = (r, t)"
  shows "later s t \<and> (\<forall>n. r = Inr n \<longrightarrow> map_option fst (so_release t) = Some n)"
proof (cases "so_release s")
  case (Some x)
  then show ?thesis using assms by (cases x) (auto simp: source_size_def)
next
  case None
  obtain a u where c: "call net Head_Release s = (a, u)" by fastforce
  note l = later_call [OF c]
  have "remembered n q u = (r, t) \<or> probe_size net u = (r, t)
      \<Longrightarrow> later u t \<and> (\<forall>n. r = Inr n \<longrightarrow> map_option fst (so_release t) = Some n)" for n q
    using probe_size_later remembered_known by (cases r) auto
  moreover have "(\<exists>n q. remembered n q u = (r, t)) \<or> probe_size net u = (r, t)"
    using assms None c by (auto simp: source_size_def split: sum.splits option.splits if_splits)
  ultimately show ?thesis using later_trans [OF l] by blast
qed

definition range_prefix :: "u64 \<Rightarrow> u64 \<Rightarrow> bytes" where
  "range_prefix a e =
     lit ''bytes '' @ show_nat (unat a) @ lit ''-'' @ show_nat (unat e) @ lit ''/''"

lemma scoped_total_Inr:
  "scoped_total h a e = Inr v \<longleftrightarrow>
     (\<exists>t. trim h = range_prefix a e @ t
        \<and> (if t = lit ''*'' then v = None else v \<noteq> None \<and> parse_u64 t = v))"
  unfolding scoped_total_def range_prefix_def [symmetric] tryE_Inr_iff ok_or_Inr_iff
    strip_prefix_Some_iff
  by (cases v) (auto split: option.splits if_splits)

lemma range_verdict_total:
  "range_verdict status cr a e n = Inr b \<longleftrightarrow>
     (if b then status = 206 \<and> e < n
        \<and> (\<exists>h v. cr = Some h \<and> scoped_total h a e = Inr v \<and> (v = None \<or> v = Some n))
      else status = 200)"
proof -
  have "(\<exists>k \<in> set_option v. k \<noteq> n) \<longleftrightarrow> \<not> (v = None \<or> v = Some n)" for v
    by (cases v) auto
  then show ?thesis
    by (cases "status = 206"; cases cr; cases b)
      (auto simp: range_verdict_def not_le split: sum.splits if_splits)
qed

lemma range_verdict_Inr:
  "range_verdict status cr a e n = Inr b \<longleftrightarrow>
     (if b then status = 206 \<and> e < n
        \<and> (\<exists>h t. cr = Some h \<and> trim h = range_prefix a e @ t
             \<and> (t = lit ''*'' \<or> parse_u64 t = Some n))
      else status = 200)"
proof -
  have "parse_u64 (lit ''*'') = None"
    by (simp add: parse_u64_def lit_def is_ascii_digit_def)
  then have "(\<exists>v. scoped_total h a e = Inr v \<and> (v = None \<or> v = Some n)) \<longleftrightarrow>
      (\<exists>t. trim h = range_prefix a e @ t \<and> (t = lit ''*'' \<or> parse_u64 t = Some n))" for h
    unfolding scoped_total_Inr by (metis option.distinct(1))
  then show ?thesis unfolding range_verdict_total by auto
qed

text \<open>
  A partial response is used only when it is exactly the answer: status 206, a Content-Range
  that names precisely the bytes asked for, those bytes inside the probed size, and a total that is
  unknown or still that size. A plain 200 means the host ignores Range; nothing else is accepted.
\<close>

theorem range_verdict_exact:
  "range_verdict status cr a e n = Inr b \<longleftrightarrow>
     (if b then status = 206 \<and> e < n
        \<and> (\<exists>h t. cr = Some h \<and> trim h = range_prefix a e @ t
             \<and> (t = lit ''*'' \<or> parse_u64 t = Some n))
      else status = 200)"
  by (rule range_verdict_Inr)

lemma fetch_scoped_later:
  assumes "fetch_scoped net a l e n s = (r, t)"
  shows "later s t \<and> (\<forall>bs. r = Inr bs \<longrightarrow> e < n \<and> length bs \<le> unat l)"
proof -
  obtain x u where c: "call net (Get_Range a e (bind_opt (so_release s) snd)) s = (x, u)" by fastforce
  note lt = later_call [OF c]
  show ?thesis
    using assms c lt later_no_ranges [OF lt]
    by (auto simp: fetch_scoped_def range_verdict_Inr split: sum.splits bool.splits)
qed

lemma fetch_range_later:
  assumes "fetch_range net a l s = (r, t)"
  shows "later s t"
  using assms source_size_later fetch_scoped_later later_trans
  by (auto simp: fetch_range_def seqS_def split: if_splits option.splits prod.splits sum.splits)
    blast+

lemma fetch_range_inside:
  assumes "fetch_range net a l s = (Inr bs, t)" "so_release s = Some (n, tag)"
  shows "length bs \<le> unat l \<and> (l = 0 \<or> unat a + unat l \<le> unat n)"
proof (cases "l = 0")
  case True
  then show ?thesis using assms by (simp add: fetch_range_def)
next
  case False
  then obtain e where e: "checked_add_u64 a (l - 1) = Some e"
    and f: "fetch_scoped net a l e n s = (Inr bs, t)"
    using assms by (auto simp: fetch_range_def seqS_def source_size_def
        split: if_splits option.splits)
  have "unat (l - 1) = unat l - 1" "unat l > 0" using False by (simp_all add: unat_minus_one unat_gt_0)
  then have "unat e = unat a + unat l - 1" using e by (auto simp: checked_add_u64_Some_iff)
  then show ?thesis using fetch_scoped_later [OF f] \<open>unat l > 0\<close> by (auto simp: word_less_nat_alt)
qed

interpretation https: range_source "source_size net" "fetch_range net"
  "\<lambda>s. map_option fst (so_release s)" for net
proof
  show "map_option fst (so_release t) = Some n" if "source_size net s = (Inr n, t)" for s t n
    using source_size_later [OF that] by simp
  show "source_size net s = (Inr n, s)" if "map_option fst (so_release s) = Some n" for s n
    using that by (auto simp: source_size_def)
  show "map_option fst (so_release t) = Some n"
    if "fetch_range net a l s = (r, t)" "map_option fst (so_release s) = Some n" for a l s r t n
    using fetch_range_later [OF that(1)] that(2) by (auto simp: later_def)
  show "length bs \<le> unat l \<and> (l = 0 \<or> unat a + unat l \<le> unat n)"
    if "fetch_range net a l s = (Inr bs, t)" "map_option fst (so_release s) = Some n" for a l s bs t n
    using fetch_range_inside [OF that(1)] that(2) by (auto simp: map_option_eq_Some)
qed

section \<open>Histories of a source\<close>

inductive source_op :: "net \<Rightarrow> source \<Rightarrow> source \<Rightarrow> bool" for net where
  sized: "source_size net s = (r, t) \<Longrightarrow> source_op net s t"
| fetched: "fetch_range net a l s = (r, t) \<Longrightarrow> source_op net s t"

inductive_cases source_opE: "source_op net s t"

lemma source_op_later: "source_op net s t \<Longrightarrow> later s t"
  by (elim source_opE) (blast dest: source_size_later fetch_range_later)+

lemma source_ops_later: "(source_op net)\<^sup>*\<^sup>* s t \<Longrightarrow> later s t"
  by (induction rule: rtranclp_induct) (auto intro: later_trans dest: source_op_later)

text \<open>
  C27: Whatever the server answers, no sequence of operations on a source changes the release it
  selected first, and once the host has ignored Range every later ranged fetch is refused without
  another request.
\<close>

theorem source_history:
  assumes "(source_op net)\<^sup>*\<^sup>* s t"
  shows "(\<forall>x. so_release s = Some x \<longrightarrow> so_release t = Some x \<and> source_size net t = (Inr (fst x), t))
    \<and> (so_ranges s \<or> l = 0 \<or> fetch_range net a l t = (Inl NoRanges, t))
    \<and> so_clock s \<le> so_clock t"
  using source_ops_later [OF assms]
  by (auto simp: later_def fetch_range_def source_size_def)

theorem source_history_witness:
  "fetch_range (\<lambda>_ _. Inl []) 3 4 \<lparr> so_ranges = False, so_release = Some (100, None), so_clock = 7 \<rparr>
     = (Inl NoRanges, \<lparr> so_ranges = False, so_release = Some (100, None), so_clock = 7 \<rparr>)"
proof -
  let ?s = "\<lparr> so_ranges = False, so_release = Some (100 :: u64, None :: bytes option), so_clock = 7 \<rparr>"
  have "source_op (\<lambda>_ _. Inl []) ?s ?s"
    by (rule sized [where r = "Inr 100"]) (simp add: source_size_def)
  then have "(source_op (\<lambda>_ _. Inl []))\<^sup>*\<^sup>* ?s ?s" by blast
  from source_history [OF this, of 4 3] show ?thesis by simp
qed

section \<open>A server that answers\<close>

text \<open>
  A host as HTTP documents it: the length of the release to a HEAD request, and a scoped partial
  response to a range inside it.
\<close>

definition serve :: "bytes \<Rightarrow> net" where
  "serve R i rq =
     (case rq of
        Head_Release \<Rightarrow> Inr \<lparr> rs_status = 200,
          rs_headers = [lit ''content-length'' \<mapsto> show_nat (length R)], rs_body = [] \<rparr>
      | Get_Range a e _ \<Rightarrow>
          if a \<le> e \<and> unat e < length R then
            Inr \<lparr> rs_status = 206,
              rs_headers = [lit ''content-range'' \<mapsto> range_prefix a e @ show_nat (length R)],
              rs_body = slice (unat a) (unat e + 1) R \<rparr>
          else Inr \<lparr> rs_status = 416, rs_headers = Map.empty, rs_body = [] \<rparr>)"

lemma graphic_digits: "is_ascii_digit b \<Longrightarrow> is_ascii_graphic b"
  by (auto simp: is_ascii_digit_def is_ascii_graphic_def word_le_nat_alt)

lemma show_nat_ends:
  "is_ascii_graphic (hd (show_nat n))" "is_ascii_graphic (last (show_nat n))"
  by (rule graphic_digits, rule show_nat_digits [of _ n], simp)+

lemma trim_show_nat: "trim (show_nat n) = show_nat n"
  by (rule trim_graphic) (simp_all add: show_nat_ends)

lemma trim_content_range: "trim (range_prefix a e @ show_nat n) = range_prefix a e @ show_nat n"
proof (rule trim_graphic)
  show "is_ascii_graphic (hd (range_prefix a e @ show_nat n))"
    by (simp add: range_prefix_def lit_def is_ascii_graphic_def)
  show "is_ascii_graphic (last (range_prefix a e @ show_nat n))"
    by (simp add: show_nat_ends)
qed simp

text \<open>The states a source is in while it talks to such a host.\<close>

definition serving :: "bytes \<Rightarrow> source \<Rightarrow> bool" where
  "serving R s \<longleftrightarrow> so_ranges s
     \<and> (so_release s = None \<or> map_option fst (so_release s) = Some (of_nat (length R)))"

lemma serve_size:
  assumes "serving R s" "length R < 2 ^ 64"
  shows "\<exists>t. source_size (serve R) s = (Inr (of_nat (length R)), t) \<and> serving R t
    \<and> map_option fst (so_release t) = Some (of_nat (length R))"
proof (cases "so_release s")
  case None
  then show ?thesis using assms
    by (auto simp: source_size_def call_def serve_def is_success_def content_length_def
        trim_show_nat parse_u64_show_nat remembered_def remember_def serving_def)
next
  case (Some x)
  then show ?thesis using assms by (cases x) (auto simp: source_size_def serving_def)
qed

lemma fetch_range_serve:
  assumes "serving R s" "length R < 2 ^ 64" "unat a + unat l \<le> length R"
  shows "\<exists>t. fetch_range (serve R) a l s = (Inr (slice (unat a) (unat a + unat l) R), t) \<and> serving R t"
proof (cases "l = 0")
  case True
  then show ?thesis using assms by (simp add: fetch_range_def slice_def)
next
  case False
  then have l: "unat (l - 1) = unat l - 1" "unat l > 0" by (simp_all add: unat_minus_one unat_gt_0)
  obtain e where e: "checked_add_u64 a (l - 1) = Some e"
    using l assms by (cases "checked_add_u64 a (l - 1)") (auto simp: checked_add_u64_def split: if_splits)
  then have ue: "unat e = unat a + unat l - 1" using l by (auto simp: checked_add_u64_Some_iff)
  obtain u where u: "source_size (serve R) s = (Inr (of_nat (length R)), u)" "serving R u"
    "map_option fst (so_release u) = Some (of_nat (length R))"
    using serve_size [OF assms(1,2)] by blast
  have n: "unat (of_nat (length R) :: u64) = length R" using assms(2) by (simp add: unat_of_nat)
  have "a \<le> e" "unat e < length R" "e < of_nat (length R)"
    using ue l assms(3) n by (simp_all add: word_le_nat_alt word_less_nat_alt)
  moreover have "range_verdict 206 (Some (range_prefix a e @ show_nat (length R))) a e (of_nat (length R))
      = Inr True"
    using \<open>e < of_nat (length R)\<close> assms(2)
    by (auto simp: range_verdict_Inr trim_content_range parse_u64_show_nat)
  ultimately have "fetch_scoped (serve R) a l e (of_nat (length R)) u
      = (Inr (slice (unat a) (unat a + unat l) R), u\<lparr> so_clock := Suc (so_clock u) \<rparr>)"
    using ue l by (simp add: fetch_scoped_def call_def serve_def slice_def)
  moreover have "serving R (u\<lparr> so_clock := Suc (so_clock u) \<rparr>)" using u(2) by (simp add: serving_def)
  ultimately show ?thesis
    using False assms(1) e u(1) by (simp add: fetch_range_def serving_def seqS_def)
qed

text \<open>
  C28: Against a host that answers, a ranged fetch does not fail: for any bytes inside the release it
  returns exactly those bytes, whatever was fetched before, and the source stays usable.
\<close>

theorem serve_fetch:
  assumes "serving R s" "length R < 2 ^ 64" "unat a + unat l \<le> length R"
  shows "\<exists>t. fetch_range (serve R) a l s = (Inr (slice (unat a) (unat a + unat l) R), t) \<and> serving R t"
  using assms by (rule fetch_range_serve)

theorem serve_fetch_witness:
  "\<exists>t. fetch_range (serve [5, 6, 7, 8, 9]) 1 3 source_new = (Inr [6, 7, 8], t)"
proof -
  have "serving [5, 6, 7, 8, 9] source_new" by (simp add: serving_def source_new_def)
  from serve_fetch [OF this, of 1 3] show ?thesis by (auto simp: slice_def)
qed

section \<open>The probe sees the package the loader opens\<close>

lemma read_range_serve:
  assumes "serving R s" "length R < 2 ^ 64" "unat a + unat l \<le> length R"
  shows "\<exists>t. read_range (fetch_range (serve R)) a l s = (Inr (slice (unat a) (unat a + unat l) R), t)
    \<and> serving R t"
proof -
  obtain t where "fetch_range (serve R) a l s = (Inr (slice (unat a) (unat a + unat l) R), t)" "serving R t"
    using fetch_range_serve [OF assms] by blast
  then show ?thesis using assms(3) by (simp add: read_range_def seqS_def returnS_def)
qed

lemma probe_serves:
  assumes "load_file lib R = Inr p" "serving R s" "length R < 2 ^ 64"
    and "f_manifest_compressed (pd_footer p) \<le> MAX_PROBE_READ"
  shows "\<exists>t. probe lib (source_size (serve R)) (fetch_range (serve R)) s
    = (Inr \<lparr> rp_footer = pd_footer p, rp_footer_bytes = drop (length R - 76) R,
             rp_manifest = pd_manifest p,
             rp_manifest_bytes = slice (unat (f_manifest_offset (pd_footer p)))
               (unat (f_manifest_offset (pd_footer p)) + unat (f_manifest_compressed (pd_footer p))) R,
             rp_size = of_nat (length R) \<rparr>, t) \<and> serving R t"
proof -
  let ?f = "pd_footer p"
  obtain mc raw where a: "\<not> length R < 76" "footer_from_bytes (drop (length R - 76) R) = Inr ?f"
    "validate_footer ?f (of_nat (length R)) = Inr ()"
    "read_exact_at R (f_manifest_offset ?f) (unat (f_manifest_compressed ?f)) = Inr mc"
    "zstd_bulk lib mc (unat (f_manifest_original ?f)) = Inr raw"
    "manifest_checksum (xxh32 lib) raw = Inr (f_manifest_checksum ?f)"
    "deserialize raw = Inr (pd_manifest p)"
    using assms(1)
    by (auto simp: load_file_def Let_def tryE_Inr_iff FOOTER_SIZE_def split: if_splits)
  have n: "unat (of_nat (length R) :: u64) = length R" using assms(3) by (simp add: unat_of_nat)
  have le: "(76 :: u64) \<le> of_nat (length R)" using a(1) n by (simp add: word_le_nat_alt)
  then have off: "unat (of_nat (length R) - 76 :: u64) = length R - 76" using n by (simp add: unat_sub)
  have reg: "unat (f_manifest_offset ?f) + unat (f_manifest_compressed ?f) \<le> length R"
    using a(3) n by (simp add: validate_footer_iff)
  have mc: "mc = slice (unat (f_manifest_offset ?f))
      (unat (f_manifest_offset ?f) + unat (f_manifest_compressed ?f)) R"
    using a(4) reg by (auto simp: read_exact_at_def slice_def split: if_splits)
  obtain s1 where s1: "source_size (serve R) s = (Inr (of_nat (length R)), s1)" "serving R s1"
    using serve_size [OF assms(2,3)] by blast
  obtain s2 where s2: "read_range (fetch_range (serve R)) (of_nat (length R) - 76) 76 s1
      = (Inr (drop (length R - 76) R), s2)" "serving R s2"
    using read_range_serve [OF s1(2) assms(3), of "of_nat (length R) - 76" 76] a(1) off
    by (auto simp: slice_def)
  obtain s3 where s3: "read_range (fetch_range (serve R)) (f_manifest_offset ?f)
      (f_manifest_compressed ?f) s2 = (Inr mc, s3)" "serving R s3"
    using read_range_serve [OF s2(2) assms(3) reg] mc by blast
  have fs: "(of_nat FOOTER_SIZE :: u64) = 76" by (simp add: FOOTER_SIZE_def)
  have "probe lib (source_size (serve R)) (fetch_range (serve R)) s
    = (Inr \<lparr> rp_footer = ?f, rp_footer_bytes = drop (length R - 76) R, rp_manifest = pd_manifest p,
             rp_manifest_bytes = mc, rp_size = of_nat (length R) \<rparr>, s3)"
    using s1(1) s2(1) s3(1) a le assms(4)
    by (simp add: probe_def fs seqS_def probe_error_def liftS_def returnS_def not_less)
  then show ?thesis using s3(2) mc by blast
qed

text \<open>
  C29: Probing a host that answers gives what opening the published file would give: the same footer
  and the same manifest, with the footer and the compressed manifest byte for byte as published.
\<close>

theorem probe_agrees_with_loader:
  assumes "load_file lib R = Inr p" "serving R s" "length R < 2 ^ 64"
    and "f_manifest_compressed (pd_footer p) \<le> MAX_PROBE_READ"
  shows "\<exists>t. probe lib (source_size (serve R)) (fetch_range (serve R)) s
    = (Inr \<lparr> rp_footer = pd_footer p, rp_footer_bytes = drop (length R - 76) R,
             rp_manifest = pd_manifest p,
             rp_manifest_bytes = slice (unat (f_manifest_offset (pd_footer p)))
               (unat (f_manifest_offset (pd_footer p)) + unat (f_manifest_compressed (pd_footer p))) R,
             rp_size = of_nat (length R) \<rparr>, t) \<and> serving R t"
  by (rule probe_serves [OF assms])

theorem probe_agrees_with_loader_witness:
  "\<exists>rp t. probe plain_lib (source_size (serve sample_file)) (fetch_range (serve sample_file)) source_new
     = (Inr rp, t) \<and> rp_manifest rp = sample_manifest"
proof -
  have l: "length sample_file < 2 ^ 64"
    using length_sample_manifest by (simp add: length_sample_file)
  have "serving sample_file source_new" by (simp add: serving_def source_new_def)
  moreover have "f_manifest_compressed (pd_footer sample_loaded) \<le> MAX_PROBE_READ"
    using length_sample_manifest
    by (simp add: sample_loaded_def sample_load_footer_def MAX_PROBE_READ_def word_le_nat_alt unat_of_nat)
  ultimately show ?thesis
    using probe_agrees_with_loader [OF sample_file_loads _ l] by (fastforce simp: sample_loaded_def)
qed

section \<open>A source of one release\<close>

text \<open>
  A source whose successful fetches are the bytes of one release \<open>R\<close>: what the assembly of an update
  relies on. \<open>live\<close> holds of the states in which it is.
\<close>

locale release_source = range_source +
  fixes R :: bytes and live :: "'s \<Rightarrow> bool"
  assumes fetch_serves: "live s \<Longrightarrow> fetch a l s = (Inr bs, t) \<Longrightarrow>
      bs = slice (unat a) (unat a + unat l) R"
    and fetch_live: "live s \<Longrightarrow> fetch a l s = (r, t) \<Longrightarrow> live t"

lemma fetch_serve_live:
  assumes "serving R s" "length R < 2 ^ 64" "fetch_range (serve R) a l s = (r, t)"
  shows "serving R t \<and> (\<forall>bs. r = Inr bs \<longrightarrow> bs = slice (unat a) (unat a + unat l) R)"
proof (cases "unat a + unat l \<le> length R")
  case True
  then show ?thesis using fetch_range_serve [OF assms(1,2) True] assms(3) by auto
next
  case False
  show ?thesis
  proof (cases "l = 0")
    case True
    then show ?thesis using assms by (auto simp: fetch_range_def slice_def)
  next
    case l: False
    then have l1: "unat (l - 1) = unat l - 1" "unat l > 0" by (simp_all add: unat_minus_one unat_gt_0)
    show ?thesis
    proof (cases "checked_add_u64 a (l - 1)")
      case None
      then show ?thesis using l assms by (auto simp: fetch_range_def serving_def)
    next
      case (Some e)
      then have ue: "unat e = unat a + unat l - 1" using l1 by (auto simp: checked_add_u64_Some_iff)
      obtain u where u: "source_size (serve R) s = (Inr (of_nat (length R)), u)" "serving R u"
        using serve_size [OF assms(1,2)] by blast
      have "\<not> unat e < length R" using ue False l1 by simp
      then have "fetch_scoped (serve R) a l e (of_nat (length R)) u
          = (Inl (Other ''HTTP error status''), u\<lparr> so_clock := Suc (so_clock u) \<rparr>)"
        by (simp add: fetch_scoped_def call_def serve_def range_verdict_def)
      then have "r = Inl (Other ''HTTP error status'') \<and> t = u\<lparr> so_clock := Suc (so_clock u) \<rparr>"
        using l assms(1,3) Some u(1) by (simp add: fetch_range_def serving_def seqS_def)
      then show ?thesis using u(2) by (simp add: serving_def)
    qed
  qed
qed

interpretation served: release_source "source_size (serve R)" "fetch_range (serve R)"
  "\<lambda>s. map_option fst (so_release s)" R "\<lambda>s. serving R s \<and> length R < 2 ^ 64" for R
  by unfold_locales (auto dest: fetch_serve_live)

text \<open>A source that also answers: every range inside the release is served.\<close>

locale answering_source = release_source +
  assumes fetch_answers: "live s \<Longrightarrow> unat a + unat l \<le> length R \<Longrightarrow> \<exists>bs t. fetch a l s = (Inr bs, t)"

interpretation answers: answering_source "source_size (serve R)" "fetch_range (serve R)"
  "\<lambda>s. map_option fst (so_release s)" R "\<lambda>s. serving R s \<and> length R < 2 ^ 64" for R
  by unfold_locales (use fetch_range_serve in blast)

end
