(* ===== verification/Delta_Plan.thy ===== *)
theory Delta_Plan
  imports Range_Source "HOL-Library.Sublist"
begin

text \<open>
  The planning half of \<open>update/delta.rs\<close>: which bytes of a release are copied from the running
  package and which are fetched. Offsets are 64-bit words as in the code.
\<close>

record copy_range =
  cr_dst :: u64
  cr_src :: u64
  cr_len :: u64

datatype check = Raw bytes | Decoded bytes nat | BlockDigest u64

record copy_group =
  cg_ranges :: "copy_range list"
  cg_check :: check

record span =
  sp_start :: u64
  sp_len :: u64

datatype prefix_choice = PrefixCopy u64 | PrefixFetch u64

record plan =
  pl_prefix :: prefix_choice
  pl_dict :: "bytes option"
  pl_copies :: "copy_group list"
  pl_fetch :: "span list"
  pl_digests :: "(u64 \<times> u64) list"
  pl_unit :: bytes
  pl_known :: "(u64 \<times> bytes) option"

definition span_end :: "span \<Rightarrow> u64" where "span_end s = sp_start s + sp_len s"

section \<open>Spans\<close>

text \<open>The loop of \<open>complement\<close> over the sorted ranges; \<open>at\<close> is the first byte not yet decided.\<close>

fun complement_from :: "u64 \<Rightarrow> u64 \<Rightarrow> (u64 \<times> u64) list \<Rightarrow> span list" where
  "complement_from at end' [] =
     (if at < end' then [\<lparr> sp_start = at, sp_len = end' - at \<rparr>] else [])"
| "complement_from at end' ((s, e) # taken) =
     (if e \<le> at \<or> e \<le> s then complement_from at end' taken
      else
        let s' = max s at in
        (if s' > at then [\<lparr> sp_start = at, sp_len = s' - at \<rparr>] else [])
          @ complement_from (max at e) end' taken)"

definition complement :: "u64 \<Rightarrow> u64 \<Rightarrow> (u64 \<times> u64) list \<Rightarrow> span list" where
  "complement start end' taken = complement_from start end' (sort_key fst taken)"

definition extend_fetch :: "span list \<Rightarrow> u64 \<Rightarrow> u64 \<Rightarrow> span list" where
  "extend_fetch spans start len =
     (if spans \<noteq> [] \<and> span_end (last spans) = start
      then butlast spans @ [(last spans)\<lparr> sp_len := sp_len (last spans) + len \<rparr>]
      else spans @ [\<lparr> sp_start = start, sp_len = len \<rparr>])"

definition FETCH_GAP_MAX :: u64 where "FETCH_GAP_MAX = 128 * 1024"

text \<open>The merge loop of \<open>coalesce\<close>, by the last merged span and the spans left.\<close>

fun merge_from :: "span \<Rightarrow> span list \<Rightarrow> span list" where
  "merge_from l [] = [l]"
| "merge_from l (s # rest) =
     (let last_end = span_end l in
      if sp_start s \<le> saturating_add_u64 last_end FETCH_GAP_MAX
      then merge_from (l\<lparr> sp_len := max last_end (span_end s) - sp_start l \<rparr>) rest
      else l # merge_from s rest)"

definition merge_spans :: "span list \<Rightarrow> span list" where
  "merge_spans spans = (case spans of [] \<Rightarrow> [] | s # rest \<Rightarrow> merge_from s rest)"

definition range_fetched :: "span list \<Rightarrow> copy_range \<Rightarrow> bool" where
  "range_fetched fetch r =
     (let i = length (takeWhile (\<lambda>s. sp_start s \<le> cr_dst r) fetch)
      in i > 0 \<and> cr_dst r + cr_len r \<le> span_end (fetch ! (i - 1)))"

definition coalesce :: "plan \<Rightarrow> plan" where
  "coalesce p =
     (let fetch = merge_spans (sort_key sp_start (pl_fetch p))
      in p\<lparr> pl_fetch := fetch,
            pl_copies := filter (\<lambda>g. \<not> list_all (range_fetched fetch) (cg_ranges g)) (pl_copies p) \<rparr>)"

section \<open>What a plan covers\<close>

definition span_bytes :: "span \<Rightarrow> nat set" where
  "span_bytes s = {unat (sp_start s) ..< unat (sp_start s) + unat (sp_len s)}"

definition copy_bytes :: "copy_range \<Rightarrow> nat set" where
  "copy_bytes r = {unat (cr_dst r) ..< unat (cr_dst r) + unat (cr_len r)}"

definition spans_bytes :: "span list \<Rightarrow> nat set" where
  "spans_bytes ss = (\<Union>s \<in> set ss. span_bytes s)"

definition copies_bytes :: "copy_group list \<Rightarrow> nat set" where
  "copies_bytes gs = (\<Union>g \<in> set gs. \<Union>r \<in> set (cg_ranges g). copy_bytes r)"

definition taken_bytes :: "(u64 \<times> u64) list \<Rightarrow> nat set" where
  "taken_bytes rs = (\<Union>(s, e) \<in> set rs. {unat s ..< unat e})"

text \<open>A span or range whose end does not wrap.\<close>

definition span_ok :: "span \<Rightarrow> bool" where
  "span_ok s \<longleftrightarrow> unat (sp_start s) + unat (sp_len s) < 2 ^ 64"

definition copy_ok :: "copy_range \<Rightarrow> bool" where
  "copy_ok r \<longleftrightarrow> unat (cr_dst r) + unat (cr_len r) < 2 ^ 64"

lemma spans_bytes_simps [simp]:
  "spans_bytes [] = {}" "spans_bytes (s # ss) = span_bytes s \<union> spans_bytes ss"
  "spans_bytes (xs @ ys) = spans_bytes xs \<union> spans_bytes ys"
  by (auto simp: spans_bytes_def)

lemma taken_bytes_simps [simp]:
  "taken_bytes [] = {}" "taken_bytes ((s, e) # rs) = {unat s ..< unat e} \<union> taken_bytes rs"
  by (auto simp: taken_bytes_def)

lemma span_end_unat: "span_ok s \<Longrightarrow> unat (span_end s) = unat (sp_start s) + unat (sp_len s)"
  by (simp add: span_ok_def span_end_def unat_add_lem [where 'a = 64, simplified, THEN iffD1])

text \<open>Ascending spans that do not even touch.\<close>

definition apart :: "nat \<Rightarrow> span list \<Rightarrow> bool" where
  "apart gap ss \<longleftrightarrow> sorted_wrt (\<lambda>a b. unat (sp_start a) + unat (sp_len a) + gap < unat (sp_start b)) ss"

lemma complement_from_spec:
  assumes "sorted (map fst taken)" "\<forall>(s, e) \<in> set taken. s < e \<longrightarrow> e \<le> end'"
  shows "spans_bytes (complement_from at end' taken) = {unat at ..< unat end'} - taken_bytes taken
    \<and> (\<forall>s \<in> set (complement_from at end' taken). sp_len s \<noteq> 0 \<and> span_ok s \<and> at \<le> sp_start s)
    \<and> apart 0 (complement_from at end' taken)"
  using assms
proof (induction taken arbitrary: at)
  case Nil
  show ?case
    using unat_bounds(4) [of end']
    by (auto simp: span_bytes_def span_ok_def apart_def word_less_nat_alt unat_sub word_le_nat_alt
        word_unat_eq_iff)
next
  case (Cons r taken)
  obtain s e where r: "r = (s, e)" by fastforce
  show ?case
  proof (cases "e \<le> at \<or> e \<le> s")
    case True
    then have "{unat at ..< unat end'} - {unat s ..< unat e} = {unat at ..< unat end'}"
      by (auto simp: word_le_nat_alt)
    then show ?thesis using True Cons by (auto simp: r Diff_Un simp del: Diff_iff)
  next
    case False
    then have lt: "at < e" "s < e" "e \<le> end'" using Cons.prems by (auto simp: r)
    have mx: "max at e = e" using lt by (simp add: max.absorb2)
    note IH = Cons.IH [of e]
    have IH1: "spans_bytes (complement_from e end' taken) = {unat e ..< unat end'} - taken_bytes taken"
      and IH2: "\<forall>s \<in> set (complement_from e end' taken). sp_len s \<noteq> 0 \<and> span_ok s \<and> e \<le> sp_start s"
      and IH3: "apart 0 (complement_from e end' taken)"
      using IH Cons.prems by auto
    have after: "unat s \<le> unat s'" if "(s', e') \<in> set taken" for s' e'
      using Cons.prems(1) that by (fastforce simp: r word_le_nat_alt)
    have below: "{unat at ..< unat s} \<inter> taken_bytes taken = {}"
      using after by (fastforce simp: taken_bytes_def)
    show ?thesis
    proof (cases "at < s")
      case True
      then have sp: "span_bytes \<lparr> sp_start = at, sp_len = s - at \<rparr> = {unat at ..< unat s}"
        "span_ok \<lparr> sp_start = at, sp_len = s - at \<rparr>"
        using unat_bounds(4) [of s]
        by (auto simp: span_bytes_def span_ok_def word_less_nat_alt unat_sub word_le_nat_alt)
      have c: "complement_from at end' (r # taken)
          = \<lparr> sp_start = at, sp_len = s - at \<rparr> # complement_from e end' taken"
        using True False mx max.absorb1 [of at s] by (simp add: r)
      have "spans_bytes (complement_from at end' (r # taken))
          = {unat at ..< unat end'} - taken_bytes (r # taken)"
        unfolding c using sp(1) IH1 below lt True
        by (auto simp: r word_less_nat_alt word_le_nat_alt)
      moreover have "\<forall>s \<in> set (complement_from at end' (r # taken)).
          sp_len s \<noteq> 0 \<and> span_ok s \<and> at \<le> sp_start s"
        unfolding c using sp(2) IH2 lt True by (auto simp: word_le_nat_alt word_less_nat_alt)
      moreover have "apart 0 (complement_from at end' (r # taken))"
        unfolding c using sp IH2 IH3 lt True
        by (auto simp: apart_def word_less_nat_alt word_le_nat_alt unat_sub)
      ultimately show ?thesis by blast
    next
      case False
      with lt \<open>\<not> (e \<le> at \<or> e \<le> s)\<close>
      have c: "complement_from at end' (r # taken) = complement_from e end' taken"
        using mx max.absorb2 [of s at] by (simp add: r)
      have "spans_bytes (complement_from e end' taken) = {unat at ..< unat end'} - taken_bytes (r # taken)"
        using IH1 lt False by (auto simp: r word_less_nat_alt word_le_nat_alt)
      then show ?thesis unfolding c using IH2 IH3 lt by (auto intro: order_trans)
    qed
  qed
qed

text \<open>
  The fetch list of an image plan is the exact complement of what is reused: no byte of the
  image is fetched that a copy or a recomputed digest provides, none is left out, and the spans are
  non-empty, ascending and never touch, so no two requests could be one.
\<close>

theorem complement_exact:
  assumes "\<forall>(s, e) \<in> set taken. s < e \<longrightarrow> e \<le> end'"
  shows "spans_bytes (complement start end' taken) = {unat start ..< unat end'} - taken_bytes taken
    \<and> (\<forall>s \<in> set (complement start end' taken). sp_len s \<noteq> 0 \<and> span_ok s)
    \<and> apart 0 (complement start end' taken)"
proof -
  have "taken_bytes (sort_key fst taken) = taken_bytes taken" by (simp add: taken_bytes_def)
  moreover have "\<forall>(s, e) \<in> set (sort_key fst taken). s < e \<longrightarrow> e \<le> end'" using assms by simp
  ultimately show ?thesis
    using complement_from_spec [of "sort_key fst taken" end' start] by (simp add: complement_def)
qed

theorem complement_exact_witness:
  "spans_bytes (complement 10 100 [(40, 60), (10, 20), (50, 55), (90, 100)])
    = {10 ..< 100} - ({40 ..< 60} \<union> {10 ..< 20} \<union> {50 ..< 55} \<union> {90 ..< 100})"
  using complement_exact [of "[(40, 60), (10, 20), (50, 55), (90, 100)]" 100 10]
  by (simp add: Un_assoc)

section \<open>Merging requests\<close>

lemma merge_step:
  assumes "span_ok l" "span_ok s" "sp_start l \<le> sp_start s"
  defines "m \<equiv> l\<lparr> sp_len := max (span_end l) (span_end s) - sp_start l \<rparr>"
  shows "span_ok m" "sp_start m = sp_start l" "unat (span_end m) = max (unat (span_end l)) (unat (span_end s))"
    "span_bytes l \<union> span_bytes s \<subseteq> span_bytes m"
proof -
  have e: "unat (span_end l) = unat (sp_start l) + unat (sp_len l)"
    "unat (span_end s) = unat (sp_start s) + unat (sp_len s)"
    using assms by (simp_all add: span_end_unat)
  have mx: "unat (max (span_end l) (span_end s)) = max (unat (span_end l)) (unat (span_end s))"
    by (simp add: max_def word_le_nat_alt)
  have le: "sp_start l \<le> max (span_end l) (span_end s)"
    using e(1) mx by (simp add: word_le_nat_alt)
  then have len: "unat (sp_len m) = max (unat (span_end l)) (unat (span_end s)) - unat (sp_start l)"
    by (simp add: m_def unat_sub mx)
  show ok: "span_ok m" "sp_start m = sp_start l"
    using len e unat_bounds(4) [of "span_end l"] unat_bounds(4) [of "span_end s"]
    by (auto simp: span_ok_def m_def)
  show "unat (span_end m) = max (unat (span_end l)) (unat (span_end s))"
    using span_end_unat [OF ok(1)] ok(2) len e by simp
  show "span_bytes l \<union> span_bytes s \<subseteq> span_bytes m"
    using assms(3) e len ok(2) by (auto simp: span_bytes_def word_le_nat_alt)
qed

lemma merge_from_spec:
  assumes "span_ok l" "\<forall>s \<in> set rest. span_ok s \<and> sp_start l \<le> sp_start s"
    and "sorted (map sp_start rest)"
  shows "(\<forall>s \<in> set (merge_from l rest). span_ok s \<and> sp_start l \<le> sp_start s)
    \<and> span_bytes l \<union> spans_bytes rest \<subseteq> spans_bytes (merge_from l rest)
    \<and> apart (unat FETCH_GAP_MAX) (merge_from l rest)"
  using assms
proof (induction l rest rule: merge_from.induct)
  case (1 l)
  then show ?case by (simp add: apart_def)
next
  case (2 l s rest)
  have s: "span_ok s" "sp_start l \<le> sp_start s" "\<forall>x \<in> set rest. sp_start s \<le> sp_start x"
    using 2(4,5) by auto
  show ?case
  proof (cases "sp_start s \<le> saturating_add_u64 (span_end l) FETCH_GAP_MAX")
    case True
    note m = merge_step [OF 2(3) s(1,2)]
    from 2(1) [OF refl True m(1)] 2(4,5) m(2,4) True show ?thesis
      by (auto simp: Let_def)
  next
    case False
    then have far: "unat (span_end l) + unat FETCH_GAP_MAX < unat (sp_start s)"
      using unat_bounds(4) [of "sp_start s"]
      by (auto simp: word_le_nat_alt unat_saturating_add_u64)
    from 2(2) [OF refl False s(1)] 2(4,5) s(3)
    have IH: "\<forall>x \<in> set (merge_from s rest). span_ok x \<and> sp_start s \<le> sp_start x"
      "span_bytes s \<union> spans_bytes rest \<subseteq> spans_bytes (merge_from s rest)"
      "apart (unat FETCH_GAP_MAX) (merge_from s rest)" by auto
    have "unat (sp_start l) + unat (sp_len l) + unat FETCH_GAP_MAX < unat (sp_start x)"
      if "x \<in> set (merge_from s rest)" for x
      using IH(1) that far span_end_unat [OF 2(3)] by (fastforce simp: word_le_nat_alt)
    then show ?thesis using False IH 2(3) s(2)
      by (auto simp: Let_def apart_def intro: order_trans)
  qed
qed

lemma merge_spans_spec:
  assumes "\<forall>s \<in> set spans. span_ok s"
  shows "(\<forall>s \<in> set (merge_spans (sort_key sp_start spans)). span_ok s)
    \<and> spans_bytes spans \<subseteq> spans_bytes (merge_spans (sort_key sp_start spans))
    \<and> apart (unat FETCH_GAP_MAX) (merge_spans (sort_key sp_start spans))"
proof (cases "sort_key sp_start spans")
  case Nil
  then have "spans = []" by (metis length_0_conv length_sort)
  then show ?thesis by (simp add: merge_spans_def apart_def)
next
  case (Cons l rest)
  have set: "set spans = insert l (set rest)" using Cons by (metis set_sort list.simps(15))
  have "sorted (map sp_start (l # rest))" using Cons by (metis sorted_sort_key)
  then have "\<forall>s \<in> set rest. sp_start l \<le> sp_start s" "sorted (map sp_start rest)" by auto
  with merge_from_spec [of l rest] assms set Cons show ?thesis
    by (auto simp: merge_spans_def spans_bytes_def)
qed

lemma range_fetched_covered:
  assumes "range_fetched fetch r" "copy_ok r" "\<forall>s \<in> set fetch. span_ok s"
  shows "copy_bytes r \<subseteq> spans_bytes fetch"
proof -
  define i where "i = length (takeWhile (\<lambda>s. sp_start s \<le> cr_dst r) fetch)"
  have i: "i > 0" "cr_dst r + cr_len r \<le> span_end (fetch ! (i - 1))"
    using assms(1) by (simp_all add: range_fetched_def i_def Let_def)
  let ?s = "fetch ! (i - 1)"
  have il: "i \<le> length fetch" by (simp add: i_def length_takeWhile_le)
  then have mem: "?s \<in> set fetch" using i by simp
  have "?s = takeWhile (\<lambda>s. sp_start s \<le> cr_dst r) fetch ! (i - 1)"
    using i by (simp add: i_def takeWhile_nth)
  moreover have "takeWhile (\<lambda>s. sp_start s \<le> cr_dst r) fetch ! (i - 1)
      \<in> set (takeWhile (\<lambda>s. sp_start s \<le> cr_dst r) fetch)"
    using i by (intro nth_mem) (simp add: i_def)
  ultimately have "sp_start ?s \<le> cr_dst r" by (metis set_takeWhileD)
  moreover have "unat (cr_dst r + cr_len r) = unat (cr_dst r) + unat (cr_len r)"
    using assms(2) unat_add_lem [of "cr_dst r" "cr_len r"] by (simp add: copy_ok_def)
  ultimately have "copy_bytes r \<subseteq> span_bytes ?s"
    using i(2) span_end_unat [of ?s] assms(3) mem
    by (auto simp: copy_bytes_def span_bytes_def word_le_nat_alt)
  then show ?thesis using mem by (auto simp: spans_bytes_def)
qed

lemma coalesce_spec:
  assumes "\<forall>s \<in> set (pl_fetch p). span_ok s"
    and "\<forall>g \<in> set (pl_copies p). \<forall>r \<in> set (cg_ranges g). copy_ok r"
  shows "spans_bytes (pl_fetch p) \<subseteq> spans_bytes (pl_fetch (coalesce p))
    \<and> copies_bytes (pl_copies p) \<union> spans_bytes (pl_fetch p)
        \<subseteq> copies_bytes (pl_copies (coalesce p)) \<union> spans_bytes (pl_fetch (coalesce p))
    \<and> subseq (pl_copies (coalesce p)) (pl_copies p)
    \<and> (\<forall>s \<in> set (pl_fetch (coalesce p)). span_ok s)
    \<and> apart 131072 (pl_fetch (coalesce p))"
proof -
  let ?f = "pl_fetch (coalesce p)"
  have f: "?f = merge_spans (sort_key sp_start (pl_fetch p))" by (simp add: coalesce_def Let_def)
  have g: "pl_copies (coalesce p)
      = filter (\<lambda>g. \<not> list_all (range_fetched ?f) (cg_ranges g)) (pl_copies p)"
    unfolding f by (simp add: coalesce_def Let_def)
  note m = merge_spans_spec [OF assms(1), folded f]
  have "copy_bytes r \<subseteq> spans_bytes ?f"
    if "g \<in> set (pl_copies p)" "list_all (range_fetched ?f) (cg_ranges g)" "r \<in> set (cg_ranges g)" for g r
    using range_fetched_covered [of ?f r] that assms(2) m by (auto simp: list_all_iff)
  then have "copies_bytes (pl_copies p)
      \<subseteq> copies_bytes (pl_copies (coalesce p)) \<union> spans_bytes ?f"
    unfolding g copies_bytes_def by fastforce
  moreover have "unat FETCH_GAP_MAX = 131072" by (simp add: FETCH_GAP_MAX_def)
  ultimately show ?thesis using m by (auto simp: g)
qed

text \<open>
  C30: Merging requests loses nothing. Every byte the plan copied or fetched is still copied or
  fetched, every span still fetched is, a copy group is kept unchanged or dropped, and the merged
  requests lie more than 128 KiB apart.
\<close>

theorem coalesce_keeps_coverage:
  assumes "\<forall>s \<in> set (pl_fetch p). span_ok s"
    and "\<forall>g \<in> set (pl_copies p). \<forall>r \<in> set (cg_ranges g). copy_ok r"
  shows "spans_bytes (pl_fetch p) \<subseteq> spans_bytes (pl_fetch (coalesce p))
    \<and> copies_bytes (pl_copies p) \<union> spans_bytes (pl_fetch p)
        \<subseteq> copies_bytes (pl_copies (coalesce p)) \<union> spans_bytes (pl_fetch (coalesce p))
    \<and> subseq (pl_copies (coalesce p)) (pl_copies p)
    \<and> (\<forall>s \<in> set (pl_fetch (coalesce p)). span_ok s)
    \<and> apart 131072 (pl_fetch (coalesce p))"
  by (rule coalesce_spec [OF assms])

definition sample_group :: "u64 \<Rightarrow> copy_group" where
  "sample_group dst = \<lparr> cg_ranges = [\<lparr> cr_dst = dst, cr_src = 7, cr_len = 50 \<rparr>], cg_check = Raw [1] \<rparr>"

definition sample_plan :: plan where
  "sample_plan = \<lparr> pl_prefix = PrefixFetch 0, pl_dict = None,
     pl_copies = [sample_group 100, sample_group 500000],
     pl_fetch = [\<lparr> sp_start = 150, sp_len = 10 \<rparr>, \<lparr> sp_start = 0, sp_len = 100 \<rparr>,
       \<lparr> sp_start = 400000, sp_len = 9 \<rparr>],
     pl_digests = [], pl_unit = lit ''blocks'', pl_known = None \<rparr>"

theorem coalesce_keeps_coverage_witness:
  "pl_copies (coalesce sample_plan) = [sample_group 500000]
   \<and> pl_fetch (coalesce sample_plan)
     = [\<lparr> sp_start = 0, sp_len = 160 \<rparr>, \<lparr> sp_start = 400000, sp_len = 9 \<rparr>]
   \<and> apart 131072 (pl_fetch (coalesce sample_plan))"
proof -
  have a: "\<forall>s \<in> set (pl_fetch sample_plan). span_ok s"
    "\<forall>g \<in> set (pl_copies sample_plan). \<forall>r \<in> set (cg_ranges g). copy_ok r"
    by (simp_all add: sample_plan_def sample_group_def span_ok_def copy_ok_def)
  have f: "merge_spans (sort_key sp_start (pl_fetch sample_plan))
      = [\<lparr> sp_start = 0, sp_len = 160 \<rparr>, \<lparr> sp_start = 400000, sp_len = 9 \<rparr>]"
    by (simp add: sample_plan_def merge_spans_def span_end_def saturating_add_u64_def
        FETCH_GAP_MAX_def max_def)
  have "pl_copies (coalesce sample_plan) = [sample_group 500000]"
    unfolding coalesce_def Let_def f
    by (simp add: sample_plan_def sample_group_def range_fetched_def span_end_def)
  moreover have "pl_fetch (coalesce sample_plan)
      = [\<lparr> sp_start = 0, sp_len = 160 \<rparr>, \<lparr> sp_start = 400000, sp_len = 9 \<rparr>]"
    unfolding coalesce_def Let_def f by simp
  ultimately show ?thesis using coalesce_keeps_coverage [OF a] by simp
qed

section \<open>Planning a blocks payload\<close>

definition DICT_MAX_BYTES :: u64 where "DICT_MAX_BYTES = 64 * 1024 * 1024"

definition fetch_dict :: "(u64 \<Rightarrow> u64 \<Rightarrow> ('s, fetch_error, bytes) step) \<Rightarrow> footer
    \<Rightarrow> ('s, string, bytes option) step" where
  "fetch_dict fetch f =
     (if \<not> flags_contains (f_flags f) HAS_DICT \<or> f_dict_size f = 0 then returnS None
      else if ucast (f_dict_size f) > DICT_MAX_BYTES
      then failS ''the release claims too large a dictionary''
      else
        seqS (map_errS (\<lambda>_. ''read dictionary'')
               (read_range fetch (f_dict_offset f) (ucast (f_dict_size f)))) (\<lambda>dict.
        returnS (Some dict)))"

definition prefix_plan :: "footer \<Rightarrow> manifest \<Rightarrow> remote_package \<Rightarrow> prefix_choice" where
  "prefix_plan lf lm remote =
     (if h_prefix_hash (m_header lm) = h_prefix_hash (m_header (rp_manifest remote))
         \<and> h_version (m_header lm) \<ge> 3
         \<and> f_manifest_offset lf = f_manifest_offset (rp_footer remote)
      then PrefixCopy (f_manifest_offset (rp_footer remote))
      else PrefixFetch (f_manifest_offset (rp_footer remote)))"

text \<open>The blocks of the file entries, in the order both loops visit them.\<close>

definition file_blocks :: "manifest \<Rightarrow> block list" where
  "file_blocks m = concat (map e_blocks (filter (\<lambda>e. e_kind e = File) (m_entries m)))"

type_synonym block_index = "bytes \<rightharpoonup> u64 \<times> u64"

definition index_block :: "footer \<Rightarrow> block \<Rightarrow> block_index \<times> u64 set \<Rightarrow> string + block_index \<times> u64 set" where
  "index_block f b st =
     (case st of (index, seen) \<Rightarrow>
        if b_payload_offset b \<in> seen then Inr st
        else
          tryE (map_err (\<lambda>_. ''running package'') (block_extent usize_max f b)) (\<lambda>(abs, len).
          Inr (index(b_content_hash b \<mapsto> (abs, of_nat len)), insert (b_payload_offset b) seen)))"

definition local_index :: "footer \<Rightarrow> manifest \<Rightarrow> string + block_index" where
  "local_index f m =
     tryE (foldE (index_block f) (file_blocks m) (Map.empty, {})) (\<lambda>(index, _). Inr index)"

definition block_check :: "footer \<Rightarrow> block \<Rightarrow> string + check" where
  "block_check f b =
     (if is_stored f then Inr (Raw (b_content_hash b))
      else
        tryE (map_err (\<lambda>_. ''plan the delta'') (block_original_size usize_max b)) (\<lambda>original.
        Inr (Decoded (b_content_hash b) original)))"

definition plan_block :: "footer \<Rightarrow> block_index \<Rightarrow> bool \<Rightarrow> block
    \<Rightarrow> copy_group list \<times> span list \<times> u64 set
    \<Rightarrow> string + copy_group list \<times> span list \<times> u64 set" where
  "plan_block f index comparable b st =
     (case st of (copies, fetch, seen) \<Rightarrow>
        if b_payload_offset b \<in> seen then Inr st
        else
          let seen' = insert (b_payload_offset b) seen in
          tryE (map_err (\<lambda>_. ''release'') (block_extent usize_max f b)) (\<lambda>(dst, n).
          let len = of_nat n in
          case index (b_content_hash b) of
            Some (src, src_len) \<Rightarrow>
              if comparable \<and> src_len = len then
                tryE (block_check f b) (\<lambda>chk.
                Inr (copies @ [\<lparr> cg_ranges = [\<lparr> cr_dst = dst, cr_src = src, cr_len = len \<rparr>],
                                cg_check = chk \<rparr>], fetch, seen'))
              else Inr (copies, extend_fetch fetch dst len, seen')
          | None \<Rightarrow> Inr (copies, extend_fetch fetch dst len, seen')))"

definition plan_blocks :: "'r package_data \<Rightarrow> remote_package
    \<Rightarrow> (u64 \<Rightarrow> u64 \<Rightarrow> ('s, fetch_error, bytes) step) \<Rightarrow> ('s, string, plan) step" where
  "plan_blocks pkg remote fetch =
     seqS (fetch_dict fetch (rp_footer remote)) (\<lambda>remote_dict.
     let comparable = (codec_dict (pd_codec pkg) = remote_dict
           \<and> is_stored (pd_footer pkg) = is_stored (rp_footer remote))
     in
     seqS (liftS (local_index (pd_footer pkg) (pd_manifest pkg))) (\<lambda>index.
     seqS (liftS (foldE (plan_block (rp_footer remote) index comparable)
                    (file_blocks (rp_manifest remote)) ([], [], {}))) (\<lambda>(copies, spans, _).
     returnS \<lparr> pl_prefix = prefix_plan (pd_footer pkg) (pd_manifest pkg) remote,
               pl_dict = remote_dict, pl_copies = copies, pl_fetch = spans, pl_digests = [],
               pl_unit = lit ''blocks'', pl_known = None \<rparr>)))"

section \<open>A blocks plan covers the payload it plans\<close>

lemma block_extent_Inr:
  assumes "block_extent usize_max f b = Inr (dst, n)"
  shows "n = unat (b_compressed_size b) \<and> unat (of_nat n :: u64) = n \<and> unat dst + n < 2 ^ 64
    \<and> unat dst = unat (f_payload_offset f) + unat (b_payload_offset b)"
proof -
  from assms obtain pe where a: "checked_add_u64 (f_payload_offset f) (b_payload_offset b) = Some dst"
    "in_bounds dst (b_compressed_size b) pe" "n = unat (b_compressed_size b)"
    by (auto simp: block_extent_def tryE_Inr_iff split: if_splits)
  then show ?thesis
    using unat_bounds(4) [of pe] by (auto simp: in_bounds_iff checked_add_u64_Some_iff)
qed

definition extent_bytes :: "footer \<Rightarrow> block \<Rightarrow> nat set" where
  "extent_bytes f b =
     (let start = unat (f_payload_offset f) + unat (b_payload_offset b)
      in {start ..< start + unat (b_compressed_size b)})"

lemma extend_fetch_spec:
  assumes "\<forall>s \<in> set spans. span_ok s" "unat start + unat len < 2 ^ 64"
  shows "(\<forall>s \<in> set (extend_fetch spans start len). span_ok s)
    \<and> spans_bytes (extend_fetch spans start len)
      = spans_bytes spans \<union> {unat start ..< unat start + unat len}"
proof (cases "spans \<noteq> [] \<and> span_end (last spans) = start")
  case True
  then obtain xs l where l: "spans = xs @ [l]" "span_end l = start" by (cases spans rule: rev_cases) auto
  have ok: "span_ok l" using assms(1) l by simp
  note e = span_end_unat [OF ok, unfolded l(2)]
  have len: "unat (sp_len l + len) = unat (sp_len l) + unat len"
    using e assms(2) unat_add_lem [of "sp_len l" len] by simp
  show ?thesis
    using assms l e len by (auto simp: extend_fetch_def span_ok_def span_bytes_def)
next
  case False
  then show ?thesis using assms by (auto simp: extend_fetch_def span_ok_def span_bytes_def)
qed

text \<open>A copy group a blocks plan may hold: one range, the extent of a release block whose content
  hash the running package also has, at the same length.\<close>

definition block_group :: "footer \<Rightarrow> block_index \<Rightarrow> block list \<Rightarrow> copy_group \<Rightarrow> bool" where
  "block_group f index bs g \<longleftrightarrow>
     (\<exists>b \<in> set bs. \<exists>dst n src. block_extent usize_max f b = Inr (dst, n)
        \<and> index (b_content_hash b) = Some (src, of_nat n)
        \<and> cg_ranges g = [\<lparr> cr_dst = dst, cr_src = src, cr_len = of_nat n \<rparr>]
        \<and> block_check f b = Inr (cg_check g))"

definition plan_inv :: "footer \<Rightarrow> block_index \<Rightarrow> bool \<Rightarrow> block list
    \<Rightarrow> copy_group list \<times> span list \<times> u64 set \<Rightarrow> bool" where
  "plan_inv f index comparable bs st \<longleftrightarrow>
     (case st of (copies, fetch, seen) \<Rightarrow>
        (\<forall>s \<in> set fetch. span_ok s)
        \<and> (\<forall>g \<in> set copies. comparable \<and> block_group f index bs g)
        \<and> (\<forall>off \<in> seen. \<exists>b \<in> set bs. b_payload_offset b = off
             \<and> extent_bytes f b \<subseteq> copies_bytes copies \<union> spans_bytes fetch))"

lemma copies_bytes_simps [simp]:
  "copies_bytes [] = {}" "copies_bytes (xs @ ys) = copies_bytes xs \<union> copies_bytes ys"
  "copies_bytes [g] = (\<Union>r \<in> set (cg_ranges g). copy_bytes r)"
  by (auto simp: copies_bytes_def)

lemma plan_block_inv:
  assumes "plan_block f index comparable b st = Inr st'" "plan_inv f index comparable bs st" "b \<in> set bs"
  shows "plan_inv f index comparable bs st'"
proof -
  obtain copies fetch seen where st: "st = (copies, fetch, seen)" by (cases st) auto
  show ?thesis
  proof (cases "b_payload_offset b \<in> seen")
    case True
    then show ?thesis using assms st by (simp add: plan_block_def)
  next
    case False
    with assms(1) st obtain dst n where ext: "block_extent usize_max f b = Inr (dst, n)"
      by (auto simp: plan_block_def Let_def tryE_Inr_iff)
    note x = block_extent_Inr [OF ext]
    have bytes: "extent_bytes f b = {unat dst ..< unat dst + n}"
      using x by (simp add: extent_bytes_def Let_def)
    let ?new = "insert (b_payload_offset b) seen"
    have inv: "\<forall>s \<in> set fetch. span_ok s" "\<forall>g \<in> set copies. comparable \<and> block_group f index bs g"
      "\<forall>off \<in> seen. \<exists>c \<in> set bs. b_payload_offset c = off
         \<and> extent_bytes f c \<subseteq> copies_bytes copies \<union> spans_bytes fetch"
      using assms(2) by (simp_all add: plan_inv_def st)
    have cover: "\<forall>off \<in> ?new. \<exists>c \<in> set bs. b_payload_offset c = off \<and> extent_bytes f c \<subseteq> X"
      if X: "copies_bytes copies \<union> spans_bytes fetch \<union> extent_bytes f b \<subseteq> X" for X
    proof
      fix off assume "off \<in> ?new"
      then consider "off = b_payload_offset b" | "off \<in> seen" by blast
      then show "\<exists>c \<in> set bs. b_payload_offset c = off \<and> extent_bytes f c \<subseteq> X"
      proof cases
        case 1
        then show ?thesis using X assms(3) by blast
      next
        case 2
        with inv(3) obtain c where "c \<in> set bs" "b_payload_offset c = off"
          "extent_bytes f c \<subseteq> copies_bytes copies \<union> spans_bytes fetch" by blast
        then show ?thesis using X by blast
      qed
    qed
    consider (copy) src chk where "index (b_content_hash b) = Some (src, of_nat n)" "comparable"
        "block_check f b = Inr chk"
        "st' = (copies @ [\<lparr> cg_ranges = [\<lparr> cr_dst = dst, cr_src = src, cr_len = of_nat n \<rparr>],
            cg_check = chk \<rparr>], fetch, ?new)"
      | (fetch) "st' = (copies, extend_fetch fetch dst (of_nat n), ?new)"
      using assms(1) False st ext
      by (auto simp: plan_block_def Let_def tryE_Inr_iff split: option.splits if_splits)
    then show ?thesis
    proof cases
      case copy
      let ?g = "\<lparr> cg_ranges = [\<lparr> cr_dst = dst, cr_src = src, cr_len = of_nat n \<rparr>], cg_check = chk \<rparr>"
      have "block_group f index bs ?g"
        using copy ext assms(3) by (auto simp: block_group_def)
      moreover have "copies_bytes (copies @ [?g]) = copies_bytes copies \<union> extent_bytes f b"
        using x bytes by (simp add: copy_bytes_def)
      ultimately show ?thesis
        unfolding plan_inv_def copy(4) prod.case
        using inv(1,2) copy(2) cover [of "copies_bytes (copies @ [?g]) \<union> spans_bytes fetch"] by auto
    next
      case fetch
      have "spans_bytes (extend_fetch fetch dst (of_nat n)) = spans_bytes fetch \<union> extent_bytes f b"
        "\<forall>s \<in> set (extend_fetch fetch dst (of_nat n)). span_ok s"
        using extend_fetch_spec [OF inv(1), of dst "of_nat n"] x bytes by simp_all
      then show ?thesis
        unfolding plan_inv_def fetch prod.case
        using inv(2) cover [of "copies_bytes copies \<union> spans_bytes (extend_fetch fetch dst (of_nat n))"]
        by auto
    qed
  qed
qed

lemma plan_block_seen:
  "plan_block f index comparable b (copies, fetch, seen) = Inr (copies', fetch', seen') \<Longrightarrow>
     seen' = insert (b_payload_offset b) seen"
  by (auto simp: plan_block_def Let_def tryE_Inr_iff split: option.splits if_splits)

lemma plan_blocks_seen:
  "foldE (plan_block f index comparable) bs (copies, fetch, seen) = Inr (copies', fetch', seen') \<Longrightarrow>
     seen' = b_payload_offset ` set bs \<union> seen"
proof (induction bs arbitrary: copies fetch seen)
  case (Cons b bs)
  then show ?case by (fastforce simp: tryE_Inr_iff dest: plan_block_seen)
qed simp

lemma index_block_inv:
  assumes "foldE (index_block f) bs (Map.empty, {}) = Inr (index, seen)" "index h = Some (src, len)"
  shows "\<exists>b \<in> set bs. b_content_hash b = h \<and> (\<exists>n. block_extent usize_max f b = Inr (src, n) \<and> len = of_nat n)"
proof -
  define P where "P = (\<lambda>st :: block_index \<times> u64 set. \<forall>h src len. fst st h = Some (src, len) \<longrightarrow>
     (\<exists>b \<in> set bs. b_content_hash b = h
        \<and> (\<exists>n. block_extent usize_max f b = Inr (src, n) \<and> len = of_nat n)))"
  have "P (index, seen)"
    by (rule foldE_invariant [OF assms(1)])
      (auto simp: P_def index_block_def tryE_Inr_iff split: if_splits, blast)
  then show ?thesis using assms(2) by (auto simp: P_def)
qed

lemma plan_blocks_Inr:
  assumes "plan_blocks pkg remote fetch s = (Inr p, t)"
  obtains index seen where "local_index (pd_footer pkg) (pd_manifest pkg) = Inr index"
    "foldE (plan_block (rp_footer remote) index
       (codec_dict (pd_codec pkg) = pl_dict p \<and> is_stored (pd_footer pkg) = is_stored (rp_footer remote)))
       (file_blocks (rp_manifest remote)) ([], [], {}) = Inr (pl_copies p, pl_fetch p, seen)"
    "fetch_dict fetch (rp_footer remote) s = (Inr (pl_dict p), t)"
    "pl_prefix p = prefix_plan (pd_footer pkg) (pd_manifest pkg) remote"
    "pl_digests p = []" "pl_known p = None"
proof -
  let ?c = "\<lambda>d. codec_dict (pd_codec pkg) = d
    \<and> is_stored (pd_footer pkg) = is_stored (rp_footer remote)"
  let ?r = "\<lambda>d. \<lambda>(copies, spans, _ :: u64 set).
       returnS \<lparr> pl_prefix = prefix_plan (pd_footer pkg) (pd_manifest pkg) remote,
               pl_dict = d, pl_copies = copies, pl_fetch = spans, pl_digests = [],
               pl_unit = lit ''blocks'', pl_known = None \<rparr>"
  let ?p = "\<lambda>d index. seqS (liftS (foldE (plan_block (rp_footer remote) index (?c d))
                    (file_blocks (rp_manifest remote)) ([], [], {}))) (?r d)"
  from assms obtain d u1 where d: "fetch_dict fetch (rp_footer remote) s = (Inr d, u1)"
    and 1: "seqS (liftS (local_index (pd_footer pkg) (pd_manifest pkg))) (?p d) u1 = (Inr p, t)"
    unfolding plan_blocks_def Let_def by (rule seqS_Inr)
  from 1 obtain index where i: "local_index (pd_footer pkg) (pd_manifest pkg) = Inr index"
    and 2: "?p d index u1 = (Inr p, t)"
    by (rule seqS_liftE)
  from 2 obtain cps where
    c: "foldE (plan_block (rp_footer remote) index (?c d)) (file_blocks (rp_manifest remote))
      ([], [], {}) = Inr cps" and r: "?r d cps u1 = (Inr p :: string + plan, t)"
    by (rule seqS_liftE)
  obtain copies spans seen where cps: "cps = (copies, spans, seen)" by (cases cps) auto
  from r have p: "p = \<lparr> pl_prefix = prefix_plan (pd_footer pkg) (pd_manifest pkg) remote,
      pl_dict = d, pl_copies = copies, pl_fetch = spans, pl_digests = [],
      pl_unit = lit ''blocks'', pl_known = None \<rparr>" "t = u1" by (simp_all add: cps)
  show ?thesis by (rule that [of index seen]) (use d i c p cps in simp_all)
qed

lemma plan_blocks_spec:
  assumes "plan_blocks pkg remote fetch s = (Inr p, t)"
  shows "(\<forall>b \<in> set (file_blocks (rp_manifest remote)). \<exists>c \<in> set (file_blocks (rp_manifest remote)).
        b_payload_offset c = b_payload_offset b
        \<and> extent_bytes (rp_footer remote) c \<subseteq> copies_bytes (pl_copies p) \<union> spans_bytes (pl_fetch p))
    \<and> (\<forall>g \<in> set (pl_copies p). codec_dict (pd_codec pkg) = pl_dict p
        \<and> is_stored (pd_footer pkg) = is_stored (rp_footer remote)
        \<and> (\<exists>b \<in> set (file_blocks (rp_manifest remote)). \<exists>l \<in> set (file_blocks (pd_manifest pkg)).
             \<exists>dst src n. b_content_hash b = b_content_hash l
             \<and> block_extent usize_max (rp_footer remote) b = Inr (dst, n)
             \<and> block_extent usize_max (pd_footer pkg) l = Inr (src, n)
             \<and> cg_ranges g = [\<lparr> cr_dst = dst, cr_src = src, cr_len = of_nat n \<rparr>]
             \<and> block_check (rp_footer remote) b = Inr (cg_check g)))
    \<and> (\<forall>s \<in> set (pl_fetch p). span_ok s)"
proof -
  let ?f = "rp_footer remote" and ?bs = "file_blocks (rp_manifest remote)"
  let ?c = "codec_dict (pd_codec pkg) = pl_dict p \<and> is_stored (pd_footer pkg) = is_stored ?f"
  obtain index seen where i: "local_index (pd_footer pkg) (pd_manifest pkg) = Inr index"
    and f: "foldE (plan_block ?f index ?c) ?bs ([], [], {}) = Inr (pl_copies p, pl_fetch p, seen)"
    using plan_blocks_Inr [OF assms] by metis
  have inv: "plan_inv ?f index ?c ?bs (pl_copies p, pl_fetch p, seen)"
  proof (rule foldE_invariant [OF f])
    show "plan_inv ?f index ?c ?bs ([], [], {})" by (simp add: plan_inv_def)
  qed (rule plan_block_inv)
  have seen: "seen = b_payload_offset ` set ?bs" using plan_blocks_seen [OF f] by simp
  have local: "\<exists>l \<in> set (file_blocks (pd_manifest pkg)). b_content_hash l = h
      \<and> (\<exists>n. block_extent usize_max (pd_footer pkg) l = Inr (src, n) \<and> len = of_nat n)"
    if "index h = Some (src, len)" for h src len
    using i that index_block_inv by (fastforce simp: local_index_def tryE_Inr_iff)
  have "\<exists>b \<in> set ?bs. \<exists>l \<in> set (file_blocks (pd_manifest pkg)). \<exists>dst src n.
      b_content_hash b = b_content_hash l \<and> block_extent usize_max ?f b = Inr (dst, n)
      \<and> block_extent usize_max (pd_footer pkg) l = Inr (src, n)
      \<and> cg_ranges g = [\<lparr> cr_dst = dst, cr_src = src, cr_len = of_nat n \<rparr>]
      \<and> block_check ?f b = Inr (cg_check g)"
    if "block_group ?f index ?bs g" for g
  proof -
    from that obtain b dst n src where b: "b \<in> set ?bs" "block_extent usize_max ?f b = Inr (dst, n)"
      "index (b_content_hash b) = Some (src, of_nat n)"
      "cg_ranges g = [\<lparr> cr_dst = dst, cr_src = src, cr_len = of_nat n \<rparr>]"
      "block_check ?f b = Inr (cg_check g)"
      by (auto simp: block_group_def)
    from local [OF b(3)] obtain l k where l: "l \<in> set (file_blocks (pd_manifest pkg))"
      "b_content_hash l = b_content_hash b" "block_extent usize_max (pd_footer pkg) l = Inr (src, k)"
      "(of_nat n :: u64) = of_nat k" by blast
    have "k = n" using block_extent_Inr [OF b(2)] block_extent_Inr [OF l(3)] l(4) by metis
    then show ?thesis using b l by metis
  qed
  then show ?thesis using inv seen by (auto simp: plan_inv_def)
qed

text \<open>
  C31: A blocks plan leaves no file content out and reuses only what the manifests say is the same.
  The extent of every block of the release is copied or fetched (blocks at one payload offset count
  as one), and every copy group is the extent of a release block taken from the extent of a block
  of the running package with the same content hash and stored length, checked against that hash,
  and only when both packages compressed with the same dictionary and storage mode.
\<close>

theorem plan_blocks_covers:
  assumes "plan_blocks pkg remote fetch s = (Inr p, t)"
  shows "(\<forall>b \<in> set (file_blocks (rp_manifest remote)). \<exists>c \<in> set (file_blocks (rp_manifest remote)).
        b_payload_offset c = b_payload_offset b
        \<and> extent_bytes (rp_footer remote) c \<subseteq> copies_bytes (pl_copies p) \<union> spans_bytes (pl_fetch p))
    \<and> (\<forall>g \<in> set (pl_copies p). codec_dict (pd_codec pkg) = pl_dict p
        \<and> is_stored (pd_footer pkg) = is_stored (rp_footer remote)
        \<and> (\<exists>b \<in> set (file_blocks (rp_manifest remote)). \<exists>l \<in> set (file_blocks (pd_manifest pkg)).
             \<exists>dst src n. b_content_hash b = b_content_hash l
             \<and> block_extent usize_max (rp_footer remote) b = Inr (dst, n)
             \<and> block_extent usize_max (pd_footer pkg) l = Inr (src, n)
             \<and> cg_ranges g = [\<lparr> cr_dst = dst, cr_src = src, cr_len = of_nat n \<rparr>]
             \<and> block_check (rp_footer remote) b = Inr (cg_check g)))
    \<and> (\<forall>s \<in> set (pl_fetch p). span_ok s)"
  by (rule plan_blocks_spec [OF assms])

text \<open>A stored package of two blocks, and a release that keeps the first and changes the second.\<close>

definition sample_stored :: footer where
  "sample_stored = sample_zfooter\<lparr> f_flags := STORED \<rparr>"

definition hashed_block :: "u64 \<Rightarrow> bytes \<Rightarrow> block" where
  "hashed_block off h = (sample_block_at off)\<lparr> b_content_hash := h \<rparr>"

definition blocks_manifest :: "block list \<Rightarrow> manifest" where
  "blocks_manifest bs = sample_manifest\<lparr> m_entries := [(sample_entry File 0 5)\<lparr> e_blocks := bs \<rparr>] \<rparr>"

definition running_package :: "unit package_data" where
  "running_package = \<lparr> pd_footer = sample_stored,
     pd_manifest = blocks_manifest [hashed_block 0 [1, 2], hashed_block 2 [3, 4]],
     pd_file = [9, 9, 1, 2, 3, 4], pd_codec = Zstd None \<rparr>"

definition sample_remote :: remote_package where
  "sample_remote = \<lparr> rp_footer = sample_stored, rp_footer_bytes = replicate 76 7,
     rp_manifest = blocks_manifest [hashed_block 2 [1, 2], hashed_block 0 [5, 6]],
     rp_manifest_bytes = [], rp_size = 82 \<rparr>"

definition sample_blocks_plan :: plan where
  "sample_blocks_plan = \<lparr> pl_prefix = PrefixCopy 0, pl_dict = None,
     pl_copies = [\<lparr> cg_ranges = [\<lparr> cr_dst = 4, cr_src = 2, cr_len = 2 \<rparr>], cg_check = Raw [1, 2] \<rparr>],
     pl_fetch = [\<lparr> sp_start = 2, sp_len = 2 \<rparr>], pl_digests = [], pl_unit = lit ''blocks'',
     pl_known = None \<rparr>"

lemma sample_blocks_plan: "plan_blocks running_package sample_remote fetch s = (Inr sample_blocks_plan, s)"
proof -
  have stored: "is_stored sample_stored"
    by (simp add: is_stored_def sample_stored_def flags_contains_def STORED_def)
  have ext: "block_extent usize_max sample_stored (hashed_block off h) = Inr (2 + off, 2)"
    if "off = 0 \<or> off = 2" for off h
    using that by (auto simp: block_extent_def sample_stored_def sample_zfooter_def hashed_block_def
        sample_block_at_def checked_add_u64_def in_bounds_def usize_try_from_def usize_max_def)
  have fb: "file_blocks (blocks_manifest bs) = bs" for bs
    by (simp add: file_blocks_def blocks_manifest_def sample_entry_def)
  have d: "fetch_dict fetch sample_stored s = (Inr None, s)"
    by (simp add: fetch_dict_def sample_stored_def sample_zfooter_def returnS_def)
  have hb: "b_payload_offset (hashed_block off h) = off" "b_content_hash (hashed_block off h) = h" for off h
    by (simp_all add: hashed_block_def sample_block_at_def)
  show ?thesis
    using stored
    by (simp add: plan_blocks_def running_package_def sample_remote_def fb d seqS_def liftS_def
        local_index_def index_block_def ext hb plan_block_def block_check_def codec_dict_def
        extend_fetch_def returnS_def sample_blocks_plan_def prefix_plan_def)
      (simp add: sample_stored_def sample_zfooter_def blocks_manifest_def sample_manifest_def
        sample_header_def)
qed

theorem plan_blocks_covers_witness:
  "\<exists>c \<in> set (file_blocks (rp_manifest sample_remote)). b_payload_offset c = 0
     \<and> extent_bytes sample_stored c
        \<subseteq> copies_bytes (pl_copies sample_blocks_plan) \<union> spans_bytes (pl_fetch sample_blocks_plan)"
proof -
  have "hashed_block 0 [5, 6] \<in> set (file_blocks (rp_manifest sample_remote))"
    by (simp add: sample_remote_def file_blocks_def blocks_manifest_def sample_entry_def)
  moreover have "b_payload_offset (hashed_block 0 [5, 6]) = 0"
    by (simp add: hashed_block_def sample_block_at_def)
  moreover have "rp_footer sample_remote = sample_stored" by (simp add: sample_remote_def)
  ultimately show ?thesis
    using plan_blocks_covers [OF sample_blocks_plan [of "\<lambda>_ _. failS NoRanges" "()"]]
    by metis
qed

end
