(* ===== verification/Delta_Write.thy ===== *)
theory Delta_Write
  imports Delta_Plan
begin

text \<open>
  The writing half of \<open>update/delta.rs\<close>: the staged file is built from copies of the running
  binary, fetched spans and the pieces the planner already holds. Errors of the staging file itself
  (a full disk) are not modelled; reads of the running binary past its end and every error of the
  source are. What was written before an error stays written.
\<close>

record 's world =
  wo_staged :: bytes
  wo_src :: 's

section \<open>The staged file\<close>

text \<open>\<open>write_all_at\<close> past the end extends the file with zeros; \<open>set_len\<close> cuts or extends it.\<close>

definition write_at :: "nat \<Rightarrow> bytes \<Rightarrow> bytes \<Rightarrow> bytes" where
  "write_at off data f =
     (if data = [] then f
      else
        let f' = f @ replicate (off + length data - length f) 0
        in take off f' @ data @ drop (off + length data) f')"

definition set_len :: "nat \<Rightarrow> bytes \<Rightarrow> bytes" where
  "set_len n f = take n f @ replicate (n - length f) 0"

definition stage :: "u64 \<Rightarrow> bytes \<Rightarrow> ('s world, string, unit) step" where
  "stage off data w = (Inr (), w\<lparr> wo_staged := write_at (unat off) data (wo_staged w) \<rparr>)"

definition srcS :: "('s, fetch_error, 'a) step \<Rightarrow> ('s world, string, 'a) step" where
  "srcS m w = (case m (wo_src w) of (r, t) \<Rightarrow> (map_err (\<lambda>_. ''fetch'') r, w\<lparr> wo_src := t \<rparr>))"

section \<open>Copying and fetching\<close>

definition COPY_BUFFER :: u64 where "COPY_BUFFER = 1024 * 1024"
definition FETCH_BUFFER :: nat where "FETCH_BUFFER = 64 * 1024"

text \<open>The bytes copied are collected: the hasher is fed them in this order.\<close>

function copy_loop :: "bytes \<Rightarrow> u64 \<Rightarrow> u64 \<Rightarrow> u64 \<Rightarrow> u64 \<Rightarrow> bytes \<Rightarrow> ('s world, string, bytes) step" where
  "copy_loop from src dst len done hashed =
     (if done < len then
        let n = min (len - done) COPY_BUFFER in
        seqS (liftS (map_err (\<lambda>_. ''read the running binary'') (read_exact_at from (src + done) (unat n))))
          (\<lambda>buf.
        seqS (stage (dst + done) buf) (\<lambda>_.
        copy_loop from src dst len (done + n) (hashed @ buf)))
      else returnS hashed)"
  by pat_completeness auto

lemma loop_progress: "done < len \<Longrightarrow> n \<noteq> 0 \<Longrightarrow> n \<le> len - done \<Longrightarrow>
    unat (len - (done + n)) = unat (len - done) - unat n \<and> unat n \<le> unat (len - done) \<and> 0 < unat n
    \<and> unat (done + n) = unat done + unat n \<and> done + n \<le> len" for len :: u64
proof -
  assume a: "done < len" "n \<noteq> 0" "n \<le> len - done"
  have d: "unat (len - done) = unat len - unat done"
    using a(1) by (simp add: unat_sub word_less_nat_alt word_le_nat_alt)
  then have n: "unat n \<le> unat len - unat done" "0 < unat n"
    using a(2,3) by (simp_all add: word_le_nat_alt unat_gt_0)
  then have s: "unat (done + n) = unat done + unat n"
    using unat_add_lem [of "done" n] unat_bounds(4) [of len] a(1) by (auto simp: word_less_nat_alt)
  then have "done + n \<le> len" using n a(1) by (simp add: word_le_nat_alt word_less_nat_alt)
  then show ?thesis using d n s by (simp add: unat_sub)
qed

lemma min_buffer: "done < len \<Longrightarrow> b \<noteq> 0 \<Longrightarrow> min (len - done) b \<noteq> 0 \<and> min (len - done) b \<le> len - done"
  for len :: u64
  by (auto simp: min_def)

termination copy_loop
proof (relation "measure (\<lambda>(from, src, dst, len, done, hashed). unat (len - done))")
  fix "from" hashed buf :: bytes and src dst len "done" n :: u64
  assume "done < len" "n = min (len - done) COPY_BUFFER"
  then show "((from, src, dst, len, done + n, hashed @ buf), from, src, dst, len, done, hashed)
      \<in> measure (\<lambda>(from, src, dst, len, done, hashed). unat (len - done))"
    using min_buffer [of "done" len COPY_BUFFER] loop_progress [of "done" len n]
    by (simp add: COPY_BUFFER_def)
qed simp

declare copy_loop.simps [simp del]

definition copy_run :: "'r lib \<Rightarrow> bytes \<Rightarrow> u64 \<Rightarrow> u64 \<Rightarrow> u64 \<Rightarrow> ('s world, string, bytes) step" where
  "copy_run lib from src dst len =
     seqS (copy_loop from src dst len 0 []) (\<lambda>hashed. returnS (blake3 lib hashed))"

text \<open>The stream of one ranged fetch is read and written in pieces of 64 KiB.\<close>

function fetch_loop :: "bytes \<Rightarrow> u64 \<Rightarrow> u64 \<Rightarrow> u64 \<Rightarrow> ('s world, string, unit) step" where
  "fetch_loop reader start len done =
     (if done < len then
        let want = min (len - done) (of_nat FETCH_BUFFER) in
        (case read_exact (unat want) reader of
           Inl _ \<Rightarrow> failS ''read bytes''
         | Inr (buf, reader') \<Rightarrow>
             seqS (stage (start + done) buf) (\<lambda>_. fetch_loop reader' start len (done + want)))
      else returnS ())"
  by pat_completeness auto

termination fetch_loop
proof (relation "measure (\<lambda>(reader, start, len, done). unat (len - done))")
  fix reader reader' :: bytes and start len "done" want :: u64
  assume "done < len" "want = min (len - done) (of_nat FETCH_BUFFER)"
  then show "((reader', start, len, done + want), reader, start, len, done)
      \<in> measure (\<lambda>(reader, start, len, done). unat (len - done))"
    using min_buffer [of "done" len "of_nat FETCH_BUFFER"] loop_progress [of "done" len want]
    by (simp add: FETCH_BUFFER_def)
qed simp

declare fetch_loop.simps [simp del]

definition fetch_span :: "(u64 \<Rightarrow> u64 \<Rightarrow> ('s, fetch_error, bytes) step) \<Rightarrow> u64 \<Rightarrow> u64
    \<Rightarrow> ('s world, string, u64) step" where
  "fetch_span fetch start len =
     (if len = 0 then returnS 0
      else
        seqS (srcS (fetch start len)) (\<lambda>reader.
        seqS (fetch_loop reader start len 0) (\<lambda>_. returnS len)))"

section \<open>Copy groups\<close>

definition check_ok :: "'r lib \<Rightarrow> bytes option \<Rightarrow> check \<Rightarrow> bytes \<Rightarrow> bool" where
  "check_ok lib dict chk bs =
     (case chk of
        Raw hash \<Rightarrow> blake3 lib bs = hash
      | Decoded hash original \<Rightarrow>
          (case decode_block lib bs original dict of
             Inr decoded \<Rightarrow> blake3 lib decoded = hash | Inl _ \<Rightarrow> False)
      | BlockDigest digest \<Rightarrow>
          length bs \<ge> 8
          \<and> drop (length bs - 8) bs = le_bytes 8 digest
          \<and> xxh3_64 lib (take (length bs - 8) bs) = digest)"

definition group_bytes :: "bytes \<Rightarrow> copy_range list \<Rightarrow> string + bytes" where
  "group_bytes local_file ranges =
     foldE (\<lambda>r bs.
       tryE (map_err (\<lambda>_. ''read the running binary'')
               (read_exact_at local_file (cr_src r) (unat (cr_len r)))) (\<lambda>buf. Inr (bs @ buf)))
       ranges []"

fun fetch_ranges :: "(u64 \<Rightarrow> u64 \<Rightarrow> ('s, fetch_error, bytes) step) \<Rightarrow> copy_range list \<Rightarrow> u64
    \<Rightarrow> ('s world, string, u64) step" where
  "fetch_ranges fetch [] fetched = returnS fetched"
| "fetch_ranges fetch (r # rs) fetched =
     seqS (fetch_span fetch (cr_dst r) (cr_len r)) (\<lambda>n. fetch_ranges fetch rs (fetched + n))"

fun write_ranges :: "copy_range list \<Rightarrow> bytes \<Rightarrow> ('s world, string, unit) step" where
  "write_ranges [] bs = returnS ()"
| "write_ranges (r # rs) bs =
     seqS (stage (cr_dst r) (take (unat (cr_len r)) bs)) (\<lambda>_.
     write_ranges rs (drop (unat (cr_len r)) bs))"

text \<open>The result is whether the copy was used, and the bytes fetched so far.\<close>

definition write_group :: "'r lib \<Rightarrow> bytes \<Rightarrow> copy_group \<Rightarrow> bytes option
    \<Rightarrow> (u64 \<Rightarrow> u64 \<Rightarrow> ('s, fetch_error, bytes) step) \<Rightarrow> u64 \<Rightarrow> ('s world, string, bool \<times> u64) step" where
  "write_group lib local_file g dict fetch fetched =
     (if (\<Sum>r\<leftarrow>cg_ranges g. cr_len r) = 0 then returnS (True, fetched)
      else
        seqS (liftS (group_bytes local_file (cg_ranges g))) (\<lambda>bs.
        if \<not> check_ok lib dict (cg_check g) bs
        then seqS (fetch_ranges fetch (cg_ranges g) fetched) (\<lambda>n. returnS (False, n))
        else seqS (write_ranges (cg_ranges g) bs) (\<lambda>_. returnS (True, fetched))))"

fun write_groups :: "'r lib \<Rightarrow> bytes \<Rightarrow> copy_group list \<Rightarrow> bytes option
    \<Rightarrow> (u64 \<Rightarrow> u64 \<Rightarrow> ('s, fetch_error, bytes) step) \<Rightarrow> nat \<times> u64
    \<Rightarrow> ('s world, string, nat \<times> u64) step" where
  "write_groups lib local_file [] dict fetch st = returnS st"
| "write_groups lib local_file (g # gs) dict fetch (reused, fetched) =
     seqS (write_group lib local_file g dict fetch fetched) (\<lambda>(ok, fetched').
     write_groups lib local_file gs dict fetch (if ok then reused + 1 else reused, fetched'))"

fun fetch_spans :: "(u64 \<Rightarrow> u64 \<Rightarrow> ('s, fetch_error, bytes) step) \<Rightarrow> span list \<Rightarrow> u64
    \<Rightarrow> ('s world, string, u64) step" where
  "fetch_spans fetch [] fetched = returnS fetched"
| "fetch_spans fetch (s # ss) fetched =
     seqS (fetch_span fetch (sp_start s) (sp_len s)) (\<lambda>n. fetch_spans fetch ss (fetched + n))"

section \<open>The plan\<close>

definition write_digest :: "'r lib \<Rightarrow> u64 \<times> u64 \<Rightarrow> ('s world, string, unit) step" where
  "write_digest lib d w =
     (case d of (start, len) \<Rightarrow>
        seqS (liftS (map_err (\<lambda>_. ''read the staged block'')
               (read_exact_at (wo_staged w) start (unat len)))) (\<lambda>block.
        stage (start + len) (le_bytes 8 (xxh3_64 lib block))) w)"

definition write_prefix :: "'r lib \<Rightarrow> bytes \<Rightarrow> remote_package \<Rightarrow> prefix_choice
    \<Rightarrow> (u64 \<Rightarrow> u64 \<Rightarrow> ('s, fetch_error, bytes) step) \<Rightarrow> ('s world, string, u64) step" where
  "write_prefix lib local_file remote choice fetch =
     (case choice of
        PrefixCopy len \<Rightarrow>
          seqS (copy_run lib local_file 0 0 len) (\<lambda>hash.
          if hash \<noteq> h_prefix_hash (m_header (rp_manifest remote)) then fetch_span fetch 0 len
          else returnS 0)
      | PrefixFetch len \<Rightarrow> fetch_span fetch 0 len)"

definition stage_opt :: "(u64 \<times> bytes) option \<Rightarrow> ('s world, string, unit) step" where
  "stage_opt p = (case p of None \<Rightarrow> returnS () | Some (off, bs) \<Rightarrow> stage off bs)"

definition write_plan :: "'r lib \<Rightarrow> bytes \<Rightarrow> remote_package \<Rightarrow> plan
    \<Rightarrow> (u64 \<Rightarrow> u64 \<Rightarrow> ('s, fetch_error, bytes) step) \<Rightarrow> ('s world, string, nat \<times> u64) step" where
  "write_plan lib local_file remote plan fetch w =
     seqS (write_prefix lib local_file remote (pl_prefix plan) fetch) (\<lambda>fetched.
     seqS (stage (f_manifest_offset (rp_footer remote)) (rp_manifest_bytes remote)) (\<lambda>_.
     seqS (stage_opt (map_option (Pair (f_dict_offset (rp_footer remote))) (pl_dict plan))) (\<lambda>_.
     seqS (stage_opt (pl_known plan)) (\<lambda>_.
     seqS (write_groups lib local_file (pl_copies plan) (pl_dict plan) fetch (0, fetched))
       (\<lambda>(reused, fetched').
     seqS (fetch_spans fetch (pl_fetch plan) fetched') (\<lambda>fetched''.
     seqS (eachS (write_digest lib) (pl_digests plan)) (\<lambda>_.
     seqS (stage (rp_size remote - of_nat FOOTER_SIZE) (rp_footer_bytes remote)) (\<lambda>_.
     returnS (reused, fetched''))))))))) (w\<lparr> wo_staged := set_len (unat (rp_size remote)) (wo_staged w) \<rparr>)"

section \<open>Writes in pieces are one write\<close>

lemma length_write_at [simp]: "off + length data \<le> length f \<Longrightarrow> length (write_at off data f) = length f"
  by (simp add: write_at_def)

lemma nth_write_at:
  "off + length data \<le> length f \<Longrightarrow> i < length f \<Longrightarrow>
     write_at off data f ! i = (if off \<le> i \<and> i < off + length data then data ! (i - off) else f ! i)"
  by (auto simp: write_at_def nth_append min_def)

lemma write_at_Nil [simp]: "write_at off [] f = f"
  by (simp add: write_at_def)

lemma write_at_fits: "off + length data \<le> length f \<Longrightarrow>
    write_at off data f = take off f @ data @ drop (off + length data) f"
  by (cases "data = []") (simp_all add: write_at_def)

lemma write_at_append:
  assumes "off + length a + length b \<le> length f"
  shows "write_at (off + length a) b (write_at off a f) = write_at off (a @ b) f"
  using assms by (intro nth_equalityI) (auto simp: nth_write_at nth_append)

lemma slice_slice_append: "a \<le> b \<Longrightarrow> b \<le> c \<Longrightarrow> slice a b xs @ slice b c xs = slice a c xs"
  by (rule slice_join)

lemma stage_simp [simp]:
  "stage off data w = (r, t) \<longleftrightarrow>
     r = Inr () \<and> t = w\<lparr> wo_staged := write_at (unat off) data (wo_staged w) \<rparr>"
  by (auto simp: stage_def)

text \<open>The pieces of a copy from \<open>done\<close> on: what is hashed and what is staged is the rest of the run.\<close>

lemma copy_loop_Inr:
  assumes "copy_loop from src dst len done hashed w = (Inr h, w')" "done \<le> len"
    and "unat src + unat len < 2 ^ 64" "unat dst + unat len \<le> length (wo_staged w)"
    and "length (wo_staged w) < 2 ^ 64"
  shows "(done < len \<longrightarrow> unat src + unat len \<le> length from)
    \<and> h = hashed @ slice (unat src + unat done) (unat src + unat len) from
    \<and> w' = w\<lparr> wo_staged := write_at (unat dst + unat done)
          (slice (unat src + unat done) (unat src + unat len) from) (wo_staged w) \<rparr>"
  using assms
proof (induction "unat (len - done)" arbitrary: "done" hashed w rule: less_induct)
  case less
  note prems = less.prems
  show ?case
  proof (cases "done < len")
    case False
    then have "done = len" using prems(2) by simp
    then show ?thesis using prems(1) by (subst (asm) copy_loop.simps) (simp add: slice_def)
  next
    case True
    define n where "n = min (len - done) COPY_BUFFER"
    have n: "n \<noteq> 0" "n \<le> len - done"
      using min_buffer [OF True, of COPY_BUFFER] by (simp_all add: n_def COPY_BUFFER_def)
    note p = loop_progress [OF True n]
    have lt: "unat done + unat n \<le> unat len" using p by (simp add: word_le_nat_alt)
    have sd: "unat (src + done) = unat src + unat done" "unat (dst + done) = unat dst + unat done"
      using prems(3,4,5) lt by (auto intro!: word_add_unat)
    from prems(1) True obtain buf where
      b: "read_exact_at from (src + done) (unat n) = Inr buf"
      and rest: "copy_loop from src dst len (done + n) (hashed @ buf)
        (w\<lparr> wo_staged := write_at (unat (dst + done)) buf (wo_staged w) \<rparr>) = (Inr h, w')"
      by (subst (asm) copy_loop.simps) (auto simp: n_def Let_def elim!: seqS_Inr)
    have bl: "buf = slice (unat src + unat done) (unat src + unat done + unat n) from"
      "unat src + unat done + unat n \<le> length from"
      using b p sd by (auto simp: read_exact_at_def split: if_splits)
    then have blen: "length buf = unat n" by simp
    let ?rest = "slice (unat src + unat (done + n)) (unat src + unat len) from"
    have IH: "(done + n < len \<longrightarrow> unat src + unat len \<le> length from)
      \<and> h = (hashed @ buf) @ ?rest
      \<and> w' = w\<lparr> wo_staged := write_at (unat dst + unat (done + n)) ?rest
            (write_at (unat dst + unat done) buf (wo_staged w)) \<rparr>"
      using less.hyps [OF _ rest] p prems(3-5) sd blen lt by simp
    have len: "unat src + unat len \<le> length from"
      using IH bl(2) p by (cases "done + n < len") (auto simp: word_le_nat_alt not_less)
    then have "buf @ ?rest = slice (unat src + unat done) (unat src + unat len) from"
      using bl(1) p lt by (simp add: slice_join add.assoc)
    moreover have "write_at (unat dst + unat (done + n)) ?rest
        (write_at (unat dst + unat done) buf (wo_staged w))
        = write_at (unat dst + unat done) (buf @ ?rest) (wo_staged w)"
      using write_at_append [of "unat dst + unat done" buf ?rest "wo_staged w"] p prems(4) blen len lt
      by (simp add: add.assoc)
    ultimately show ?thesis using IH len by simp
  qed
qed

lemma fetch_loop_Inr:
  assumes "fetch_loop reader start len done w = (Inr u, w')" "done \<le> len"
    and "unat start + unat len \<le> length (wo_staged w)" "length (wo_staged w) < 2 ^ 64"
  shows "unat len - unat done \<le> length reader
    \<and> w' = w\<lparr> wo_staged := write_at (unat start + unat done) (take (unat len - unat done) reader)
          (wo_staged w) \<rparr>"
  using assms
proof (induction "unat (len - done)" arbitrary: "done" reader w rule: less_induct)
  case less
  note prems = less.prems
  show ?case
  proof (cases "done < len")
    case False
    then have "done = len" using prems(2) by simp
    then show ?thesis using prems(1) by (subst (asm) fetch_loop.simps) simp
  next
    case True
    define n where "n = min (len - done) (of_nat FETCH_BUFFER)"
    have n: "n \<noteq> 0" "n \<le> len - done"
      using min_buffer [OF True, of "of_nat FETCH_BUFFER"] by (simp_all add: n_def FETCH_BUFFER_def)
    note p = loop_progress [OF True n]
    have lt: "unat done + unat n \<le> unat len" using p by (simp add: word_le_nat_alt)
    have sd: "unat (start + done) = unat start + unat done"
      using prems(3,4) lt by (auto intro!: word_add_unat)
    from prems(1) True obtain buf reader' where
      b: "read_exact (unat n) reader = Inr (buf, reader')"
      and rest: "fetch_loop reader' start len (done + n)
        (w\<lparr> wo_staged := write_at (unat (start + done)) buf (wo_staged w) \<rparr>) = (Inr u, w')"
      by (subst (asm) fetch_loop.simps) (auto simp: n_def Let_def elim!: seqS_Inr split: sum.splits)
    have bl: "reader = buf @ reader'" "length buf = unat n"
      using b by (auto simp: read_exact_Inr_iff)
    have IH: "unat len - unat (done + n) \<le> length reader'
      \<and> w' = w\<lparr> wo_staged := write_at (unat start + unat (done + n))
            (take (unat len - unat (done + n)) reader')
            (write_at (unat start + unat done) buf (wo_staged w)) \<rparr>"
      using less.hyps [OF _ rest] p prems(3,4) sd bl lt by simp
    let ?rest = "take (unat len - unat (done + n)) reader'"
    have "take (unat len - unat done) reader = buf @ ?rest"
      using bl p lt by simp
    moreover have "write_at (unat start + unat (done + n)) ?rest
        (write_at (unat start + unat done) buf (wo_staged w))
        = write_at (unat start + unat done) (buf @ ?rest) (wo_staged w)"
      using write_at_append [of "unat start + unat done" buf ?rest "wo_staged w"] p prems(3) bl IH lt
      by (simp add: add.assoc)
    moreover have "unat len - unat done \<le> length reader"
      using IH bl p by auto
    ultimately show ?thesis using IH by simp
  qed
qed

end
