(* ===== verification/Delta_Rebuild.thy ===== *)
theory Delta_Rebuild
  imports Delta_Write
begin

text \<open>
  What \<open>write_plan\<close> of \<open>update/delta.rs\<close> leaves in the staged file: the invariant that the bytes written
  so far are those of the release, kept by every step, and that the run gets through against a host
  that answers.
\<close>

section \<open>Where the staged file is the release\<close>

definition agree :: "bytes \<Rightarrow> nat set \<Rightarrow> bytes \<Rightarrow> bool" where
  "agree R S f \<longleftrightarrow> length f = length R \<and> (\<forall>i \<in> S. i < length R \<longrightarrow> f ! i = R ! i)"

text \<open>A piece of the release: the bytes it has at an offset.\<close>

definition piece :: "bytes \<Rightarrow> nat \<Rightarrow> bytes \<Rightarrow> bool" where
  "piece R off bs \<longleftrightarrow> off + length bs \<le> length R \<and> bs = slice off (off + length bs) R"

lemma piece_slice: "off + n \<le> length R \<Longrightarrow> piece R off (slice off (off + n) R)"
  by (simp add: piece_def)

lemma agree_write:
  assumes "agree R S f" "piece R off bs"
  shows "agree R (S \<union> {off ..< off + length bs}) (write_at off bs f)"
proof -
  have "bs ! (i - off) = R ! i" if "off \<le> i" "i < off + length bs" for i
    using assms(2) that nth_slice [of "i - off" "off + length bs" off R] by (auto simp: piece_def)
  then show ?thesis using assms by (auto simp: agree_def piece_def nth_write_at)
qed

lemma agree_mono: "agree R S f \<Longrightarrow> T \<subseteq> S \<Longrightarrow> agree R T f"
  by (auto simp: agree_def)

lemma agree_all: "agree R S f \<Longrightarrow> {..< length R} \<subseteq> S \<Longrightarrow> f = R"
  by (auto simp: agree_def intro!: nth_equalityI)

text \<open>The bytes of the release a copy range stands for, and its group.\<close>

definition copy_target :: "bytes \<Rightarrow> copy_range \<Rightarrow> bytes" where
  "copy_target R r = slice (unat (cr_dst r)) (unat (cr_dst r) + unat (cr_len r)) R"

definition group_target :: "bytes \<Rightarrow> copy_group \<Rightarrow> bytes" where
  "group_target R g = concat (map (copy_target R) (cg_ranges g))"

definition group_inside :: "nat \<Rightarrow> copy_group \<Rightarrow> bool" where
  "group_inside n g \<longleftrightarrow> (\<forall>r \<in> set (cg_ranges g). unat (cr_dst r) + unat (cr_len r) \<le> n)
     \<and> (\<Sum>r\<leftarrow>cg_ranges g. unat (cr_len r)) < 2 ^ 64"

lemma copy_loop_zero:
  "copy_loop from src dst len done hashed w = (Inr h, w') \<Longrightarrow> wo_src w' = wo_src w"
proof (induction "unat (len - done)" arbitrary: "done" hashed w rule: less_induct)
  case less
  show ?case
  proof (cases "done < len")
    case True
    define n where "n = min (len - done) COPY_BUFFER"
    have n: "n \<noteq> 0" "n \<le> len - done"
      using min_buffer [OF True, of COPY_BUFFER] by (simp_all add: n_def COPY_BUFFER_def)
    note p = loop_progress [OF True n]
    from less.prems True obtain buf where
      rest: "copy_loop from src dst len (done + n) (hashed @ buf)
        (w\<lparr> wo_staged := write_at (unat (dst + done)) buf (wo_staged w) \<rparr>) = (Inr h, w')"
      by (subst (asm) copy_loop.simps) (auto simp: n_def Let_def elim!: seqS_Inr)
    show ?thesis using less.hyps [OF _ rest] p by simp
  next
    case False
    then show ?thesis using less.prems by (subst (asm) copy_loop.simps) simp
  qed
qed

lemma write_ranges_agree:
  assumes "write_ranges rs bs w = (Inr u, w')" "agree R S (wo_staged w)"
    and "\<forall>r \<in> set rs. unat (cr_dst r) + unat (cr_len r) \<le> length R"
    and "bs = concat (map (copy_target R) rs)"
  shows "agree R (S \<union> (\<Union>r \<in> set rs. copy_bytes r)) (wo_staged w') \<and> wo_src w' = wo_src w"
  using assms
proof (induction rs arbitrary: bs w S)
  case (Cons r rs)
  have len: "length (copy_target R r) = unat (cr_len r)"
    using Cons.prems(3) by (simp add: copy_target_def)
  have w1: "write_ranges rs (concat (map (copy_target R) rs))
      (w\<lparr> wo_staged := write_at (unat (cr_dst r)) (copy_target R r) (wo_staged w) \<rparr>) = (Inr u, w')"
    using Cons.prems(1) len by (auto simp: Cons.prems(4) elim!: seqS_Inr)
  have "piece R (unat (cr_dst r)) (copy_target R r)"
    using Cons.prems(3) piece_slice by (simp add: copy_target_def)
  from agree_write [OF Cons.prems(2) this]
  have "agree R (S \<union> copy_bytes r) (write_at (unat (cr_dst r)) (copy_target R r) (wo_staged w))"
    by (simp add: len copy_bytes_def)
  with Cons.IH [OF w1, of "S \<union> copy_bytes r"] Cons.prems(3) show ?case
    by (simp add: Un_assoc)
qed simp

context release_source
begin

lemma fetch_span_agree:
  assumes "fetch_span fetch a l w = (Inr n, w')" "live (wo_src w)" "agree R S (wo_staged w)"
    and "unat a + unat l \<le> length R" "length R < 2 ^ 64"
  shows "live (wo_src w') \<and> agree R (S \<union> {unat a ..< unat a + unat l}) (wo_staged w')"
proof (cases "l = 0")
  case True
  then show ?thesis using assms by (simp add: fetch_span_def)
next
  case False
  from assms(1) False obtain reader u where
    r: "srcS (fetch a l) w = (Inr reader, u)" and f: "fetch_loop reader a l 0 u = (Inr (), w')"
    by (auto simp: fetch_span_def elim!: seqS_Inr)
  obtain t where t: "fetch a l (wo_src w) = (Inr reader, t)" "u = w\<lparr> wo_src := t \<rparr>"
    using r by (auto simp: srcS_def split: prod.splits)
  have rd: "reader = slice (unat a) (unat a + unat l) R" "live t"
    using fetch_serves [OF assms(2) t(1)] fetch_live [OF assms(2) t(1)] by simp_all
  have "length (wo_staged u) = length R" using assms(3) t(2) by (simp add: agree_def)
  with fetch_loop_Inr [OF f] assms(4,5) rd
  have w': "w' = u\<lparr> wo_staged := write_at (unat a) reader (wo_staged u) \<rparr>" by simp
  have "piece R (unat a) reader" "length reader = unat l"
    using rd assms(4) piece_slice by simp_all
  with agree_write [of R S "wo_staged u" "unat a" reader] assms(3) t(2) w' rd(2) show ?thesis
    by simp
qed

end

lemma sum_list_unat: "(\<Sum>x\<leftarrow>xs. unat (f x)) < 2 ^ 64 \<Longrightarrow> unat (\<Sum>x\<leftarrow>xs. f x) = (\<Sum>x\<leftarrow>xs. unat (f x))"
  for f :: "'a \<Rightarrow> u64"
  by (induction xs) (auto simp: word_add_unat)

lemma group_bytes_length:
  assumes "group_bytes local_file rs = Inr bs"
  shows "length bs = (\<Sum>r\<leftarrow>rs. unat (cr_len r))"
proof -
  have "length cs = length acc + (\<Sum>r\<leftarrow>rs. unat (cr_len r))"
    if "foldE (\<lambda>r bs. tryE (map_err (\<lambda>_. ''read the running binary'')
               (read_exact_at local_file (cr_src r) (unat (cr_len r)))) (\<lambda>buf. Inr (bs @ buf)))
       rs acc = Inr cs" for acc cs
    using that
    by (induction rs arbitrary: acc) (auto simp: tryE_Inr_iff read_exact_at_def split: if_splits)
  then show ?thesis using assms by (fastforce simp: group_bytes_def)
qed

lemma group_target_length:
  "group_inside (length R) g \<Longrightarrow> length (group_target R g) = (\<Sum>r\<leftarrow>cg_ranges g. unat (cr_len r))"
proof -
  assume "group_inside (length R) g"
  then have "\<forall>r \<in> set (cg_ranges g). length (copy_target R r) = unat (cr_len r)"
    by (auto simp: group_inside_def copy_target_def)
  then show ?thesis by (simp add: group_target_def length_concat o_def cong: map_cong)
qed

text \<open>A group is sound when the bytes its check accepts are those of the release.\<close>

definition group_sound :: "'r lib \<Rightarrow> bytes option \<Rightarrow> bytes \<Rightarrow> copy_group \<Rightarrow> bool" where
  "group_sound lib dict R g \<longleftrightarrow> group_inside (length R) g
     \<and> (\<forall>bs. length bs = length (group_target R g) \<longrightarrow> check_ok lib dict (cg_check g) bs
          \<longrightarrow> bs = group_target R g)"

definition group_covers :: "copy_group \<Rightarrow> nat set" where
  "group_covers g = (\<Union>r \<in> set (cg_ranges g). copy_bytes r)"

definition span_inside :: "nat \<Rightarrow> span \<Rightarrow> bool" where
  "span_inside n s \<longleftrightarrow> unat (sp_start s) + unat (sp_len s) \<le> n"

context release_source
begin

lemma fetch_ranges_agree:
  assumes "fetch_ranges fetch rs n w = (Inr m, w')" "live (wo_src w)" "agree R S (wo_staged w)"
    and "\<forall>r \<in> set rs. unat (cr_dst r) + unat (cr_len r) \<le> length R" "length R < 2 ^ 64"
  shows "live (wo_src w') \<and> agree R (S \<union> (\<Union>r \<in> set rs. copy_bytes r)) (wo_staged w')"
  using assms
proof (induction rs arbitrary: n w S)
  case (Cons r rs)
  from Cons.prems(1) obtain k u where k: "fetch_span fetch (cr_dst r) (cr_len r) w = (Inr k, u)"
    and rest: "fetch_ranges fetch rs (n + k) u = (Inr m, w')"
    by (auto elim!: seqS_Inr)
  have "live (wo_src u) \<and> agree R (S \<union> copy_bytes r) (wo_staged u)"
    using fetch_span_agree [OF k Cons.prems(2,3)] Cons.prems(4,5) by (simp add: copy_bytes_def)
  with Cons.IH [OF rest, of "S \<union> copy_bytes r"] Cons.prems(4,5) show ?case
    by (simp add: Un_assoc)
qed simp

lemma fetch_spans_agree:
  assumes "fetch_spans fetch ss n w = (Inr m, w')" "live (wo_src w)" "agree R S (wo_staged w)"
    and "\<forall>s \<in> set ss. span_inside (length R) s" "length R < 2 ^ 64"
  shows "live (wo_src w') \<and> agree R (S \<union> spans_bytes ss) (wo_staged w')"
  using assms
proof (induction ss arbitrary: n w S)
  case (Cons s ss)
  from Cons.prems(1) obtain k u where k: "fetch_span fetch (sp_start s) (sp_len s) w = (Inr k, u)"
    and rest: "fetch_spans fetch ss (n + k) u = (Inr m, w')"
    by (auto elim!: seqS_Inr)
  have "live (wo_src u) \<and> agree R (S \<union> span_bytes s) (wo_staged u)"
    using fetch_span_agree [OF k Cons.prems(2,3)] Cons.prems(4,5)
    by (simp add: span_bytes_def span_inside_def)
  with Cons.IH [OF rest, of "S \<union> span_bytes s"] Cons.prems(4,5) show ?case
    by (simp add: Un_assoc)
qed simp

lemma write_group_agree:
  assumes "write_group lib local_file g dict fetch n w = (Inr (ok, m), w')" "live (wo_src w)"
    and "agree R S (wo_staged w)" "group_sound lib dict R g" "length R < 2 ^ 64"
  shows "live (wo_src w') \<and> agree R (S \<union> group_covers g) (wo_staged w')"
proof (cases "(\<Sum>r\<leftarrow>cg_ranges g. cr_len r) = 0")
  case True
  have in_R: "group_inside (length R) g" using assms(4) by (simp add: group_sound_def)
  then have "unat (\<Sum>r\<leftarrow>cg_ranges g. cr_len r) = (\<Sum>r\<leftarrow>cg_ranges g. unat (cr_len r))"
    by (simp add: sum_list_unat group_inside_def)
  then have "group_covers g = {}"
    using True by (auto simp: group_covers_def copy_bytes_def sum_list_eq_0_iff)
  then show ?thesis using assms(1-3) True by (simp add: write_group_def)
next
  case False
  have in_R: "\<forall>r \<in> set (cg_ranges g). unat (cr_dst r) + unat (cr_len r) \<le> length R"
    using assms(4) by (simp add: group_sound_def group_inside_def)
  let ?tail = "\<lambda>bs. if \<not> check_ok lib dict (cg_check g) bs
        then seqS (fetch_ranges fetch (cg_ranges g) n) (\<lambda>n. returnS (False, n))
        else seqS (write_ranges (cg_ranges g) bs) (\<lambda>_. returnS (True, n))"
  from assms(1) False have "seqS (liftS (group_bytes local_file (cg_ranges g))) ?tail w = (Inr (ok, m), w')"
    by (simp add: write_group_def)
  then obtain bs where bs: "group_bytes local_file (cg_ranges g) = Inr bs"
    and t: "?tail bs w = (Inr (ok, m), w')" by (rule seqS_liftE)
  show ?thesis
  proof (cases "check_ok lib dict (cg_check g) bs")
    case True
    then have "bs = group_target R g"
      using assms(4) group_bytes_length [OF bs] group_target_length
      by (auto simp: group_sound_def)
    moreover from t True obtain u where "write_ranges (cg_ranges g) bs w = (Inr u, w')"
      by (auto elim!: seqS_Inr)
    ultimately show ?thesis
      using write_ranges_agree [OF _ assms(3) in_R] assms(2)
      by (auto simp: group_target_def group_covers_def)
  next
    case False
    with t obtain k where "fetch_ranges fetch (cg_ranges g) n w = (Inr k, w')"
      by (auto elim!: seqS_Inr)
    from fetch_ranges_agree [OF this assms(2,3) in_R assms(5)] show ?thesis
      by (simp add: group_covers_def)
  qed
qed

lemma write_groups_agree:
  assumes "write_groups lib local_file gs dict fetch st w = (Inr out, w')" "live (wo_src w)"
    and "agree R S (wo_staged w)" "\<forall>g \<in> set gs. group_sound lib dict R g" "length R < 2 ^ 64"
  shows "live (wo_src w') \<and> agree R (S \<union> copies_bytes gs) (wo_staged w')"
  using assms
proof (induction gs arbitrary: st w S)
  case (Cons g gs)
  obtain reused n where st: "st = (reused, n)" by fastforce
  from Cons.prems(1) obtain ok k u where k: "write_group lib local_file g dict fetch n w = (Inr (ok, k), u)"
    and rest: "write_groups lib local_file gs dict fetch (if ok then reused + 1 else reused, k) u
      = (Inr out, w')"
    by (auto simp: st elim!: seqS_Inr)
  have "live (wo_src u) \<and> agree R (S \<union> group_covers g) (wo_staged u)"
    using write_group_agree [OF k Cons.prems(2,3)] Cons.prems(4,5) by simp
  moreover have "copies_bytes (g # gs) = group_covers g \<union> copies_bytes gs"
    by (simp add: copies_bytes_def group_covers_def)
  ultimately show ?case
    using Cons.IH [OF rest, of "S \<union> group_covers g"] Cons.prems(4,5) by (simp add: Un_assoc)
qed simp

end

text \<open>A block whose digest follows it in the release.\<close>

definition digest_sound :: "'r lib \<Rightarrow> bytes \<Rightarrow> u64 \<times> u64 \<Rightarrow> bool" where
  "digest_sound lib R d \<longleftrightarrow>
     (case d of (start, len) \<Rightarrow>
        unat start + unat len + 8 \<le> length R
        \<and> slice (unat start + unat len) (unat start + unat len + 8) R
            = le_bytes 8 (xxh3_64 lib (slice (unat start) (unat start + unat len) R)))"

definition digest_covers :: "u64 \<times> u64 \<Rightarrow> nat set" where
  "digest_covers d = (case d of (start, len) \<Rightarrow>
     {unat start + unat len ..< unat start + unat len + 8})"

definition digest_block :: "u64 \<times> u64 \<Rightarrow> nat set" where
  "digest_block d = (case d of (start, len) \<Rightarrow> {unat start ..< unat start + unat len})"

lemma agree_slice:
  assumes "agree R S f" "{a ..< b} \<subseteq> S" "b \<le> length R"
  shows "slice a b f = slice a b R"
proof (rule nth_equalityI)
  show "length (slice a b f) = length (slice a b R)" using assms by (simp add: agree_def slice_def)
  fix i assume i: "i < length (slice a b f)"
  then have "a + i \<in> S" using assms(2) by (auto simp: slice_def)
  then show "slice a b f ! i = slice a b R ! i"
    using assms(1,3) i by (auto simp: agree_def slice_def)
qed

lemma write_digest_agree:
  assumes "write_digest lib d w = (Inr u, w')" "agree R S (wo_staged w)" "digest_sound lib R d"
    and "digest_block d \<subseteq> S" "length R < 2 ^ 64"
  shows "wo_src w' = wo_src w \<and> agree R (S \<union> digest_covers d) (wo_staged w')"
proof -
  obtain start len where d: "d = (start, len)" by fastforce
  have in_R: "unat start + unat len + 8 \<le> length R" using assms(3) by (simp add: digest_sound_def d)
  let ?b = "slice (unat start) (unat start + unat len) R"
  let ?out = "le_bytes 8 (xxh3_64 lib ?b)"
  have "slice (unat start) (unat start + unat len) (wo_staged w) = ?b"
    using agree_slice [OF assms(2)] assms(4) in_R by (simp add: digest_block_def d)
  moreover have "length (wo_staged w) = length R" using assms(2) by (simp add: agree_def)
  ultimately have "read_exact_at (wo_staged w) start (unat len) = Inr ?b"
    using in_R by (auto simp: read_exact_at_def slice_def)
  then have w': "w' = w\<lparr> wo_staged := write_at (unat (start + len)) ?out (wo_staged w) \<rparr>"
    using assms(1) by (simp add: write_digest_def d seqS_def liftS_def stage_def)
  have "piece R (unat start + unat len) ?out"
    using assms(3) by (simp add: piece_def digest_sound_def d)
  moreover have "unat (start + len) = unat start + unat len"
    using in_R assms(5) by (intro word_add_unat) simp
  ultimately show ?thesis
    using agree_write [OF assms(2), of "unat start + unat len" ?out] w'
    by (simp add: digest_covers_def d)
qed

lemma write_digests_agree:
  assumes "eachS (write_digest lib) ds w = (Inr u, w')" "agree R S (wo_staged w)"
    and "\<forall>d \<in> set ds. digest_sound lib R d \<and> digest_block d \<subseteq> S" "length R < 2 ^ 64"
  shows "wo_src w' = wo_src w \<and> agree R (S \<union> (\<Union>d \<in> set ds. digest_covers d)) (wo_staged w')"
  using assms
proof (induction ds arbitrary: w S)
  case (Cons d ds)
  from Cons.prems(1) obtain v x where v: "write_digest lib d w = (Inr x, v)"
    and rest: "eachS (write_digest lib) ds v = (Inr u, w')"
    by (auto elim!: seqS_Inr)
  have "wo_src v = wo_src w \<and> agree R (S \<union> digest_covers d) (wo_staged v)"
    using write_digest_agree [OF v Cons.prems(2)] Cons.prems(3,4) by simp
  with Cons.IH [OF rest, of "S \<union> digest_covers d"] Cons.prems(3,4) show ?case
    by (auto simp: Un_assoc)
qed simp

definition prefix_len :: "prefix_choice \<Rightarrow> u64" where
  "prefix_len c = (case c of PrefixCopy len \<Rightarrow> len | PrefixFetch len \<Rightarrow> len)"

definition prefix_sound :: "'r lib \<Rightarrow> bytes \<Rightarrow> remote_package \<Rightarrow> prefix_choice \<Rightarrow> bool" where
  "prefix_sound lib R remote c \<longleftrightarrow> unat (prefix_len c) \<le> length R
     \<and> (\<forall>bs. length bs = unat (prefix_len c)
          \<longrightarrow> blake3 lib bs = h_prefix_hash (m_header (rp_manifest remote))
          \<longrightarrow> bs = take (unat (prefix_len c)) R)"

lemma piece_take: "n \<le> length R \<Longrightarrow> piece R 0 (take n R)"
  by (simp add: piece_def slice_def)

context release_source
begin

lemma write_prefix_agree:
  assumes "write_prefix lib local_file remote c fetch w = (Inr n, w')" "live (wo_src w)"
    and "agree R S (wo_staged w)" "prefix_sound lib R remote c" "length R < 2 ^ 64"
  shows "live (wo_src w') \<and> agree R (S \<union> {..< unat (prefix_len c)}) (wo_staged w')"
proof -
  have fetched: "live (wo_src v') \<and> agree R (S \<union> {..< unat (prefix_len c)}) (wo_staged v')"
    if "fetch_span fetch 0 (prefix_len c) v = (Inr k, v')" "live (wo_src v)"
      "length (wo_staged v) = length R" "\<forall>i \<in> S - {..< unat (prefix_len c)}. i < length R \<longrightarrow> wo_staged v ! i = R ! i"
    for v k v'
  proof -
    have "agree R (S - {..< unat (prefix_len c)}) (wo_staged v)" using that(3,4) by (simp add: agree_def)
    with fetch_span_agree [OF that(1,2) this] assms(4,5) show ?thesis
      by (simp add: prefix_sound_def atLeast0LessThan Un_Diff_cancel2)
  qed
  have len: "length (wo_staged w) = length R" "\<forall>i \<in> S. i < length R \<longrightarrow> wo_staged w ! i = R ! i"
    using assms(3) by (simp_all add: agree_def)
  show ?thesis
  proof (cases c)
    case (PrefixFetch l)
    then show ?thesis using fetched [of w n w'] assms(1,2) len by (simp add: write_prefix_def prefix_len_def)
  next
    case c: (PrefixCopy l)
    let ?tail = "\<lambda>hash. if hash \<noteq> h_prefix_hash (m_header (rp_manifest remote))
        then fetch_span fetch 0 l else returnS 0"
    from assms(1) c obtain hash u where cr: "copy_run lib local_file 0 0 l w = (Inr hash, u)"
      and t: "?tail hash u = (Inr n, w')"
      by (auto simp: write_prefix_def elim!: seqS_Inr)
    from cr obtain h where h: "copy_loop local_file 0 0 l 0 [] w = (Inr h, u)" "hash = blake3 lib h"
      by (auto simp: copy_run_def elim!: seqS_Inr)
    have le: "unat l \<le> length R" using assms(4) c by (simp add: prefix_sound_def prefix_len_def)
    note cl = copy_loop_Inr [OF h(1), simplified]
    have hl: "h = slice 0 (unat l) local_file" "u = w\<lparr> wo_staged := write_at 0 h (wo_staged w) \<rparr>"
      "length h = unat l"
      using cl le len assms(5) by (cases "l = 0"; auto simp: slice_def word_neq_0_conv)+
    have src: "live (wo_src u)" using hl(2) assms(2) by simp
    show ?thesis
    proof (cases "hash = h_prefix_hash (m_header (rp_manifest remote))")
      case True
      then have "h = take (unat l) R" using assms(4) h(2) hl(3) c
        by (simp add: prefix_sound_def prefix_len_def)
      then have "piece R 0 h" using piece_take [OF le] by simp
      from agree_write [OF assms(3) this] show ?thesis
        using t True hl(2,3) src c by (simp add: prefix_len_def atLeast0LessThan)
    next
      case False
      then have f: "fetch_span fetch 0 (prefix_len c) u = (Inr n, w')"
        using t c by (simp add: prefix_len_def)
      have "length (wo_staged u) = length R"
        "\<forall>i \<in> S - {..< unat (prefix_len c)}. i < length R \<longrightarrow> wo_staged u ! i = R ! i"
        using hl(2,3) len le c by (auto simp: nth_write_at prefix_len_def)
      from fetched [OF f src this] show ?thesis .
    qed
  qed
qed

end

text \<open>The bytes of the release the planner already holds, with their offsets.\<close>

definition held :: "remote_package \<Rightarrow> plan \<Rightarrow> (u64 \<times> bytes) list" where
  "held remote p =
     (f_manifest_offset (rp_footer remote), rp_manifest_bytes remote)
     # (case pl_dict p of None \<Rightarrow> [] | Some d \<Rightarrow> [(f_dict_offset (rp_footer remote), d)])
     @ (case pl_known p of None \<Rightarrow> [] | Some k \<Rightarrow> [k])"

definition held_covers :: "u64 \<times> bytes \<Rightarrow> nat set" where
  "held_covers h = {unat (fst h) ..< unat (fst h) + length (snd h)}"

text \<open>What is staged before the digests are computed, and in all.\<close>

definition plan_before :: "remote_package \<Rightarrow> plan \<Rightarrow> nat set" where
  "plan_before remote p = {..< unat (prefix_len (pl_prefix p))} \<union> (\<Union>h \<in> set (held remote p). held_covers h)
     \<union> copies_bytes (pl_copies p) \<union> spans_bytes (pl_fetch p)"

definition plan_bytes :: "remote_package \<Rightarrow> plan \<Rightarrow> nat set" where
  "plan_bytes remote p = plan_before remote p \<union> (\<Union>d \<in> set (pl_digests p). digest_covers d)
     \<union> {unat (rp_size remote) - FOOTER_SIZE ..< unat (rp_size remote)}"

definition plan_sound :: "'r lib \<Rightarrow> bytes \<Rightarrow> remote_package \<Rightarrow> plan \<Rightarrow> bool" where
  "plan_sound lib R remote p \<longleftrightarrow>
     length R = unat (rp_size remote) \<and> FOOTER_SIZE \<le> length R
     \<and> rp_footer_bytes remote = drop (length R - FOOTER_SIZE) R
     \<and> prefix_sound lib R remote (pl_prefix p)
     \<and> (\<forall>h \<in> set (held remote p). piece R (unat (fst h)) (snd h))
     \<and> (\<forall>g \<in> set (pl_copies p). group_sound lib (pl_dict p) R g)
     \<and> (\<forall>s \<in> set (pl_fetch p). span_inside (length R) s)
     \<and> (\<forall>d \<in> set (pl_digests p). digest_sound lib R d \<and> digest_block d \<subseteq> plan_before remote p)"

lemma piece_drop: "n \<le> length R \<Longrightarrow> piece R (length R - n) (drop (length R - n) R)"
  by (simp add: piece_def slice_def)

lemma set_len_agree: "agree R {} (set_len (length R) f)"
  by (simp add: agree_def set_len_def)

lemma stage_agree:
  assumes "stage off bs w = (Inr u, w')" "agree R S (wo_staged w)" "piece R (unat off) bs"
  shows "wo_src w' = wo_src w \<and> agree R (S \<union> held_covers (off, bs)) (wo_staged w')"
  using assms agree_write [OF assms(2,3)] by (simp add: held_covers_def)

lemma stage_opt_agree:
  assumes "stage_opt h w = (Inr u, w')" "agree R S (wo_staged w)"
    and "\<forall>x. h = Some x \<longrightarrow> piece R (unat (fst x)) (snd x)"
  shows "wo_src w' = wo_src w \<and> agree R (S \<union> (\<Union>x \<in> set_option h. held_covers x)) (wo_staged w')"
  using assms stage_agree [of _ _ w u w' R S]
  by (auto simp: stage_opt_def simp del: stage_simp split: option.splits)

context release_source
begin

lemma write_plan_agree:
  assumes "write_plan lib local_file remote p fetch w = (Inr out, w')" "live (wo_src w)"
    and sound: "plan_sound lib R remote p" and R: "length R < 2 ^ 64"
  shows "live (wo_src w') \<and> agree R (plan_bytes remote p) (wo_staged w')"
proof -
  let ?w0 = "w\<lparr> wo_staged := set_len (unat (rp_size remote)) (wo_staged w) \<rparr>"
  from assms(1) obtain n0 n1 n2 reused w1 w2 w3 w4 w5 w6 w7 where
    s1: "write_prefix lib local_file remote (pl_prefix p) fetch ?w0 = (Inr n0, w1)" and
    s2: "stage (f_manifest_offset (rp_footer remote)) (rp_manifest_bytes remote) w1 = (Inr (), w2)" and
    s3: "stage_opt (map_option (Pair (f_dict_offset (rp_footer remote))) (pl_dict p)) w2 = (Inr (), w3)" and
    s4: "stage_opt (pl_known p) w3 = (Inr (), w4)" and
    s5: "write_groups lib local_file (pl_copies p) (pl_dict p) fetch (0, n0) w4 = (Inr (reused, n1), w5)" and
    s6: "fetch_spans fetch (pl_fetch p) n1 w5 = (Inr n2, w6)" and
    s7: "eachS (write_digest lib) (pl_digests p) w6 = (Inr (), w7)" and
    s8: "stage (rp_size remote - of_nat FOOTER_SIZE) (rp_footer_bytes remote) w7 = (Inr (), w')"
    unfolding write_plan_def by (elim seqS_Inr) (auto elim!: seqS_Inr simp del: stage_simp)
  let ?m = "(f_manifest_offset (rp_footer remote), rp_manifest_bytes remote)"
  let ?d = "map_option (Pair (f_dict_offset (rp_footer remote))) (pl_dict p)"
  let ?S1 = "{} \<union> {..< unat (prefix_len (pl_prefix p))}"
  let ?S2 = "?S1 \<union> held_covers ?m"
  let ?S3 = "?S2 \<union> (\<Union>x \<in> set_option ?d. held_covers x)"
  let ?S4 = "?S3 \<union> (\<Union>x \<in> set_option (pl_known p). held_covers x)"
  let ?S6 = "?S4 \<union> copies_bytes (pl_copies p) \<union> spans_bytes (pl_fetch p)"
  have held: "piece R (unat (fst ?m)) (snd ?m)" "\<forall>x. ?d = Some x \<longrightarrow> piece R (unat (fst x)) (snd x)"
    "\<forall>x. pl_known p = Some x \<longrightarrow> piece R (unat (fst x)) (snd x)"
    using sound by (auto simp: plan_sound_def held_def split: option.splits)
  have before: "?S6 = plan_before remote p"
    by (auto simp: plan_before_def held_def split: option.splits)
  have a1: "live (wo_src w1) \<and> agree R ?S1 (wo_staged w1)"
    by (rule write_prefix_agree [OF s1]) (use sound assms(2) R set_len_agree [of R] in \<open>auto simp: plan_sound_def\<close>)
  have a2: "wo_src w2 = wo_src w1 \<and> agree R ?S2 (wo_staged w2)"
    by (rule stage_agree [OF s2]) (use a1 held(1) in simp_all)
  have a3: "wo_src w3 = wo_src w2 \<and> agree R ?S3 (wo_staged w3)"
    using stage_opt_agree [OF s3] a2 held(2) by blast
  have a4: "wo_src w4 = wo_src w3 \<and> agree R ?S4 (wo_staged w4)"
    using stage_opt_agree [OF s4] a3 held(3) by blast
  have l4: "live (wo_src w4)" using a1 a2 a3 a4 by simp
  have a5: "live (wo_src w5) \<and> agree R (?S4 \<union> copies_bytes (pl_copies p)) (wo_staged w5)"
    using write_groups_agree [OF s5 l4] a4 sound R by (auto simp: plan_sound_def)
  have a6: "live (wo_src w6) \<and> agree R ?S6 (wo_staged w6)"
    using fetch_spans_agree [OF s6] a5 sound R by (auto simp: plan_sound_def)
  have a7: "wo_src w7 = wo_src w6
      \<and> agree R (?S6 \<union> (\<Union>d \<in> set (pl_digests p). digest_covers d)) (wo_staged w7)"
    by (rule write_digests_agree [OF s7 conjunct2 [OF a6] _ R])
      (use sound before in \<open>simp add: plan_sound_def\<close>)
  have fo: "unat (rp_size remote - of_nat FOOTER_SIZE) = length R - FOOTER_SIZE"
    "FOOTER_SIZE \<le> length R" "unat (rp_size remote) = length R"
    "rp_footer_bytes remote = drop (length R - FOOTER_SIZE) R"
    using sound by (simp_all add: plan_sound_def unat_sub word_le_nat_alt FOOTER_SIZE_def)
  have a8: "wo_src w' = wo_src w7
      \<and> agree R (?S6 \<union> (\<Union>d \<in> set (pl_digests p). digest_covers d)
          \<union> held_covers (rp_size remote - of_nat FOOTER_SIZE, rp_footer_bytes remote)) (wo_staged w')"
    by (rule stage_agree [OF s8 conjunct2 [OF a7]]) (use piece_drop [OF fo(2)] fo in simp)
  have "held_covers (rp_size remote - of_nat FOOTER_SIZE, rp_footer_bytes remote)
      = {unat (rp_size remote) - FOOTER_SIZE ..< unat (rp_size remote)}"
    using fo by (simp add: held_covers_def)
  then show ?thesis using a6 a7 a8 unfolding plan_bytes_def before [symmetric] by simp
qed

lemma write_plan_is_release:
  assumes "write_plan lib local_file remote p fetch w = (Inr out, w')" "live (wo_src w)"
    and "plan_sound lib R remote p" "length R < 2 ^ 64" "{..< length R} \<subseteq> plan_bytes remote p"
  shows "wo_staged w' = R"
  using write_plan_agree [OF assms(1-4)] agree_all assms(5) by blast

end

section \<open>The assembly gets through\<close>

lemma copy_loop_ok:
  "unat src + unat len \<le> length from \<Longrightarrow> length from < 2 ^ 64 \<Longrightarrow> done \<le> len \<Longrightarrow>
     \<exists>h w'. copy_loop from src dst len done hashed w = (Inr h, w')"
proof (induction "unat (len - done)" arbitrary: "done" hashed w rule: less_induct)
  case less
  show ?case
  proof (cases "done < len")
    case True
    define n where "n = min (len - done) COPY_BUFFER"
    have n: "n \<noteq> 0" "n \<le> len - done"
      using min_buffer [OF True, of COPY_BUFFER] by (simp_all add: n_def COPY_BUFFER_def)
    note p = loop_progress [OF True n]
    have lt: "unat done + unat n \<le> unat len" using p by (simp add: word_le_nat_alt)
    have "unat (src + done) = unat src + unat done"
      using less.prems(1,2) lt by (intro word_add_unat) simp
    then obtain buf where b: "read_exact_at from (src + done) (unat n) = Inr buf"
      using less.prems(1) lt p by (auto simp: read_exact_at_def)
    obtain h w' where "copy_loop from src dst len (done + n) (hashed @ buf)
        (w\<lparr> wo_staged := write_at (unat (dst + done)) buf (wo_staged w) \<rparr>) = (Inr h, w')"
      using less.hyps [OF _ less.prems(1,2)] p by fastforce
    then show ?thesis using True b
      by (subst copy_loop.simps) (simp add: Let_def seqS_def liftS_def stage_def flip: n_def)
  qed (subst copy_loop.simps, simp)
qed

lemma fetch_loop_ok:
  "unat len - unat done \<le> length reader \<Longrightarrow> done \<le> len \<Longrightarrow>
     \<exists>w'. fetch_loop reader start len done w = (Inr (), w')"
proof (induction "unat (len - done)" arbitrary: "done" reader w rule: less_induct)
  case less
  show ?case
  proof (cases "done < len")
    case True
    define n where "n = min (len - done) (of_nat FETCH_BUFFER)"
    have n: "n \<noteq> 0" "n \<le> len - done"
      using min_buffer [OF True, of "of_nat FETCH_BUFFER"] by (simp_all add: n_def FETCH_BUFFER_def)
    note p = loop_progress [OF True n]
    have lt: "unat done + unat n \<le> unat len" using p by (simp add: word_le_nat_alt)
    have r: "read_exact (unat n) reader = Inr (take (unat n) reader, drop (unat n) reader)"
      using less.prems(1) lt by (simp add: read_exact_Inr_iff)
    obtain w' where "fetch_loop (drop (unat n) reader) start len (done + n)
        (w\<lparr> wo_staged := write_at (unat (start + done)) (take (unat n) reader) (wo_staged w) \<rparr>) = (Inr (), w')"
      using less.hyps [of "done + n" "drop (unat n) reader"] less.prems(1) p by fastforce
    then show ?thesis using True r
      by (subst fetch_loop.simps) (simp add: Let_def seqS_def stage_def flip: n_def)
  qed (subst fetch_loop.simps, simp)
qed

text \<open>The running binary has the bytes a group copies.\<close>

definition group_local :: "bytes \<Rightarrow> copy_group \<Rightarrow> bool" where
  "group_local f g \<longleftrightarrow> (\<forall>r \<in> set (cg_ranges g). unat (cr_src r) + unat (cr_len r) \<le> length f)"

lemma group_bytes_ok: "group_local f g \<Longrightarrow> \<exists>bs. group_bytes f (cg_ranges g) = Inr bs"
proof -
  have "\<exists>bs. foldE (\<lambda>r bs. tryE (map_err (\<lambda>_. ''read the running binary'')
               (read_exact_at f (cr_src r) (unat (cr_len r)))) (\<lambda>buf. Inr (bs @ buf)))
       rs acc = Inr bs"
    if "\<forall>r \<in> set rs. unat (cr_src r) + unat (cr_len r) \<le> length f" for rs :: "copy_range list" and acc
    using that by (induction rs arbitrary: acc) (auto simp: read_exact_at_def tryE_def)
  then show "group_local f g \<Longrightarrow> \<exists>bs. group_bytes f (cg_ranges g) = Inr bs"
    by (simp add: group_bytes_def group_local_def)
qed

lemma write_ranges_ok: "\<exists>w' :: 's world. write_ranges rs bs w = (Inr (), w')"
  by (induction rs arbitrary: bs w) (auto simp: seqS_def stage_def)

lemma stage_opt_ok: "\<exists>w'. stage_opt h w = (Inr (), w')"
  by (cases h) (auto simp: stage_opt_def stage_def returnS_def)

lemma write_digests_ok:
  assumes "\<forall>d \<in> set ds. unat (fst d) + unat (snd d) + 8 \<le> length (wo_staged w)"
    "length (wo_staged w) < 2 ^ 64"
  shows "\<exists>w'. eachS (write_digest lib) ds w = (Inr (), w')"
  using assms
proof (induction ds arbitrary: w)
  case (Cons d ds)
  obtain start len where d: "d = (start, len)" by fastforce
  have fits: "unat start + unat len + 8 \<le> length (wo_staged w)" using Cons.prems(1) by (simp add: d)
  then have "unat (start + len) = unat start + unat len"
    using Cons.prems(2) by (intro word_add_unat) simp
  moreover obtain b where b: "read_exact_at (wo_staged w) start (unat len) = Inr b"
    using fits by (cases "unat len = 0") (auto simp: read_exact_at_def)
  ultimately obtain u where u: "write_digest lib d w = (Inr (), u)"
    "length (wo_staged u) = length (wo_staged w)"
    using fits by (simp add: write_digest_def d seqS_def liftS_def stage_def)
  then show ?case using Cons.IH [of u] Cons.prems by simp
qed simp

context answering_source
begin

lemma fetch_span_ok:
  assumes "live (wo_src w)" "unat a + unat l \<le> length R"
  shows "\<exists>w'. fetch_span fetch a l w = (Inr l, w')"
proof (cases "l = 0")
  case False
  obtain t where t: "fetch a l (wo_src w) = (Inr (slice (unat a) (unat a + unat l) R), t)"
    using fetch_answers [OF assms] fetch_serves [OF assms(1)] by metis
  obtain w' where "fetch_loop (slice (unat a) (unat a + unat l) R) a l 0 (w\<lparr> wo_src := t \<rparr>) = (Inr (), w')"
    using fetch_loop_ok [of l 0 "slice (unat a) (unat a + unat l) R"] assms(2) by auto
  then show ?thesis using False t by (simp add: fetch_span_def seqS_def srcS_def)
qed (simp add: fetch_span_def)

lemma fetch_ranges_ok:
  assumes "live (wo_src w)" "agree R S (wo_staged w)" "length R < 2 ^ 64"
    "\<forall>r \<in> set rs. unat (cr_dst r) + unat (cr_len r) \<le> length R"
  shows "\<exists>m w'. fetch_ranges fetch rs n w = (Inr m, w')"
  using assms
proof (induction rs arbitrary: n w S)
  case (Cons r rs)
  obtain u where u: "fetch_span fetch (cr_dst r) (cr_len r) w = (Inr (cr_len r), u)"
    using fetch_span_ok [OF Cons.prems(1), of "cr_dst r" "cr_len r"] Cons.prems(4) by auto
  then show ?case
    using fetch_span_agree [OF u Cons.prems(1,2) _ Cons.prems(3)] Cons.IH [of u] Cons.prems(3,4)
    by auto
qed auto

lemma fetch_spans_ok:
  assumes "live (wo_src w)" "agree R S (wo_staged w)" "length R < 2 ^ 64"
    "\<forall>s \<in> set ss. span_inside (length R) s"
  shows "\<exists>m w'. fetch_spans fetch ss n w = (Inr m, w')"
  using assms
proof (induction ss arbitrary: n w S)
  case (Cons s ss)
  have in_R: "unat (sp_start s) + unat (sp_len s) \<le> length R"
    using Cons.prems(4) by (simp add: span_inside_def)
  obtain u where u: "fetch_span fetch (sp_start s) (sp_len s) w = (Inr (sp_len s), u)"
    using fetch_span_ok [OF Cons.prems(1) in_R] by auto
  then show ?case
    using fetch_span_agree [OF u Cons.prems(1,2) in_R Cons.prems(3)] Cons.IH [of u] Cons.prems(3,4)
    by auto
qed auto

lemma write_groups_ok:
  assumes "live (wo_src w)" "agree R S (wo_staged w)" "length R < 2 ^ 64"
    "\<forall>g \<in> set gs. group_sound lib dict R g \<and> group_local f g"
  shows "\<exists>out w'. write_groups lib f gs dict fetch st w = (Inr out, w')"
  using assms
proof (induction gs arbitrary: st w S)
  case (Cons g gs)
  obtain reused n where st: "st = (reused, n)" by fastforce
  obtain bs where bs: "group_bytes f (cg_ranges g) = Inr bs"
    using group_bytes_ok Cons.prems(4) by fastforce
  obtain m v where m: "fetch_ranges fetch (cg_ranges g) n w = (Inr m, v)"
    using fetch_ranges_ok [OF Cons.prems(1-3), of "cg_ranges g" n] Cons.prems(4)
    by (auto simp: group_sound_def group_inside_def)
  obtain x where x: "write_ranges (cg_ranges g) bs w = (Inr (), x)" using write_ranges_ok by blast
  have "\<exists>r u. write_group lib f g dict fetch n w = (Inr r, u)"
    using bs m x by (cases "check_ok lib dict (cg_check g) bs")
      (auto simp: write_group_def seqS_def liftS_def returnS_def)
  then obtain ok k u where u: "write_group lib f g dict fetch n w = (Inr (ok, k), u)" by auto
  show ?case
    using write_group_agree [OF u Cons.prems(1,2) _ Cons.prems(3)] Cons.IH [of u] Cons.prems(3,4) u
    by (auto simp: st)
qed auto

lemma write_prefix_ok:
  assumes "live (wo_src w)" "agree R S (wo_staged w)" "length R < 2 ^ 64"
    "prefix_sound lib R remote c" "length f < 2 ^ 64"
    "\<forall>len. c = PrefixCopy len \<longrightarrow> unat len \<le> length f"
  shows "\<exists>n w'. write_prefix lib f remote c fetch w = (Inr n, w')"
proof (cases c)
  case (PrefixFetch l)
  then show ?thesis using fetch_span_ok [OF assms(1), of 0 l] assms(4)
    by (auto simp: write_prefix_def prefix_sound_def prefix_len_def)
next
  case (PrefixCopy l)
  have l: "unat l \<le> length f" "unat l \<le> length R"
    using assms(4,6) PrefixCopy by (auto simp: prefix_sound_def prefix_len_def)
  obtain h u where h: "copy_loop f 0 0 l 0 [] w = (Inr h, u)"
    using copy_loop_ok [of 0 l f 0 0 "[]" w] l(1) assms(5) by auto
  have "wo_src u = wo_src w" using copy_loop_zero [OF h] .
  then obtain v where "fetch_span fetch 0 l u = (Inr l, v)"
    using fetch_span_ok [of u 0 l] assms(1) l(2) by auto
  then show ?thesis using PrefixCopy h
    by (auto simp: write_prefix_def copy_run_def seqS_def returnS_def)
qed

end

text \<open>What the running binary must hold for the plan's reads of it to succeed.\<close>

definition plan_local :: "bytes \<Rightarrow> plan \<Rightarrow> bool" where
  "plan_local f p \<longleftrightarrow> length f < 2 ^ 64 \<and> (\<forall>g \<in> set (pl_copies p). group_local f g)
     \<and> (case pl_prefix p of PrefixCopy len \<Rightarrow> unat len \<le> length f | PrefixFetch _ \<Rightarrow> True)"

context answering_source
begin

lemma write_plan_ok:
  assumes "live (wo_src w)" "plan_sound lib R remote p" "length R < 2 ^ 64" "plan_local f p"
  shows "\<exists>out w'. write_plan lib f remote p fetch w = (Inr out, w')"
proof -
  let ?w0 = "w\<lparr> wo_staged := set_len (unat (rp_size remote)) (wo_staged w) \<rparr>"
  note sound = assms(2) [unfolded plan_sound_def]
  have l0: "live (wo_src ?w0)" "agree R {} (wo_staged ?w0)"
    using assms(1) sound set_len_agree [of R] by auto
  obtain n0 w1 where s1: "write_prefix lib f remote (pl_prefix p) fetch ?w0 = (Inr n0, w1)"
    using write_prefix_ok [OF l0 assms(3), of lib remote "pl_prefix p" f] sound assms(4)
    by (auto simp: plan_local_def split: prefix_choice.splits)
  have a1: "live (wo_src w1) \<and> agree R ({} \<union> {..< unat (prefix_len (pl_prefix p))}) (wo_staged w1)"
    by (rule write_prefix_agree [OF s1 l0]) (use sound assms(3) in auto)
  obtain w2 where s2: "stage (f_manifest_offset (rp_footer remote)) (rp_manifest_bytes remote) w1 = (Inr (), w2)"
    by (simp add: stage_def)
  have a2: "wo_src w2 = wo_src w1 \<and> agree R ({} \<union> {..< unat (prefix_len (pl_prefix p))}
      \<union> held_covers (f_manifest_offset (rp_footer remote), rp_manifest_bytes remote)) (wo_staged w2)"
    by (rule stage_agree [OF s2 conjunct2 [OF a1]]) (use sound in \<open>simp add: held_def\<close>)
  obtain w3 where s3: "stage_opt (map_option (Pair (f_dict_offset (rp_footer remote))) (pl_dict p)) w2 = (Inr (), w3)"
    using stage_opt_ok by blast
  have a3: "wo_src w3 = wo_src w2 \<and> agree R {} (wo_staged w3)"
    using stage_opt_agree [OF s3, of R "{}"] a2 agree_mono sound
    by (fastforce simp: held_def split: option.splits)
  obtain w4 where s4: "stage_opt (pl_known p) w3 = (Inr (), w4)"
    using stage_opt_ok by blast
  have a4: "wo_src w4 = wo_src w3 \<and> agree R {} (wo_staged w4)"
    using stage_opt_agree [OF s4, of R "{}"] a3 agree_mono sound
    by (fastforce simp: held_def split: option.splits)
  have l4: "live (wo_src w4)" using a1 a2 a3 a4 by simp
  obtain reused n1 w5 where
    s5: "write_groups lib f (pl_copies p) (pl_dict p) fetch (0, n0) w4 = (Inr (reused, n1), w5)"
    using write_groups_ok [OF l4 conjunct2 [OF a4] assms(3), of "pl_copies p" lib "pl_dict p" f "(0, n0)"]
      sound assms(4) by (auto simp: plan_local_def)
  have a5: "live (wo_src w5) \<and> agree R ({} \<union> copies_bytes (pl_copies p)) (wo_staged w5)"
    by (rule write_groups_agree [OF s5 l4 conjunct2 [OF a4] _ assms(3)]) (use sound in simp)
  obtain n2 w6 where s6: "fetch_spans fetch (pl_fetch p) n1 w5 = (Inr n2, w6)"
    using fetch_spans_ok [of w5 _ "pl_fetch p" n1] a5 sound assms(3) by blast
  have a6: "agree R {} (wo_staged w6)"
    using fetch_spans_agree [OF s6] a5 sound assms(3) agree_mono by blast
  obtain w7 where s7: "eachS (write_digest lib) (pl_digests p) w6 = (Inr (), w7)"
    using write_digests_ok [of "pl_digests p" w6 lib] a6 sound assms(3)
    by (fastforce simp: agree_def digest_sound_def split: prod.splits)
  show ?thesis
    using s1 s2 s3 s4 s5 s6 s7 by (simp add: write_plan_def seqS_def stage_def returnS_def)
qed

end

section \<open>The staged file is the release\<close>

text \<open>
  C32: The assembly of an update rebuilds the release. When every piece a plan writes is a piece of
  the release (a copy only as far as its hash vouches for it) and the pieces leave no byte out, a run
  of \<open>write_plan\<close> that succeeds leaves the release byte for byte in the staged file, whatever the
  running binary and the staged file held before; and against a host that serves the release it does
  succeed, when the running binary has the bytes the plan reads of it.
\<close>

theorem write_plan_rebuilds:
  assumes "serving R (wo_src w)" "length R < 2 ^ 64" "plan_sound lib R remote p"
    and "{..< length R} \<subseteq> plan_bytes remote p"
  shows "(\<forall>out w'. write_plan lib f remote p (fetch_range (serve R)) w = (Inr out, w')
            \<longrightarrow> wo_staged w' = R)
    \<and> (plan_local f p \<longrightarrow> (\<exists>out w'. write_plan lib f remote p (fetch_range (serve R)) w = (Inr out, w')
            \<and> wo_staged w' = R))"
  using served.write_plan_is_release answers.write_plan_ok assms by meson

definition sample_release :: bytes where
  "sample_release = [1, 2, 3, 4, 5, 6, 7] @ replicate 8 0 @ replicate FOOTER_SIZE 9"

definition plain_hash_lib :: "unit lib" where
  "plain_hash_lib = sample_lib\<lparr> blake3 := (\<lambda>bs. bs), xxh3_64 := (\<lambda>_. 0) \<rparr>"

definition release_remote :: remote_package where
  "release_remote = \<lparr> rp_footer = sample_stored\<lparr> f_manifest_offset := 2 \<rparr>,
     rp_footer_bytes = replicate FOOTER_SIZE 9,
     rp_manifest = sample_manifest\<lparr> m_header := sample_header\<lparr> h_prefix_hash := [1, 2] \<rparr> \<rparr>,
     rp_manifest_bytes = [3], rp_size = 91 \<rparr>"

text \<open>The running binary has the prefix and the block \<open>[4, 5]\<close>; a second copy does not match.\<close>

definition release_plan :: plan where
  "release_plan = \<lparr> pl_prefix = PrefixCopy 2, pl_dict = None,
     pl_copies = [\<lparr> cg_ranges = [\<lparr> cr_dst = 3, cr_src = 4, cr_len = 2 \<rparr>], cg_check = Raw [4, 5] \<rparr>,
       \<lparr> cg_ranges = [\<lparr> cr_dst = 5, cr_src = 0, cr_len = 1 \<rparr>], cg_check = Raw [6] \<rparr>],
     pl_fetch = [\<lparr> sp_start = 6, sp_len = 1 \<rparr>], pl_digests = [(3, 4)], pl_unit = lit ''blocks'',
     pl_known = None \<rparr>"

lemma length_sample_release [simp]: "length sample_release = 91"
  by (simp add: sample_release_def FOOTER_SIZE_def)

lemma release_plan_sound: "plan_sound plain_hash_lib sample_release release_remote release_plan"
proof -
  have p: "prefix_sound plain_hash_lib sample_release release_remote (PrefixCopy 2)"
    by (auto simp: prefix_sound_def prefix_len_def release_remote_def plain_hash_lib_def)
      (simp add: sample_release_def)
  have h: "piece sample_release 2 [3]"
    by (simp add: piece_def slice_def) (simp add: sample_release_def)
  have g: "group_sound plain_hash_lib None sample_release
      \<lparr> cg_ranges = [\<lparr> cr_dst = 3, cr_src = 4, cr_len = 2 \<rparr>], cg_check = Raw [4, 5] \<rparr>"
    "group_sound plain_hash_lib None sample_release
      \<lparr> cg_ranges = [\<lparr> cr_dst = 5, cr_src = 0, cr_len = 1 \<rparr>], cg_check = Raw [6] \<rparr>"
    by (auto simp: group_sound_def group_inside_def group_target_def copy_target_def check_ok_def
        plain_hash_lib_def slice_def) (simp_all add: sample_release_def)
  have d: "digest_sound plain_hash_lib sample_release (3, 4)"
    by (simp add: digest_sound_def plain_hash_lib_def slice_def)
      (simp add: sample_release_def le_bytes_def eval_nat_numeral)
  have b: "digest_block (3, 4) \<subseteq> plan_before release_remote release_plan"
    by (auto simp: digest_block_def plan_before_def release_plan_def copies_bytes_def copy_bytes_def
        span_bytes_def)
  show ?thesis
    using p h g d b
    by (auto simp: plan_sound_def release_plan_def held_def span_inside_def)
      (simp_all add: release_remote_def sample_release_def FOOTER_SIZE_def sample_stored_def)
qed

lemma release_plan_covers: "{..< length sample_release} \<subseteq> plan_bytes release_remote release_plan"
  by (auto simp: plan_bytes_def plan_before_def held_def held_covers_def release_plan_def
      release_remote_def prefix_len_def copies_bytes_def copy_bytes_def span_bytes_def
      digest_covers_def FOOTER_SIZE_def sample_stored_def)

theorem write_plan_rebuilds_witness:
  "\<exists>out w'. write_plan plain_hash_lib [1, 2, 7, 7, 4, 5] release_remote release_plan
      (fetch_range (serve sample_release))
      \<lparr> wo_staged = [], wo_src = \<lparr> so_ranges = True, so_release = None, so_clock = 0 \<rparr> \<rparr> = (Inr out, w')
    \<and> wo_staged w' = sample_release"
proof -
  have "serving sample_release \<lparr> so_ranges = True, so_release = None, so_clock = 0 \<rparr>"
    by (simp add: serving_def)
  moreover have "plan_local [1, 2, 7, 7, 4, 5] release_plan"
    by (simp add: plan_local_def group_local_def release_plan_def)
  ultimately show ?thesis
    using write_plan_rebuilds [OF _ _ release_plan_sound release_plan_covers] by simp
qed

end
