(* ===== verification/Delta_Stipple.thy ===== *)
theory Delta_Stipple
  imports Delta_Plan
begin

text \<open>
  Planning an update of a stipplefs payload, the second half of the planner of \<open>update/delta.rs\<close>: the
  release image's metadata is fetched in one request, then content is copied slice by slice between
  two stored images, or block by block between two compressed ones. The image parser is third-party
  code: its operations are the fields of \<open>image_lib\<close>.
\<close>

section \<open>The image library\<close>

record image_section =
  se_offset :: u64
  se_size :: u64

text \<open>An entry of the block index; \<open>be_raw\<close> is whether its codec is the stored one.\<close>

record block_entry =
  be_image_offset :: u64
  be_stored_length :: u32
  be_decoded_length :: u32
  be_raw :: bool
  be_codec_id :: u8
  be_digest :: "u64 option"

type_synonym 's byte_source = "u64 \<Rightarrow> nat \<Rightarrow> ('s, string, bytes) step"

record ('s, 'i, 'r) image_lib =
  image_new :: "'s byte_source \<Rightarrow> u64 \<Rightarrow> u64 \<Rightarrow> ('s, string, 'i) step"
  image_sections :: "'i \<Rightarrow> image_section list"
  image_open :: "'s byte_source \<Rightarrow> u64 \<Rightarrow> 'i \<Rightarrow> ('s, string, 'r) step"
  section_absent :: "image_section \<Rightarrow> bool"
  flag_variable_blocks :: nat
  image_flags :: "'r \<Rightarrow> nat"
  image_block_size :: "'r \<Rightarrow> u32"
  blocks_count :: "'r \<Rightarrow> nat"
  blocks_get :: "'r \<Rightarrow> nat \<Rightarrow> block_entry option"
  blocks_locate :: "'r \<Rightarrow> u64 \<Rightarrow> (nat \<times> u64) option"
  file_extents :: "'r \<Rightarrow> u32 \<Rightarrow> (u64 \<times> u64 \<times> u64) list"

section \<open>Reading the release image\<close>

definition METADATA_MAX :: u64 where "METADATA_MAX = 64 * 1024 * 1024"

text \<open>\<open>bytes.get(at..at + len)\<close>: nothing when the range is out of bounds or its end wrapped.\<close>

definition get_range :: "bytes \<Rightarrow> u64 \<Rightarrow> u64 \<Rightarrow> bytes option" where
  "get_range bs at e = (if at \<le> e \<and> unat e \<le> length bs then Some (slice (unat at) (unat e) bs) else None)"

definition prefetched_bytes :: "(u64 \<times> bytes) option \<Rightarrow> u64 \<Rightarrow> u64 \<Rightarrow> bytes option" where
  "prefetched_bytes prefetched offset len =
     bind_opt prefetched (\<lambda>(start, bs).
       if start \<le> offset then get_range bs (offset - start) (offset - start + len) else None)"

definition fetching_read :: "(u64 \<Rightarrow> u64 \<Rightarrow> ('s, fetch_error, bytes) step) \<Rightarrow> (u64 \<times> bytes) option
    \<Rightarrow> 's byte_source" where
  "fetching_read fetch prefetched offset n =
     (if n = 0 then returnS []
      else
        let len = of_nat n in
        (case prefetched_bytes prefetched offset len of
           Some cached \<Rightarrow> returnS cached
         | None \<Rightarrow>
             seqS (map_errS (\<lambda>_. ''io'') (fetch offset len)) (\<lambda>reader.
             liftS (map_err (\<lambda>_. ''io'') (tryE (read_exact n reader) (\<lambda>(buf, _). Inr buf))))))"

definition page_ceil :: "u64 \<Rightarrow> u64" where
  "page_ceil e =
     (let pages = (unat e + 4095) div 4096
      in if pages * 4096 < 2 ^ 64 then of_nat (pages * 4096) else - 1)"

definition metadata_range :: "('s, 'i, 'r) image_lib \<Rightarrow> image_section list \<Rightarrow> u64
    \<Rightarrow> string + (u64 \<times> u64) option" where
  "metadata_range im sections image_size =
     (case map (\<lambda>s. se_offset s + se_size s) (filter (\<lambda>s. \<not> section_absent im s) sections) of
        [] \<Rightarrow> Inr None
      | e # es \<Rightarrow>
          let end' = min (page_ceil (foldl max e es)) image_size in
          if end' > METADATA_MAX
          then Inl ''the release image's metadata spans more than the updater fetches''
          else Inr (Some (0, end')))"

definition all_stored :: "('s, 'i, 'r) image_lib \<Rightarrow> 'r \<Rightarrow> bool" where
  "all_stored im r =
     list_all (\<lambda>i. case blocks_get im r i of None \<Rightarrow> False | Some e \<Rightarrow> be_raw e) [0..<blocks_count im r]"

definition variable_blocks :: "('s, 'i, 'r) image_lib \<Rightarrow> 'r \<Rightarrow> bool" where
  "variable_blocks im r \<longleftrightarrow> and (image_flags im r) (flag_variable_blocks im) \<noteq> 0"

section \<open>Following content into stored blocks\<close>

text \<open>
  The loop over the blocks of one extent ends only as long as the index moves it forward, so it is a
  partial function: \<open>None\<close> is a loop that never returns.
\<close>

definition list_opt :: "'a option \<Rightarrow> 'a list" where
  "list_opt o' = (case o' of None \<Rightarrow> [] | Some x \<Rightarrow> [x])"

type_synonym 'a run = "(string + 'a) option"

definition tryO :: "'a run \<Rightarrow> ('a \<Rightarrow> 'b run) \<Rightarrow> 'b run" where
  "tryO m f = (case m of None \<Rightarrow> None | Some (Inl e) \<Rightarrow> Some (Inl e) | Some (Inr x) \<Rightarrow> f x)"

fun foldO :: "('a \<Rightarrow> 's \<Rightarrow> 's run) \<Rightarrow> 'a list \<Rightarrow> 's \<Rightarrow> 's run" where
  "foldO f [] s = Some (Inr s)"
| "foldO f (x # xs) s = tryO (f x s) (foldO f xs)"

partial_function (option) slice_run :: "('s, 'i, 'r) image_lib \<Rightarrow> 'r \<Rightarrow> u64 \<Rightarrow> u64 \<Rightarrow> u64
    \<Rightarrow> (u64 \<times> u64) list \<Rightarrow> (u64 \<times> u64) list run" where
  "slice_run im r base stream_end at out =
     (if at < stream_end then
        (case blocks_locate im r at of
           None \<Rightarrow> Some (Inl ''stream byte is outside every block'')
         | Some (index, within) \<Rightarrow>
             (case blocks_get im r index of
                None \<Rightarrow> Some (Inl ''block is outside the block index'')
              | Some e \<Rightarrow>
                  if \<not> be_raw e then Some (Inl ''a compressed block cannot be copied'')
                  else
                    let count = min (ucast (be_decoded_length e) - within) (stream_end - at);
                        start = base + be_image_offset e + within
                    in if ucast (be_stored_length e) < within + count
                       then Some (Inl ''block is shorter than its content'')
                       else slice_run im r base stream_end (at + count) (out @ [(start, start + count)])))
      else Some (Inr out))"

text \<open>The extents of a file, from \<open>covered\<close> on; the result is how far they reached.\<close>

fun slice_extents :: "('s, 'i, 'r) image_lib \<Rightarrow> 'r \<Rightarrow> u64 \<Rightarrow> u64 \<Rightarrow> (u64 \<times> u64 \<times> u64) list \<Rightarrow> u64
    \<Rightarrow> (u64 \<times> u64) list \<Rightarrow> (u64 \<times> (u64 \<times> u64) list) run" where
  "slice_extents im r base end' [] covered out = Some (Inr (covered, out))"
| "slice_extents im r base end' ((stream_off, ext_off, ext_len) # rest) covered out =
     (case checked_add_u64 ext_off ext_len of
        None \<Rightarrow> Some (Inl ''an extent overflows the image'')
      | Some ext_end \<Rightarrow>
          if ext_end \<le> covered then slice_extents im r base end' rest covered out
          else if ext_off > covered then Some (Inl ''a hole sits in the file'')
          else
            let stop = min end' ext_end in
            (case checked_add_u64 stream_off (covered - ext_off) of
               None \<Rightarrow> Some (Inl ''an extent position overflows the image'')
             | Some at \<Rightarrow>
                 (case checked_add_u64 stream_off (stop - ext_off) of
                    None \<Rightarrow> Some (Inl ''an extent end overflows the image'')
                  | Some stream_end \<Rightarrow>
                      tryO (slice_run im r base stream_end at out) (\<lambda>out'.
                      if stop \<ge> end' then Some (Inr (stop, out'))
                      else slice_extents im r base end' rest stop out'))))"

definition slice_stored_ranges :: "('s, 'i, 'r) image_lib \<Rightarrow> 'r \<Rightarrow> u64 \<Rightarrow> u32 \<Rightarrow> u64 \<Rightarrow> u64
    \<Rightarrow> (u64 \<times> u64) list run" where
  "slice_stored_ranges im r base ino file_off len =
     (case checked_add_u64 file_off len of
        None \<Rightarrow> Some (Inl ''the file range overflows the image'')
      | Some end' \<Rightarrow>
          tryO (slice_extents im r base end' (file_extents im r ino) file_off []) (\<lambda>(covered, out).
          if covered < end' then Some (Inl ''the image ends the file early'') else Some (Inr out)))"

section \<open>Zipping\<close>

text \<open>The lists from the current range on, and how much of each current range is used.\<close>

function zip_from :: "(u64 \<times> u64) list \<Rightarrow> u64 \<Rightarrow> (u64 \<times> u64) list \<Rightarrow> u64 \<Rightarrow> string + copy_range list" where
  "zip_from [] di [] sj = Inr []"
| "zip_from ((a, b) # dst) di [] sj = Inl ''matched slices cover different byte totals''"
| "zip_from [] di ((c, d) # src) sj = Inl ''matched slices cover different byte totals''"
| "zip_from ((a, b) # dst) di ((c, d) # src) sj =
     (let n = min (b - a - di) (d - c - sj);
          di' = di + n; sj' = sj + n;
          dst_done = (di' = b - a); src_done = (sj' = d - c)
      in tryE (zip_from (if dst_done then dst else (a, b) # dst) (if dst_done then 0 else di')
                (if src_done then src else (c, d) # src) (if src_done then 0 else sj')) (\<lambda>out.
         Inr (\<lparr> cr_dst = a + di, cr_src = c + sj, cr_len = n \<rparr> # out)))"
  by pat_completeness auto

termination zip_from
  by (relation "measure (\<lambda>(dst, di, src, sj). length dst + length src)")
    (auto simp: min_def split: if_splits)

declare zip_from.simps(4) [simp del]

definition zip_ranges :: "(u64 \<times> u64) list \<Rightarrow> (u64 \<times> u64) list \<Rightarrow> string + copy_range list" where
  "zip_ranges dst src = zip_from dst 0 src 0"

section \<open>Slices of two stored images\<close>

type_synonym slice_index = "bytes \<rightharpoonup> u32 \<times> u64 \<times> u64"

text \<open>\<open>entry(..).or_insert(..)\<close>: the first slice with a hash stays.\<close>

definition index_slice :: "block \<Rightarrow> slice_index \<Rightarrow> string + slice_index" where
  "index_slice b m =
     tryE (ok_or ''the running package names an inode outside the image''
             (u32_try_from (b_compressed_size b))) (\<lambda>ino.
     Inr (case m (b_content_hash b) of
            Some _ \<Rightarrow> m
          | None \<Rightarrow> m(b_content_hash b \<mapsto> (ino, b_payload_offset b, b_original_size b))))"

definition local_slices :: "manifest \<Rightarrow> string + slice_index" where
  "local_slices m = foldE index_slice (file_blocks m) Map.empty"

text \<open>The image a package holds, with the offset its payload starts at.\<close>

type_synonym 'r located_image = "'r \<times> u64"

definition plan_slice :: "('s, 'i, 'r) image_lib \<Rightarrow> 'r located_image \<Rightarrow> 'r located_image \<Rightarrow> slice_index
    \<Rightarrow> block \<Rightarrow> copy_group list \<times> (u64 \<times> u64) list \<times> (u32 \<times> u64) set
    \<Rightarrow> (copy_group list \<times> (u64 \<times> u64) list \<times> (u32 \<times> u64) set) run" where
  "plan_slice im loc rel slices b st =
     (case st of (copies, taken, seen) \<Rightarrow>
        tryO (Some (map_err (\<lambda>_. ''release'') (block_original_size usize_max b))) (\<lambda>n.
        let len = of_nat n in
        case slices (b_content_hash b) of
          None \<Rightarrow> Some (Inr st)
        | Some (ino_l, off_l, len_l) \<Rightarrow>
            if len_l \<noteq> len then Some (Inr st)
            else
              tryO (Some (ok_or ''the release names an inode outside the image''
                            (u32_try_from (b_compressed_size b)))) (\<lambda>ino_r.
              if (ino_r, b_payload_offset b) \<in> seen then Some (Inr st)
              else
                tryO (slice_stored_ranges im (fst rel) (snd rel) ino_r (b_payload_offset b) len) (\<lambda>dst.
                tryO (slice_stored_ranges im (fst loc) (snd loc) ino_l off_l len) (\<lambda>srcs.
                tryO (Some (zip_ranges dst srcs)) (\<lambda>ranges.
                Some (Inr (copies @ [\<lparr> cg_ranges = ranges, cg_check = Raw (b_content_hash b) \<rparr>],
                  taken @ map (\<lambda>r. (cr_dst r, cr_dst r + cr_len r)) ranges,
                  insert (ino_r, b_payload_offset b) seen))))))))"

definition plan_digest :: "('s, 'i, 'r) image_lib \<Rightarrow> 'r \<Rightarrow> footer \<Rightarrow> nat
    \<Rightarrow> (u64 \<times> u64) list \<times> (u64 \<times> u64) list \<Rightarrow> string + (u64 \<times> u64) list \<times> (u64 \<times> u64) list" where
  "plan_digest im r f i st =
     (case st of (taken, digests) \<Rightarrow>
        (case blocks_get im r i of
           None \<Rightarrow> Inl ''block is outside the block index''
         | Some e \<Rightarrow>
             let len = ucast (be_stored_length e) in
             (case checked_add_u64 (f_payload_offset f) (be_image_offset e) of
                None \<Rightarrow> Inl ''block overflows its image''
              | Some start \<Rightarrow>
                  (case checked_add_u64 start len of
                     None \<Rightarrow> Inl ''block overflows its image''
                   | Some end' \<Rightarrow>
                       if len > ucast (image_block_size im r)
                          \<or> saturating_add_u64 end' 8 > f_payload_offset f + f_payload_size f
                       then Inl ''block does not fit its image''
                       else Inr (taken @ [(end', end' + 8)], digests @ [(start, len)])))))"

definition image_complement :: "footer \<Rightarrow> (u64 \<times> u64) list \<Rightarrow> span list" where
  "image_complement f taken =
     complement (f_payload_offset f) (f_payload_offset f + f_payload_size f) taken"

definition plan_stipple_slices :: "('s, 'i, 'r) image_lib \<Rightarrow> 'r package_data \<Rightarrow> 'r \<Rightarrow> remote_package \<Rightarrow> 'r
    \<Rightarrow> (u64 \<times> u64) option \<Rightarrow> plan run" where
  "plan_stipple_slices im pkg local_reader remote remote_reader known =
     tryO (Some (local_slices (pd_manifest pkg))) (\<lambda>slices.
     tryO (foldO (plan_slice im (local_reader, f_payload_offset (pd_footer pkg))
                    (remote_reader, f_payload_offset (rp_footer remote)) slices)
             (file_blocks (rp_manifest remote)) ([], [], {})) (\<lambda>(copies, taken, _).
     tryO (Some (foldE (plan_digest im remote_reader (rp_footer remote))
             [0..<blocks_count im remote_reader] (taken, []))) (\<lambda>(taken', digests).
     Some (Inr \<lparr> pl_prefix = prefix_plan (pd_footer pkg) (pd_manifest pkg) remote, pl_dict = None,
       pl_copies = copies,
       pl_fetch = image_complement (rp_footer remote) (taken' @ list_opt known),
       pl_digests = digests, pl_unit = lit ''slices'', pl_known = None \<rparr>))))"

section \<open>Blocks of two compressed images\<close>

type_synonym index_key = "u64 \<times> u32 \<times> u32 \<times> u8"

definition block_key :: "block_entry \<Rightarrow> string + index_key" where
  "block_key e =
     tryE (ok_or ''a block index entry records no digest'' (be_digest e)) (\<lambda>digest.
     Inr (digest, be_stored_length e, be_decoded_length e, be_codec_id e))"

definition index_image_block :: "('s, 'i, 'r) image_lib \<Rightarrow> 'r located_image \<Rightarrow> nat
    \<Rightarrow> (index_key \<rightharpoonup> u64) \<Rightarrow> string + (index_key \<rightharpoonup> u64)" where
  "index_image_block im loc i m =
     tryE (ok_or ''block is outside its index'' (blocks_get im (fst loc) i)) (\<lambda>e.
     tryE (block_key e) (\<lambda>k.
     Inr (case m k of Some _ \<Rightarrow> m | None \<Rightarrow> m(k \<mapsto> snd loc + be_image_offset e))))"

definition plan_image_block :: "('s, 'i, 'r) image_lib \<Rightarrow> 'r \<Rightarrow> footer \<Rightarrow> (index_key \<rightharpoonup> u64) \<Rightarrow> nat
    \<Rightarrow> copy_group list \<times> (u64 \<times> u64) list \<times> u64
    \<Rightarrow> string + copy_group list \<times> (u64 \<times> u64) list \<times> u64" where
  "plan_image_block im r f local_blocks i st =
     (case st of (copies, taken, after) \<Rightarrow>
        tryE (ok_or ''block is outside its index'' (blocks_get im r i)) (\<lambda>e.
        let len = ucast (be_stored_length e) + 8;
            payload_end = f_payload_offset f + f_payload_size f;
            fits = (\<lambda>d. d \<ge> after
              \<and> (case checked_add_u64 d len of None \<Rightarrow> False | Some x \<Rightarrow> x \<le> payload_end))
        in case checked_add_u64 (f_payload_offset f) (be_image_offset e) of
             None \<Rightarrow> Inl ''block overlaps another or its image''
           | Some dst \<Rightarrow>
               if \<not> fits dst then Inl ''block overlaps another or its image''
               else
                 tryE (block_key e) (\<lambda>k.
                 Inr (case local_blocks k of
                        None \<Rightarrow> (copies, taken, dst + len)
                      | Some src \<Rightarrow>
                          (copies @ [\<lparr> cg_ranges = [\<lparr> cr_dst = dst, cr_src = src, cr_len = len \<rparr>],
                             cg_check = BlockDigest (case be_digest e of None \<Rightarrow> 0 | Some d \<Rightarrow> d) \<rparr>],
                           taken @ [(dst, dst + len)], dst + len)))))"

definition plan_stipple_blocks :: "('s, 'i, 'r) image_lib \<Rightarrow> 'r package_data \<Rightarrow> 'r \<Rightarrow> remote_package \<Rightarrow> 'r
    \<Rightarrow> (u64 \<times> u64) option \<Rightarrow> string + plan" where
  "plan_stipple_blocks im pkg local_reader remote remote_reader known =
     tryE (foldE (index_image_block im (local_reader, f_payload_offset (pd_footer pkg)))
             [0..<blocks_count im local_reader] Map.empty) (\<lambda>local_blocks.
     tryE (foldE (plan_image_block im remote_reader (rp_footer remote) local_blocks)
             [0..<blocks_count im remote_reader] ([], [], f_payload_offset (rp_footer remote)))
       (\<lambda>(copies, taken, _).
     Inr \<lparr> pl_prefix = prefix_plan (pd_footer pkg) (pd_manifest pkg) remote, pl_dict = None,
       pl_copies = copies,
       pl_fetch = image_complement (rp_footer remote) (taken @ list_opt known),
       pl_digests = [], pl_unit = lit ''blocks'', pl_known = None \<rparr>))"

section \<open>Planning against a release image\<close>

definition open_release_image :: "('s, 'i, 'r) image_lib \<Rightarrow> (u64 \<Rightarrow> u64 \<Rightarrow> ('s, fetch_error, bytes) step)
    \<Rightarrow> footer \<Rightarrow> ('s, string, 'r \<times> (u64 \<times> bytes) option) step" where
  "open_release_image im fetch f =
     seqS (map_errS (\<lambda>_. ''read the release image'')
             (image_new im (fetching_read fetch None) (f_payload_offset f) (f_payload_size f))) (\<lambda>image.
     seqS (liftS (metadata_range im (image_sections im image) (f_payload_size f))) (\<lambda>metadata.
     seqS (case metadata of
             None \<Rightarrow> returnS None
           | Some (a, b) \<Rightarrow>
               let start = f_payload_offset f + a; len = b - a in
               seqS (map_errS (\<lambda>_. ''fetch the metadata of the release image'') (fetch start len)) (\<lambda>reader.
               seqS (liftS (map_err (\<lambda>_. ''read the metadata of the release image'')
                       (tryE (read_exact (unat len) reader) (\<lambda>(bs, _). Inr bs)))) (\<lambda>bs.
               returnS (Some (start, bs))))) (\<lambda>prefetched.
     seqS (map_errS (\<lambda>_. ''read the release image'')
             (image_open im (fetching_read fetch prefetched) METADATA_MAX image)) (\<lambda>reader.
     returnS (reader, prefetched)))))"

text \<open>The range of the bytes held, as the planner recomputes it from the metadata range.\<close>

definition known_range :: "(u64 \<times> bytes) option \<Rightarrow> (u64 \<times> u64) option" where
  "known_range = map_option (\<lambda>(start, bs). (start, start + of_nat (length bs)))"

definition stipple_planner :: "('s, 'i, 'r) image_lib \<Rightarrow> 'r package_data \<Rightarrow> 'r \<Rightarrow> remote_package \<Rightarrow> 'r
    \<Rightarrow> (u64 \<times> u64) option \<Rightarrow> plan run" where
  "stipple_planner im pkg local_reader remote remote_reader known =
     (case (all_stored im local_reader, all_stored im remote_reader) of
        (True, True) \<Rightarrow> plan_stipple_slices im pkg local_reader remote remote_reader known
      | (False, False) \<Rightarrow>
          if \<not> variable_blocks im remote_reader
          then Some (Inl ''the release compresses fixed-size stipplefs blocks'')
          else if \<not> variable_blocks im local_reader
          then Some (Inl ''the running package compresses fixed-size stipplefs blocks'')
          else Some (plan_stipple_blocks im pkg local_reader remote remote_reader known)
      | _ \<Rightarrow> Some (Inl ''the update changes whether the stipplefs payload is compressed''))"

definition plan_stipple :: "('s, 'i, 'r) image_lib \<Rightarrow> 'r package_data \<Rightarrow> remote_package
    \<Rightarrow> (u64 \<Rightarrow> u64 \<Rightarrow> ('s, fetch_error, bytes) step) \<Rightarrow> 's \<Rightarrow> ((string + plan) \<times> 's) option" where
  "plan_stipple im pkg remote fetch s =
     (case pd_codec pkg of
        Zstd _ \<Rightarrow> Some (Inl ''the running package is not a stipple payload'', s)
      | Stipple local_reader \<Rightarrow>
          (case open_release_image im fetch (rp_footer remote) s of
             (Inl e, t) \<Rightarrow> Some (Inl e, t)
           | (Inr (remote_reader, prefetched), t) \<Rightarrow>
               map_option (\<lambda>r. (map_sum id (\<lambda>p. p\<lparr> pl_known := prefetched \<rparr>) r, t))
                 (stipple_planner im pkg local_reader remote remote_reader (known_range prefetched))))"

end
