(* ===== verification/Delta_Images.thy ===== *)
theory Delta_Images
  imports Delta_Stipple Delta_Rebuild
begin

text \<open>
  What the plans of a stipplefs payload are: the ranges a slice is followed to are its bytes in order,
  zipping pairs them, the loops over an image end when its block index moves them forward, and what is
  copied, fetched, recomputed and held is the whole payload.
\<close>

section \<open>Zipping pairs the bytes in order\<close>

definition range_positions :: "u64 \<times> u64 \<Rightarrow> nat list" where
  "range_positions r = [unat (fst r) ..< unat (snd r)]"

definition ranges_positions :: "(u64 \<times> u64) list \<Rightarrow> nat list" where
  "ranges_positions rs = concat (map range_positions rs)"

definition dst_positions :: "copy_range list \<Rightarrow> nat list" where
  "dst_positions rs = concat (map (\<lambda>r. [unat (cr_dst r) ..< unat (cr_dst r) + unat (cr_len r)]) rs)"

definition src_positions :: "copy_range list \<Rightarrow> nat list" where
  "src_positions rs = concat (map (\<lambda>r. [unat (cr_src r) ..< unat (cr_src r) + unat (cr_len r)]) rs)"

lemma positions_simps [simp]:
  "ranges_positions [] = []" "ranges_positions ((a, b) # rs) = [unat a ..< unat b] @ ranges_positions rs"
  "ranges_positions (rs @ rs') = ranges_positions rs @ ranges_positions rs'"
  "dst_positions [] = []" "src_positions [] = []"
  "dst_positions (r # ps) = [unat (cr_dst r) ..< unat (cr_dst r) + unat (cr_len r)] @ dst_positions ps"
  "src_positions (r # ps) = [unat (cr_src r) ..< unat (cr_src r) + unat (cr_len r)] @ src_positions ps"
  by (simp_all add: ranges_positions_def range_positions_def dst_positions_def src_positions_def)

definition ranges_proper :: "(u64 \<times> u64) list \<Rightarrow> bool" where
  "ranges_proper rs \<longleftrightarrow> (\<forall>(a, b) \<in> set rs. a < b)"

text \<open>Using up \<open>n\<close> bytes of a range of which \<open>di\<close> are used.\<close>

lemma use_range:
  fixes a b di n :: u64
  assumes "a < b" "di < b - a" "n \<le> b - a - di" "n \<noteq> 0"
  shows "drop (unat di) ([unat a ..< unat b] @ xs)
      = [unat (a + di) ..< unat (a + di) + unat n]
        @ (if di + n = b - a then xs else drop (unat (di + n)) ([unat a ..< unat b] @ xs))"
    and "di + n \<noteq> b - a \<Longrightarrow> di + n < b - a"
proof -
  have ba: "unat (b - a) = unat b - unat a" "unat a < unat b"
    using assms(1) by (simp_all add: unat_sub word_less_nat_alt word_le_nat_alt)
  have di: "unat di < unat b - unat a" using assms(2) ba by (simp add: word_less_nat_alt)
  have "unat (b - a - di) = unat b - unat a - unat di"
    using assms(2) ba di by (simp add: unat_sub word_less_nat_alt word_le_nat_alt)
  then have n: "unat n \<le> unat b - unat a - unat di" using assms(3) by (simp add: word_le_nat_alt)
  have ad: "unat (a + di) = unat a + unat di"
    using di unat_bounds(4) [of b] by (intro word_add_unat) simp
  have dn: "unat (di + n) = unat di + unat n"
    using n di unat_bounds(4) [of b] by (intro word_add_unat) simp
  have eq: "di + n = b - a \<longleftrightarrow> unat di + unat n = unat b - unat a"
    using ba dn by (metis word_unat_eq_iff)
  have "[unat a + unat di ..< unat b]
      = [unat a + unat di ..< unat a + unat di + unat n] @ [unat a + unat di + unat n ..< unat b]"
    using n di ba upt_add_eq_append [of "unat a + unat di" "unat a + unat di + unat n"
        "unat b - (unat a + unat di + unat n)"] by simp
  then show "drop (unat di) ([unat a ..< unat b] @ xs)
      = [unat (a + di) ..< unat (a + di) + unat n]
        @ (if di + n = b - a then xs else drop (unat (di + n)) ([unat a ..< unat b] @ xs))"
    using eq ad dn di n ba by (auto simp: drop_upt add.assoc)
  show "di + n < b - a" if "di + n \<noteq> b - a"
    using that eq dn ba n di by (simp add: word_less_nat_alt)
qed

lemma proper_hd:
  assumes "ranges_proper rs" "rs \<noteq> []" "hd rs = (a, b)"
  shows "0 < b - a"
proof -
  have "a < b" using assms hd_in_set [OF assms(2)] by (auto simp: ranges_proper_def)
  then show ?thesis by (simp add: word_less_nat_alt unat_sub word_le_nat_alt)
qed

lemma next_hd:
  assumes "ranges_proper rs" "di' \<noteq> b - a \<Longrightarrow> di' < b - a"
  shows "\<forall>x y. hd (if di' = b - a then rs else (a, b) # rs) = (x, y)
      \<longrightarrow> (if di' = b - a then rs else (a, b) # rs) \<noteq> []
      \<longrightarrow> (if di' = b - a then 0 else di') < y - x"
  using assms proper_hd [OF assms(1)] by (cases "di' = b - a") auto

lemma zip_step:
  assumes "(\<forall>out. z = Inr out \<longrightarrow> dst_positions out = ds \<and> src_positions out = ss)
      \<and> ((\<exists>out. z = Inr out) \<longleftrightarrow> length ds = length ss)"
    and "xs = [unat (cr_dst r) ..< unat (cr_dst r) + unat (cr_len r)]"
    and "ys = [unat (cr_src r) ..< unat (cr_src r) + unat (cr_len r)]"
  shows "(\<forall>out. tryE z (\<lambda>out. Inr (r # out)) = Inr out \<longrightarrow>
        dst_positions out = xs @ ds \<and> src_positions out = ys @ ss)
    \<and> ((\<exists>out. tryE z (\<lambda>out. Inr (r # out)) = Inr out) \<longleftrightarrow> length (xs @ ds) = length (ys @ ss))"
  using assms by (cases z) (auto simp: tryE_def)

lemma zip_from_spec:
  assumes "ranges_proper dst" "ranges_proper src"
    and "\<forall>a b. hd dst = (a, b) \<longrightarrow> dst \<noteq> [] \<longrightarrow> di < b - a"
    and "\<forall>c d. hd src = (c, d) \<longrightarrow> src \<noteq> [] \<longrightarrow> sj < d - c"
  shows "(\<forall>out. zip_from dst di src sj = Inr out \<longrightarrow>
      dst_positions out = drop (unat di) (ranges_positions dst)
      \<and> src_positions out = drop (unat sj) (ranges_positions src))
    \<and> ((\<exists>out. zip_from dst di src sj = Inr out) \<longleftrightarrow>
         length (drop (unat di) (ranges_positions dst)) = length (drop (unat sj) (ranges_positions src)))"
  using assms
proof (induction dst di src sj rule: zip_from.induct)
  case (4 a b dst di c d src sj)
  define n where "n = min (b - a - di) (d - c - sj)"
  have lt: "a < b" "c < d" "di < b - a" "sj < d - c"
    using 4(2-5) by (auto simp: ranges_proper_def)
  have n: "n \<le> b - a - di" "n \<le> d - c - sj" by (simp_all add: n_def)
  have n0: "n \<noteq> 0" using lt(3,4) by (auto simp: n_def min_def)
  note D = use_range(1) [OF lt(1,3) n(1) n0, of "ranges_positions dst"] use_range(2) [OF lt(1,3) n(1) n0]
  note S = use_range(1) [OF lt(2,4) n(2) n0, of "ranges_positions src"] use_range(2) [OF lt(2,4) n(2) n0]
  let ?dst = "if di + n = b - a then dst else (a, b) # dst" and ?di = "if di + n = b - a then 0 else di + n"
  let ?src = "if sj + n = d - c then src else (c, d) # src" and ?sj = "if sj + n = d - c then 0 else sj + n"
  have proper: "ranges_proper dst" "ranges_proper src" using 4(2,3) by (simp_all add: ranges_proper_def)
  have pr: "ranges_proper ?dst" "ranges_proper ?src" using 4(2,3) proper by simp_all
  have hd: "\<forall>x y. hd ?dst = (x, y) \<longrightarrow> ?dst \<noteq> [] \<longrightarrow> ?di < y - x"
    "\<forall>x y. hd ?src = (x, y) \<longrightarrow> ?src \<noteq> [] \<longrightarrow> ?sj < y - x"
    by (rule next_hd [OF proper(1) D(2)], assumption) (rule next_hd [OF proper(2) S(2)])
  have dp: "drop (unat di) (ranges_positions ((a, b) # dst))
      = [unat (a + di) ..< unat (a + di) + unat n] @ drop (unat ?di) (ranges_positions ?dst)"
    using D(1) by simp
  have sp: "drop (unat sj) (ranges_positions ((c, d) # src))
      = [unat (c + sj) ..< unat (c + sj) + unat n] @ drop (unat ?sj) (ranges_positions ?src)"
    using S(1) by simp
  have z: "zip_from ((a, b) # dst) di ((c, d) # src) sj
      = tryE (zip_from ?dst ?di ?src ?sj) (\<lambda>out.
         Inr (\<lparr> cr_dst = a + di, cr_src = c + sj, cr_len = n \<rparr> # out))"
    by (subst zip_from.simps(4)) (simp add: Let_def n_def)
  from 4(1) [OF n_def refl refl refl refl pr hd]
  have IH: "(\<forall>out. zip_from ?dst ?di ?src ?sj = Inr out \<longrightarrow>
      dst_positions out = drop (unat ?di) (ranges_positions ?dst)
      \<and> src_positions out = drop (unat ?sj) (ranges_positions ?src))
    \<and> ((\<exists>out. zip_from ?dst ?di ?src ?sj = Inr out) \<longleftrightarrow>
         length (drop (unat ?di) (ranges_positions ?dst)) = length (drop (unat ?sj) (ranges_positions ?src)))" .
  show ?case
    unfolding dp sp z by (rule zip_step [OF IH]) simp_all
next
  case (2 a b dst di sj)
  then have "unat di < unat b - unat a"
    by (auto simp: ranges_proper_def word_less_nat_alt unat_sub word_le_nat_alt)
  then show ?case by simp
next
  case (3 di c d src sj)
  then have "unat sj < unat d - unat c"
    by (auto simp: ranges_proper_def word_less_nat_alt unat_sub word_le_nat_alt)
  then show ?case by simp
qed simp

lemma zip_ranges_spec:
  assumes "ranges_proper dst" "ranges_proper src"
  shows "(\<forall>out. zip_ranges dst src = Inr out \<longrightarrow>
      dst_positions out = ranges_positions dst \<and> src_positions out = ranges_positions src)
    \<and> ((\<exists>out. zip_ranges dst src = Inr out) \<longleftrightarrow>
         length (ranges_positions dst) = length (ranges_positions src))"
  using zip_from_spec [OF assms, of 0 0] proper_hd [OF assms(1)] proper_hd [OF assms(2)]
  by (simp add: zip_ranges_def)

section \<open>Runs of stored blocks\<close>

text \<open>
  What the planner relies on of an opened image: the block that \<open>locate\<close> names holds the stream byte
  and the bytes after it up to its decoded length, and no block reaches past the end of a 64-bit file.
\<close>

definition image_sound :: "('s, 'i, 'r) image_lib \<Rightarrow> 'r \<Rightarrow> u64 \<Rightarrow> bool" where
  "image_sound im r base \<longleftrightarrow>
     (\<forall>at i w. blocks_locate im r at = Some (i, w) \<longrightarrow>
        (\<exists>e. blocks_get im r i = Some e \<and> unat w < unat (be_decoded_length e)
           \<and> (\<forall>k. unat w + k < unat (be_decoded_length e) \<longrightarrow>
                blocks_locate im r (at + of_nat k) = Some (i, w + of_nat k))))
     \<and> (\<forall>i e. blocks_get im r i = Some e \<longrightarrow>
          unat base + unat (be_image_offset e) + unat (be_stored_length e) < 2 ^ 64)"

lemma image_sound_locate:
  assumes "image_sound im r base" "blocks_locate im r at = Some (i, w)"
  obtains e where "blocks_get im r i = Some e" "unat w < unat (be_decoded_length e)"
    "\<And>k. unat w + k < unat (be_decoded_length e) \<Longrightarrow>
      blocks_locate im r (at + of_nat k) = Some (i, w + of_nat k)"
  using conjunct1 [OF assms(1) [unfolded image_sound_def]] assms(2) by blast

lemma image_sound_fits:
  "image_sound im r base \<Longrightarrow> blocks_get im r i = Some e \<Longrightarrow>
     unat base + unat (be_image_offset e) + unat (be_stored_length e) < 2 ^ 64"
  by (simp add: image_sound_def)

text \<open>Where a byte of the content stream lies in the package file.\<close>

definition stream_position :: "('s, 'i, 'r) image_lib \<Rightarrow> 'r \<Rightarrow> u64 \<Rightarrow> nat \<Rightarrow> nat" where
  "stream_position im r base n =
     (case blocks_locate im r (of_nat n) of None \<Rightarrow> 0
      | Some (i, w) \<Rightarrow>
          (case blocks_get im r i of None \<Rightarrow> 0
           | Some e \<Rightarrow> unat base + unat (be_image_offset e) + unat w))"

lemma word_of_nat_inverse: "n < 2 ^ 64 \<Longrightarrow> unat (of_nat n :: u64) = n"
  by (simp add: unat_of_nat)

text \<open>One turn of the loop: the run of bytes it takes from the located block.\<close>

lemma slice_turn:
  assumes sound: "image_sound im r base" and at: "at < stream_end"
    and loc: "blocks_locate im r at = Some (i, w)" and get: "blocks_get im r i = Some e"
  defines "n \<equiv> min (ucast (be_decoded_length e) - w) (stream_end - at)"
    and "start \<equiv> base + be_image_offset e + w"
  shows "unat (at + n) = unat at + unat n \<and> 0 < unat n \<and> at + n \<le> stream_end"
    and "\<not> ucast (be_stored_length e) < w + n \<Longrightarrow>
      start < start + n
      \<and> [unat start ..< unat (start + n)] = map (stream_position im r base) [unat at ..< unat at + unat n]"
proof -
  have w: "unat w < unat (be_decoded_length e)"
    and next_at: "\<And>k. unat w + k < unat (be_decoded_length e) \<Longrightarrow>
      blocks_locate im r (at + of_nat k) = Some (i, w + of_nat k)"
    using image_sound_locate [OF sound loc] get by (metis option.inject)+
  have fits: "unat base + unat (be_image_offset e) + unat (be_stored_length e) < 2 ^ 64"
    by (rule image_sound_fits [OF sound get])
  have d: "unat (ucast (be_decoded_length e) :: u64) = unat (be_decoded_length e)"
    "unat (ucast (be_stored_length e) :: u64) = unat (be_stored_length e)"
    by simp_all
  have un: "unat n = min (unat (be_decoded_length e) - unat w) (unat stream_end - unat at)"
    using w at d by (auto simp: n_def min_def unat_sub word_le_nat_alt word_less_nat_alt)
  then have pos: "0 < unat n" using w at by (simp add: word_less_nat_alt)
  have an: "unat (at + n) = unat at + unat n"
    using un at unat_bounds(4) [of stream_end] by (intro word_add_unat) (auto simp: word_less_nat_alt)
  then show "unat (at + n) = unat at + unat n \<and> 0 < unat n \<and> at + n \<le> stream_end"
    using un pos at by (auto simp: word_le_nat_alt word_less_nat_alt)
  assume "\<not> ucast (be_stored_length e) < w + n"
  moreover have wn: "unat (w + n) = unat w + unat n"
    using un w unat_bounds(3) [of "be_decoded_length e"] by (intro word_add_unat) simp
  ultimately have stored: "unat w + unat n \<le> unat (be_stored_length e)"
    using d by (simp add: word_less_nat_alt not_less)
  have s1: "unat (base + be_image_offset e) = unat base + unat (be_image_offset e)"
    using fits by (intro word_add_unat) simp
  have s: "unat start = unat base + unat (be_image_offset e) + unat w"
    unfolding start_def using fits stored s1 by (subst word_add_unat) simp_all
  have sn: "unat (start + n) = unat start + unat n"
    using fits stored s by (intro word_add_unat) simp
  have "stream_position im r base (unat at + k) = unat start + k" if "k < unat n" for k
  proof -
    have "k < unat (be_decoded_length e) - unat w" using that un by simp
    then have lt: "unat w + k < unat (be_decoded_length e)" by linarith
    have k: "unat (of_nat k :: u64) = k" using that unat_bounds(4) [of n] by (intro word_of_nat_inverse) simp
    have "unat (w + of_nat k) = unat w + k"
      using k lt unat_bounds(3) [of "be_decoded_length e"] by (subst word_add_unat) simp_all
    moreover have "blocks_locate im r (of_nat (unat at + k)) = Some (i, w + of_nat k)"
      using next_at [OF lt] by simp
    ultimately show ?thesis using get s by (simp add: stream_position_def)
  qed
  then have "[unat start ..< unat start + unat n] = map (stream_position im r base) [unat at ..< unat at + unat n]"
    by (intro nth_equalityI) simp_all
  then show "start < start + n
      \<and> [unat start ..< unat (start + n)] = map (stream_position im r base) [unat at ..< unat at + unat n]"
    using sn pos by (simp add: word_less_nat_alt)
qed

lemma slice_run_spec:
  assumes "image_sound im r base" "at \<le> stream_end" "ranges_proper out"
  shows "\<exists>res. slice_run im r base stream_end at out = Some res
    \<and> (\<forall>out'. res = Inr out' \<longrightarrow> ranges_proper out' \<and> ranges_positions out' = ranges_positions out
          @ map (stream_position im r base) [unat at ..< unat stream_end])"
  using assms(2,3)
proof (induction "unat stream_end - unat at" arbitrary: at out rule: less_induct)
  case less
  show ?case
  proof (cases "at < stream_end")
    case False
    then show ?thesis using less.prems by (subst slice_run.simps) simp
  next
    case True
    show ?thesis
    proof (cases "blocks_locate im r at")
      case None
      then show ?thesis using True by (subst slice_run.simps) simp
    next
      case (Some iw)
      obtain i w where iw: "iw = (i, w)" by fastforce
      then obtain e where e: "blocks_get im r i = Some e"
        using image_sound_locate [OF assms(1)] Some by metis
      let ?n = "min (ucast (be_decoded_length e) - w) (stream_end - at)"
      let ?start = "base + be_image_offset e + w"
      note turn = slice_turn [OF assms(1) True Some [unfolded iw] e]
      show ?thesis
      proof (cases "be_raw e \<and> \<not> ucast (be_stored_length e) < w + ?n")
        case False
        then show ?thesis using True Some iw e by (subst slice_run.simps) (auto simp: Let_def)
      next
        case ok: True
        have step: "slice_run im r base stream_end at out
            = slice_run im r base stream_end (at + ?n) (out @ [(?start, ?start + ?n)])"
          using True Some iw e ok by (subst slice_run.simps) (auto simp: Let_def)
        have t: "unat (at + ?n) = unat at + unat ?n" "0 < unat ?n" "at + ?n \<le> stream_end"
          using turn(1) by blast+
        have p: "?start < ?start + ?n" "[unat ?start ..< unat (?start + ?n)]
            = map (stream_position im r base) [unat at ..< unat at + unat ?n]"
          using turn(2) ok by blast+
        have le: "unat at + unat ?n \<le> unat stream_end" using t by (simp add: word_le_nat_alt)
        have "ranges_proper (out @ [(?start, ?start + ?n)])"
          using less.prems(2) p(1) by (simp add: ranges_proper_def)
        moreover have "unat stream_end - unat (at + ?n) < unat stream_end - unat at"
          using t le by simp
        ultimately obtain res where res: "slice_run im r base stream_end at out = Some res"
          "\<forall>out'. res = Inr out' \<longrightarrow> ranges_proper out'
            \<and> ranges_positions out' = ranges_positions (out @ [(?start, ?start + ?n)])
              @ map (stream_position im r base) [unat (at + ?n) ..< unat stream_end]"
          using less.hyps [of "at + ?n"] t(3) step by metis
        have "[unat at ..< unat stream_end]
            = [unat at ..< unat at + unat ?n] @ [unat at + unat ?n ..< unat stream_end]"
          using le upt_add_eq_append [of "unat at" "unat at + unat ?n" "unat stream_end - (unat at + unat ?n)"]
          by simp
        then show ?thesis using res p(2) t(1) by simp
      qed
    qed
  qed
qed

text \<open>
  The byte-wise reference: a byte of a file lies in the first extent that ends after it.
\<close>

fun content_position :: "('s, 'i, 'r) image_lib \<Rightarrow> 'r \<Rightarrow> u64 \<Rightarrow> (u64 \<times> u64 \<times> u64) list \<Rightarrow> nat \<Rightarrow> nat" where
  "content_position im r base [] k = 0"
| "content_position im r base ((stream_off, ext_off, ext_len) # rest) k =
     (if k < unat ext_off + unat ext_len
      then stream_position im r base (unat stream_off + (k - unat ext_off))
      else content_position im r base rest k)"

lemma map_upt_shift: "b - a = d - c \<Longrightarrow> (\<And>i. i < b - a \<Longrightarrow> f (a + i) = g (c + i)) \<Longrightarrow>
    map f [a ..< b] = map g [c ..< d]"
  by (rule nth_equalityI) simp_all

lemma map_upt_split: "a \<le> b \<Longrightarrow> b \<le> c \<Longrightarrow> map f [a ..< c] = map f [a ..< b] @ map f [b ..< c]"
  using upt_add_eq_append [of a b "c - b"] by simp

lemma slice_extents_spec:
  assumes "image_sound im r base" "covered \<le> end'" "ranges_proper out"
  shows "\<exists>res. slice_extents im r base end' exts covered out = Some res
    \<and> (\<forall>c out'. res = Inr (c, out') \<longrightarrow> covered \<le> c \<and> c \<le> end' \<and> ranges_proper out'
        \<and> ranges_positions out' = ranges_positions out
          @ map (content_position im r base exts) [unat covered ..< unat c])"
  using assms(2,3)
proof (induction exts arbitrary: covered out)
  case Nil
  then show ?case by simp
next
  case (Cons x rest)
  obtain so eo el where x: "x = (so, eo, el)" by (cases x) auto
  show ?case
  proof (cases "checked_add_u64 eo el")
    case None
    then show ?thesis by (simp add: x)
  next
    case (Some ee)
    then have ee: "unat ee = unat eo + unat el" by (simp add: checked_add_u64_Some_iff)
    consider (skip) "ee \<le> covered" | (hole) "\<not> ee \<le> covered" "eo > covered"
      | (take) "covered < ee" "eo \<le> covered" by force
    then show ?thesis
    proof cases
      case skip
      then have eq: "map (content_position im r base (x # rest)) [unat covered ..< unat c]
          = map (content_position im r base rest) [unat covered ..< unat c]" for c :: u64
        using ee by (auto simp: x word_le_nat_alt)
      have s: "slice_extents im r base end' (x # rest) covered out
          = slice_extents im r base end' rest covered out"
        using skip Some by (simp add: x)
      show ?thesis unfolding s eq by (rule Cons.IH [OF Cons.prems])
    next
      case hole
      then show ?thesis using Some by (simp add: x)
    next
      case take
      then have nt: "\<not> ee \<le> covered" "\<not> covered < eo" by simp_all
      let ?stop = "min end' ee"
      have ord: "unat eo \<le> unat covered" "unat covered < unat ee" "unat covered \<le> unat end'"
        using take Cons.prems(1) by (simp_all add: word_le_nat_alt word_less_nat_alt)
      have st: "unat ?stop = min (unat end') (unat ee)" by (simp add: min_def word_le_nat_alt)
      have cov: "covered \<le> ?stop" using take Cons.prems(1) by simp
      have d: "unat (covered - eo) = unat covered - unat eo" "unat (?stop - eo) = unat ?stop - unat eo"
        using ord st by (simp_all add: unat_sub word_le_nat_alt)
      show ?thesis
      proof (cases "checked_add_u64 so (covered - eo)")
        case None
        then show ?thesis using Some nt by (simp add: x)
      next
        case at: (Some at)
        show ?thesis
        proof (cases "checked_add_u64 so (?stop - eo)")
          case None
          then show ?thesis using Some nt at by (simp add: x Let_def)
        next
          case se: (Some stream_end)
          have ua: "unat at = unat so + (unat covered - unat eo)"
            and us: "unat stream_end = unat so + (unat ?stop - unat eo)"
            using at se d by (simp_all add: checked_add_u64_Some_iff)
          have le: "at \<le> stream_end" using ua us ord st by (simp add: word_le_nat_alt)
          have e: "slice_extents im r base end' (x # rest) covered out
              = tryO (slice_run im r base stream_end at out) (\<lambda>out'.
                  if ?stop \<ge> end' then Some (Inr (?stop, out'))
                  else slice_extents im r base end' rest ?stop out')"
            using Some nt at se by (simp add: x Let_def)
          obtain res where res: "slice_run im r base stream_end at out = Some res"
            "\<forall>out'. res = Inr out' \<longrightarrow> ranges_proper out' \<and> ranges_positions out' = ranges_positions out
              @ map (stream_position im r base) [unat at ..< unat stream_end]"
            using slice_run_spec [OF assms(1) le Cons.prems(2)] by blast
          show ?thesis
          proof (cases res)
            case (Inl err)
            then show ?thesis using e res(1) by (simp add: tryO_def)
          next
            case (Inr out1)
            then have o1: "ranges_proper out1"
              "ranges_positions out1 = ranges_positions out
                @ map (stream_position im r base) [unat at ..< unat stream_end]"
              using res(2) by simp_all
            have part: "map (stream_position im r base) [unat at ..< unat stream_end]
                = map (content_position im r base (x # rest)) [unat covered ..< unat ?stop]"
              using ua us ord st ee
              by (intro map_upt_shift) (auto simp: x add.commute add.left_commute)
            show ?thesis
            proof (cases "?stop \<ge> end'")
              case True
              then show ?thesis using e res(1) Inr o1 part cov by (simp add: tryO_def)
            next
              case False
              then have stop: "?stop = ee" "ee \<le> end'" by (auto simp: min_def split: if_splits)
              have e2: "slice_extents im r base end' (x # rest) covered out
                  = slice_extents im r base end' rest ee out1"
                using e res(1) Inr False stop by (simp add: tryO_def)
              obtain res2 where r2: "slice_extents im r base end' rest ee out1 = Some res2"
                "\<forall>c out'. res2 = Inr (c, out') \<longrightarrow> ee \<le> c \<and> c \<le> end' \<and> ranges_proper out'
                  \<and> ranges_positions out' = ranges_positions out1
                    @ map (content_position im r base rest) [unat ee ..< unat c]"
                using Cons.IH [OF stop(2) o1(1)] by blast
              let ?pos = "content_position im r base (x # rest)"
              have "covered \<le> c \<and> c \<le> end' \<and> ranges_proper out'
                  \<and> ranges_positions out' = ranges_positions out @ map ?pos [unat covered ..< unat c]"
                if "res2 = Inr (c, out')" for c out'
              proof -
                have q: "ee \<le> c" "c \<le> end'" "ranges_proper out'" "ranges_positions out'
                    = ranges_positions out1 @ map (content_position im r base rest) [unat ee ..< unat c]"
                  using r2(2) that by simp_all
                have "map (content_position im r base rest) [unat ee ..< unat c]
                    = map ?pos [unat ee ..< unat c]"
                  using ee by (simp add: x)
                moreover have "map ?pos [unat covered ..< unat c]
                    = map ?pos [unat covered ..< unat ee] @ map ?pos [unat ee ..< unat c]"
                  using ord(2) q(1) by (intro map_upt_split) (simp_all add: word_le_nat_alt)
                ultimately show ?thesis
                  using q o1(2) part take(1) unfolding stop(1) by simp
              qed
              then show ?thesis using e2 r2(1) by simp
            qed
          qed
        qed
      qed
    qed
  qed
qed

lemma slice_stored_ranges_spec:
  assumes "image_sound im r base"
  shows "\<exists>res. slice_stored_ranges im r base ino off len = Some res
    \<and> (\<forall>out. res = Inr out \<longrightarrow> ranges_proper out \<and> ranges_positions out
        = map (content_position im r base (file_extents im r ino)) [unat off ..< unat off + unat len])"
proof (cases "checked_add_u64 off len")
  case None
  then show ?thesis by (simp add: slice_stored_ranges_def)
next
  case (Some e)
  then have e: "unat e = unat off + unat len" "off \<le> e"
    by (simp_all add: checked_add_u64_Some_iff word_le_nat_alt)
  have "ranges_proper []" by (simp add: ranges_proper_def)
  from slice_extents_spec [OF assms e(2) this, of "file_extents im r ino"] obtain res where
    r: "slice_extents im r base e (file_extents im r ino) off [] = Some res"
    "\<And>c out. res = Inr (c, out) \<Longrightarrow> c \<le> e \<and> ranges_proper out \<and> ranges_positions out
        = map (content_position im r base (file_extents im r ino)) [unat off ..< unat c]"
    by auto
  show ?thesis
  proof (cases res)
    case (Inl x)
    then show ?thesis using Some r(1) by (simp add: slice_stored_ranges_def tryO_def)
  next
    case (Inr x)
    obtain c out where x: "x = (c, out)" by fastforce
    show ?thesis
    proof (cases "c < e")
      case True
      then show ?thesis using Some r(1) Inr x by (simp add: slice_stored_ranges_def tryO_def)
    next
      case False
      then have "c = e" using r(2) Inr x by fastforce
      then show ?thesis using Some r Inr x e(1) by (simp add: slice_stored_ranges_def tryO_def)
    qed
  qed
qed

section \<open>What an image plan covers\<close>

lemma unat_max: "unat (max a b) = max (unat a) (unat b)" for a b :: u64
  by (simp add: max_def word_le_nat_alt)

lemma cut_interval: "a < e \<Longrightarrow> {a ..< b} \<subseteq> {a ..< max s a} \<union> {s ..< e} \<union> {max a e ..< b}"
  for a b s e :: nat
  by auto

lemma cover_step:
  "gap \<subseteq> spans \<Longrightarrow> xs \<subseteq> gap \<union> mid \<union> rest \<Longrightarrow> rest \<subseteq> taken \<union> others \<Longrightarrow>
     xs \<subseteq> (mid \<union> taken) \<union> (spans \<union> others)" for xs :: "nat set"
  by blast

lemma gap_bytes: "a \<le> b \<Longrightarrow> span_bytes \<lparr> sp_start = a, sp_len = b - a \<rparr> = {unat a ..< unat b}"
  by (simp add: span_bytes_def unat_sub word_le_nat_alt)

lemma complement_from_covers:
  "{unat at ..< unat end'} \<subseteq> taken_bytes taken \<union> spans_bytes (complement_from at end' taken)"
proof (induction taken arbitrary: at)
  case Nil
  show ?case
    using gap_bytes [of at end'] by (simp add: word_less_nat_alt word_le_nat_alt)
next
  case (Cons r taken)
  obtain s e where r: "r = (s, e)" by fastforce
  show ?case
  proof (cases "e \<le> at \<or> e \<le> s")
    case True
    then show ?thesis using Cons by (auto simp: r)
  next
    case False
    let ?gap = "if max s at > at then [\<lparr> sp_start = at, sp_len = max s at - at \<rparr>] else []"
    have c: "complement_from at end' (r # taken) = ?gap @ complement_from (max at e) end' taken"
      using False by (simp add: r Let_def)
    have "{unat at ..< unat m} \<subseteq> spans_bytes (if m > at then [\<lparr> sp_start = at, sp_len = m - at \<rparr>] else [])"
      if "at \<le> m" for m
      using gap_bytes [OF that] by (simp add: word_less_nat_alt)
    from this [OF max.cobounded2]
    have "{unat at ..< unat (max s at)} \<subseteq> spans_bytes ?gap" .
    moreover have "{unat at ..< unat end'} \<subseteq> {unat at ..< unat (max s at)} \<union> {unat s ..< unat e}
        \<union> {unat (max at e) ..< unat end'}"
      using False cut_interval unfolding unat_max by (simp add: word_le_nat_alt)
    ultimately show ?thesis
      unfolding c unfolding r spans_bytes_simps(3) taken_bytes_simps(2) by (rule cover_step [OF _ _ Cons])
  qed
qed

lemma image_complement_covers:
  assumes "unat (f_payload_offset f) + unat (f_payload_size f) < 2 ^ 64"
  shows "{unat (f_payload_offset f) ..< unat (f_payload_offset f) + unat (f_payload_size f)}
    \<subseteq> taken_bytes taken \<union> spans_bytes (image_complement f taken)"
proof -
  have "unat (f_payload_offset f + f_payload_size f) = unat (f_payload_offset f) + unat (f_payload_size f)"
    using assms by (rule word_add_unat)
  moreover have "taken_bytes (sort_key fst taken) = taken_bytes taken" by (simp add: taken_bytes_def)
  ultimately show ?thesis
    using complement_from_covers [of "f_payload_offset f" "f_payload_offset f + f_payload_size f"
        "sort_key fst taken"]
    by (simp add: image_complement_def complement_def)
qed

lemma taken_bytes_append [simp]: "taken_bytes (xs @ ys) = taken_bytes xs \<union> taken_bytes ys"
  by (auto simp: taken_bytes_def)

lemma taken_range_bytes:
  "taken_bytes (map (\<lambda>r. (cr_dst r, cr_dst r + cr_len r)) rs) \<subseteq> (\<Union>r \<in> set rs. copy_bytes r)"
proof -
  have "unat (a + b) \<le> unat a + unat b" for a b :: u64
    using unat_add_lem [of a b] unat_bounds(4) [of "a + b"] by (cases "unat a + unat b < 2 ^ 64") auto
  then have "{unat (cr_dst r) ..< unat (cr_dst r + cr_len r)} \<subseteq> copy_bytes r" for r
    by (simp add: copy_bytes_def)
  then show ?thesis by (induction rs) auto
qed

section \<open>Loops that may not end\<close>

lemma tryO_simps [simp]: "tryO (Some (Inr x)) f = f x" "tryO (Some (Inl e)) f = Some (Inl e)" "tryO None f = None"
  by (simp_all add: tryO_def)

lemma tryO_Inr:
  assumes "tryO m f = Some (Inr y)"
  obtains x where "m = Some (Inr x)" "f x = Some (Inr y)"
  using assms by (auto simp: tryO_def split: option.splits sum.splits)

lemma tryO_None: "tryO m f = None \<longleftrightarrow> m = None \<or> (\<exists>x. m = Some (Inr x) \<and> f x = None)"
  by (auto simp: tryO_def split: option.splits sum.splits)

lemma foldO_invariant:
  assumes "foldO f xs s = Some (Inr t)" "P s"
    and "\<And>x s t. x \<in> set xs \<Longrightarrow> f x s = Some (Inr t) \<Longrightarrow> P s \<Longrightarrow> P t"
  shows "P t"
  using assms
proof (induction xs arbitrary: s)
  case (Cons x xs)
  from Cons.prems(1) obtain u where u: "f x s = Some (Inr u)" "foldO f xs u = Some (Inr t)"
    by (auto elim: tryO_Inr)
  have "P u" using Cons.prems(3) [OF _ u(1)] Cons.prems(2) by simp
  then show ?case using Cons.IH [OF u(2)] Cons.prems(3) by (meson list.set_intros(2))
qed simp

lemma foldO_returns: "(\<And>x s. f x s \<noteq> None) \<Longrightarrow> foldO f xs s \<noteq> None"
  by (induction xs arbitrary: s) (auto simp: tryO_None)

section \<open>A plan of slices\<close>

text \<open>The positions of a manifest slice in its package file.\<close>

definition slice_positions :: "('s, 'i, 'r) image_lib \<Rightarrow> 'r located_image \<Rightarrow> block \<Rightarrow> nat list" where
  "slice_positions im img b =
     map (content_position im (fst img) (snd img) (file_extents im (fst img) (ucast (b_compressed_size b))))
       [unat (b_payload_offset b) ..< unat (b_payload_offset b) + unat (b_original_size b)]"

text \<open>A copy group pairs a slice of the release with one of the same hash and size at hand.\<close>

definition slice_group :: "('s, 'i, 'r) image_lib \<Rightarrow> 'r located_image \<Rightarrow> 'r located_image
    \<Rightarrow> block list \<Rightarrow> block list \<Rightarrow> copy_group \<Rightarrow> bool" where
  "slice_group im loc rel ls bs g \<longleftrightarrow>
     (\<exists>b \<in> set bs. \<exists>l \<in> set ls. b_content_hash b = b_content_hash l \<and> b_original_size b = b_original_size l
        \<and> cg_check g = Raw (b_content_hash b)
        \<and> dst_positions (cg_ranges g) = slice_positions im rel b
        \<and> src_positions (cg_ranges g) = slice_positions im loc l)"

definition slice_index_ok :: "block list \<Rightarrow> slice_index \<Rightarrow> bool" where
  "slice_index_ok ls m \<longleftrightarrow> (\<forall>h ino off len. m h = Some (ino, off, len) \<longrightarrow>
     (\<exists>l \<in> set ls. b_content_hash l = h \<and> ino = ucast (b_compressed_size l)
        \<and> off = b_payload_offset l \<and> len = b_original_size l))"

lemma index_slice_ok:
  "index_slice b m = Inr m' \<Longrightarrow> slice_index_ok ls m \<Longrightarrow> b \<in> set ls \<Longrightarrow> slice_index_ok ls m'"
  by (auto simp: index_slice_def slice_index_ok_def tryE_Inr_iff split: option.splits if_splits)

lemma local_slices_ok: "local_slices m = Inr slices \<Longrightarrow> slice_index_ok (file_blocks m) slices"
  unfolding local_slices_def
  by (rule foldE_invariant [where P = "slice_index_ok (file_blocks m)"], assumption)
    (simp add: slice_index_ok_def, rule index_slice_ok)

definition slices_inv :: "('s, 'i, 'r) image_lib \<Rightarrow> 'r located_image \<Rightarrow> 'r located_image
    \<Rightarrow> block list \<Rightarrow> block list \<Rightarrow> copy_group list \<times> (u64 \<times> u64) list \<times> (u32 \<times> u64) set \<Rightarrow> bool" where
  "slices_inv im loc rel ls bs st \<longleftrightarrow>
     (case st of (copies, taken, seen) \<Rightarrow>
        (\<forall>g \<in> set copies. slice_group im loc rel ls bs g) \<and> taken_bytes taken \<subseteq> copies_bytes copies)"

lemma plan_slice_inv:
  assumes step: "plan_slice im loc rel slices b st = Some (Inr st')"
    and inv: "slices_inv im loc rel ls bs st" and b: "b \<in> set bs"
    and slices: "slice_index_ok ls slices"
    and sound: "image_sound im (fst loc) (snd loc)" "image_sound im (fst rel) (snd rel)"
  shows "slices_inv im loc rel ls bs st'"
proof -
  obtain copies taken seen where st: "st = (copies, taken, seen)" by (cases st) auto
  from step obtain n where n: "block_original_size usize_max b = Inr n"
    by (auto simp: plan_slice_def st elim: tryO_Inr)
  then have len: "(of_nat n :: u64) = b_original_size b" by (simp add: unat_of_nat)
  show ?thesis
  proof (cases "st' = st")
    case False
    with step n obtain ino_l off_l where
      sl: "slices (b_content_hash b) = Some (ino_l, off_l, of_nat n)"
      and rest: "tryO (Some (ok_or ''the release names an inode outside the image''
                            (u32_try_from (b_compressed_size b)))) (\<lambda>ino_r.
              if (ino_r, b_payload_offset b) \<in> seen then Some (Inr (copies, taken, seen))
              else
                tryO (slice_stored_ranges im (fst rel) (snd rel) ino_r (b_payload_offset b) (of_nat n)) (\<lambda>dst.
                tryO (slice_stored_ranges im (fst loc) (snd loc) ino_l off_l (of_nat n)) (\<lambda>srcs.
                tryO (Some (zip_ranges dst srcs)) (\<lambda>ranges.
                Some (Inr (copies @ [\<lparr> cg_ranges = ranges, cg_check = Raw (b_content_hash b) \<rparr>],
                  taken @ map (\<lambda>r. (cr_dst r, cr_dst r + cr_len r)) ranges,
                  insert (ino_r, b_payload_offset b) seen)))))) = Some (Inr st')"
      by (auto simp: plan_slice_def st Let_def simp del: block_original_size_Inr split: option.splits if_splits)
    note sl = sl [unfolded len] and rest = rest [unfolded len]
    from rest False [unfolded st] obtain dst srcs ranges where
      r: "slice_stored_ranges im (fst rel) (snd rel) (ucast (b_compressed_size b)) (b_payload_offset b)
          (b_original_size b) = Some (Inr dst)"
      "slice_stored_ranges im (fst loc) (snd loc) ino_l off_l (b_original_size b) = Some (Inr srcs)"
      "zip_ranges dst srcs = Inr ranges"
      "st' = (copies @ [\<lparr> cg_ranges = ranges, cg_check = Raw (b_content_hash b) \<rparr>],
         taken @ map (\<lambda>r. (cr_dst r, cr_dst r + cr_len r)) ranges,
         insert (ucast (b_compressed_size b), b_payload_offset b) seen)"
      by (elim tryO_Inr; simp split: if_splits) (elim tryO_Inr; rule that; (simp; fail | (rule sym, simp)))
    obtain l where l: "l \<in> set ls" "b_content_hash l = b_content_hash b"
      "ino_l = ucast (b_compressed_size l)" "off_l = b_payload_offset l"
      "b_original_size b = b_original_size l"
      using slices [unfolded slice_index_ok_def, rule_format, OF sl] by auto
    have d: "ranges_proper dst" "ranges_positions dst = slice_positions im rel b"
      using slice_stored_ranges_spec [OF sound(2)] r(1) unfolding slice_positions_def
      by (metis option.inject)+
    have s: "ranges_proper srcs" "ranges_positions srcs = slice_positions im loc l"
      using slice_stored_ranges_spec [OF sound(1)] r(2) l(3-5) unfolding slice_positions_def
      by (metis option.inject)+
    have "slice_group im loc rel ls bs \<lparr> cg_ranges = ranges, cg_check = Raw (b_content_hash b) \<rparr>"
      unfolding slice_group_def
      using zip_ranges_spec [OF d(1) s(1)] r(3) d(2) s(2) b l
      by (intro bexI [of _ b] bexI [of _ l]) simp_all
    moreover have "taken_bytes (map (\<lambda>r. (cr_dst r, cr_dst r + cr_len r)) ranges)
        \<subseteq> copies_bytes [\<lparr> cg_ranges = ranges, cg_check = Raw (b_content_hash b) \<rparr>]"
      using taken_range_bytes by simp
    ultimately show ?thesis using inv by (auto simp: slices_inv_def st r(4))
  qed (simp add: inv)
qed

lemma plan_slice_returns:
  assumes "image_sound im (fst loc) (snd loc)" "image_sound im (fst rel) (snd rel)"
  shows "plan_slice im loc rel slices b st \<noteq> None"
proof -
  have "slice_stored_ranges im r base ino off len \<noteq> None" if "image_sound im r base" for r base ino off len
    using slice_stored_ranges_spec [OF that, of ino off len] by auto
  then show ?thesis using assms
    by (intro notI)
      (auto simp: plan_slice_def tryO_None Let_def simp del: tryO_simps not_None_eq
        split: prod.splits option.splits if_splits)
qed

lemma plan_digest_step:
  assumes "plan_digest im r f i (taken, digests) = Inr st'"
    and "unat (f_payload_offset f) + unat (f_payload_size f) + 8 < 2 ^ 64"
  obtains start len where "st' = (taken @ [(start + len, start + len + 8)], digests @ [(start, len)])"
    "unat start + unat len + 8 \<le> unat (f_payload_offset f + f_payload_size f)"
    "unat (f_payload_offset f) \<le> unat start"
    "taken_bytes [(start + len, start + len + 8)] = digest_covers (start, len)"
proof -
  from assms obtain e where g: "blocks_get im r i = Some e"
    by (auto simp: plan_digest_def split: option.splits)
  let ?len = "ucast (be_stored_length e) :: u64"
  from assms g obtain start end' where
    e: "checked_add_u64 (f_payload_offset f) (be_image_offset e) = Some start"
    "checked_add_u64 start ?len = Some end'"
    "saturating_add_u64 end' 8 \<le> f_payload_offset f + f_payload_size f"
    "st' = (taken @ [(end', end' + 8)], digests @ [(start, ?len)])"
    by (auto simp: plan_digest_def Let_def not_less split: option.splits if_splits)
  let ?fin = "f_payload_offset f + f_payload_size f"
  have u3: "end' = start + ?len" using e(2) by (simp add: checked_add_u64_def split: if_splits)
  have "unat end' = unat start + unat ?len" "unat (f_payload_offset f) \<le> unat start"
    using e(1,2) by (simp_all add: checked_add_u64_Some_iff)
  note u = this [unfolded u3] u3
  have "unat ?fin = unat (f_payload_offset f) + unat (f_payload_size f)"
    using assms(2) by (intro word_add_unat) simp
  then have fit: "unat (start + ?len) + 8 \<le> unat ?fin"
    using e(3) assms(2) u(3) by (simp add: word_le_nat_alt unat_saturating_add_u64)
  have "unat (start + ?len + 8) = unat (start + ?len) + 8"
    using fit unat_bounds(4) [of ?fin] by (subst word_add_unat) simp_all
  then have "taken_bytes [(start + ?len, start + ?len + 8)] = digest_covers (start, ?len)"
    using u(1) by (simp add: digest_covers_def)
  then show thesis using that [of start ?len] e(4) u fit by simp
qed

text \<open>The bytes the digests of a plan are written to, and those the planner holds.\<close>

definition digests_bytes :: "(u64 \<times> u64) list \<Rightarrow> nat set" where
  "digests_bytes ds = (\<Union>d \<in> set ds. digest_covers d)"

lemma plan_digests_inv:
  assumes "foldE (plan_digest im r f) is (taken, digests) = Inr (taken', digests')"
    and "unat (f_payload_offset f) + unat (f_payload_size f) + 8 < 2 ^ 64"
  shows "taken_bytes taken' \<subseteq> taken_bytes taken \<union> digests_bytes digests'"
proof -
  define P where "P = (\<lambda>st. taken_bytes (fst st) \<subseteq> taken_bytes taken \<union> digests_bytes (snd st))"
  have "P (taken', digests')"
  proof (rule foldE_invariant [OF assms(1)])
    show "P (taken, digests)" by (simp add: P_def)
    fix i st st' assume s: "plan_digest im r f i st = Inr st'" and inv: "P st"
    obtain tk ds where st: "st = (tk, ds)" by fastforce
    from plan_digest_step [OF s [unfolded st] assms(2)] obtain start len where
      "st' = (tk @ [(start + len, start + len + 8)], ds @ [(start, len)])"
      "taken_bytes [(start + len, start + len + 8)] = digest_covers (start, len)" by metis
    then show "P st'" using inv by (auto simp: P_def st digests_bytes_def)
  qed
  then show ?thesis by (simp add: P_def)
qed

lemma plan_stipple_slices_Inr:
  assumes "plan_stipple_slices im pkg lr remote rr known = Some (Inr p)"
  obtains slices taken seen taken' where
    "local_slices (pd_manifest pkg) = Inr slices"
    "foldO (plan_slice im (lr, f_payload_offset (pd_footer pkg))
        (rr, f_payload_offset (rp_footer remote)) slices)
       (file_blocks (rp_manifest remote)) ([], [], {}) = Some (Inr (pl_copies p, taken, seen))"
    "foldE (plan_digest im rr (rp_footer remote)) [0..<blocks_count im rr] (taken, [])
       = Inr (taken', pl_digests p)"
    "pl_fetch p = image_complement (rp_footer remote) (taken' @ list_opt known)"
  using assms unfolding plan_stipple_slices_def
  by (elim tryO_Inr; simp split: prod.splits) (elim tryO_Inr; simp split: prod.splits; force)

lemma plan_stipple_slices_spec:
  assumes "image_sound im lr (f_payload_offset (pd_footer pkg))"
    and "image_sound im rr (f_payload_offset (rp_footer remote))"
    and "unat (f_payload_offset (rp_footer remote)) + unat (f_payload_size (rp_footer remote)) + 8 < 2 ^ 64"
  shows "plan_stipple_slices im pkg lr remote rr known \<noteq> None
    \<and> (\<forall>p. plan_stipple_slices im pkg lr remote rr known = Some (Inr p) \<longrightarrow>
         {unat (f_payload_offset (rp_footer remote)) ..<
            unat (f_payload_offset (rp_footer remote)) + unat (f_payload_size (rp_footer remote))}
           \<subseteq> copies_bytes (pl_copies p) \<union> spans_bytes (pl_fetch p) \<union> digests_bytes (pl_digests p)
             \<union> taken_bytes (list_opt known)
         \<and> (\<forall>g \<in> set (pl_copies p). slice_group im (lr, f_payload_offset (pd_footer pkg))
              (rr, f_payload_offset (rp_footer remote)) (file_blocks (pd_manifest pkg))
              (file_blocks (rp_manifest remote)) g))"
proof (rule conjI; (intro allI impI)?)
  let ?loc = "(lr, f_payload_offset (pd_footer pkg))" and ?rel = "(rr, f_payload_offset (rp_footer remote))"
  have sound: "image_sound im (fst ?loc) (snd ?loc)" "image_sound im (fst ?rel) (snd ?rel)"
    using assms(1,2) by simp_all
  have "foldO (plan_slice im ?loc ?rel slices) xs s \<noteq> None" for slices xs s
    by (rule foldO_returns) (rule plan_slice_returns [OF sound])
  then show "plan_stipple_slices im pkg lr remote rr known \<noteq> None"
    by (intro notI) (auto simp: plan_stipple_slices_def tryO_None simp del: tryO_simps not_None_eq)
  fix p assume "plan_stipple_slices im pkg lr remote rr known = Some (Inr p)"
  then obtain slices taken seen taken' where
    s: "local_slices (pd_manifest pkg) = Inr slices"
      "foldO (plan_slice im ?loc ?rel slices) (file_blocks (rp_manifest remote)) ([], [], {})
         = Some (Inr (pl_copies p, taken, seen))"
      "foldE (plan_digest im rr (rp_footer remote)) [0..<blocks_count im rr] (taken, [])
         = Inr (taken', pl_digests p)"
      "pl_fetch p = image_complement (rp_footer remote) (taken' @ list_opt known)"
    by (rule plan_stipple_slices_Inr)
  have "slices_inv im ?loc ?rel (file_blocks (pd_manifest pkg)) (file_blocks (rp_manifest remote))
      (pl_copies p, taken, seen)"
    by (rule foldO_invariant [OF s(2)])
      (simp add: slices_inv_def, rule plan_slice_inv [OF _ _ _ local_slices_ok [OF s(1)] sound])
  then have i: "\<forall>g \<in> set (pl_copies p). slice_group im ?loc ?rel (file_blocks (pd_manifest pkg))
      (file_blocks (rp_manifest remote)) g" "taken_bytes taken \<subseteq> copies_bytes (pl_copies p)"
    by (simp_all add: slices_inv_def)
  show "{unat (f_payload_offset (rp_footer remote)) ..<
            unat (f_payload_offset (rp_footer remote)) + unat (f_payload_size (rp_footer remote))}
           \<subseteq> copies_bytes (pl_copies p) \<union> spans_bytes (pl_fetch p) \<union> digests_bytes (pl_digests p)
             \<union> taken_bytes (list_opt known)
         \<and> (\<forall>g \<in> set (pl_copies p). slice_group im ?loc ?rel (file_blocks (pd_manifest pkg))
              (file_blocks (rp_manifest remote)) g)"
    using i plan_digests_inv [OF s(3) assms(3)] s(4)
      image_complement_covers [of "rp_footer remote" "taken' @ list_opt known"] assms(3)
    by (simp only: taken_bytes_append) (simp; blast)
qed

section \<open>A plan of image blocks\<close>

text \<open>
  A copy group is a block of the release, with the digest stored after it, taken from a block of the
  running image that the two indices describe the same.
\<close>

definition image_block_group :: "('s, 'i, 'r) image_lib \<Rightarrow> 'r located_image \<Rightarrow> 'r located_image
    \<Rightarrow> copy_group \<Rightarrow> bool" where
  "image_block_group im loc rel g \<longleftrightarrow>
     (\<exists>i e j l k d. blocks_get im (fst rel) i = Some e \<and> blocks_get im (fst loc) j = Some l
        \<and> block_key e = Inr k \<and> block_key l = Inr k \<and> be_digest e = Some d
        \<and> cg_check g = BlockDigest d
        \<and> cg_ranges g = [\<lparr> cr_dst = snd rel + be_image_offset e, cr_src = snd loc + be_image_offset l,
             cr_len = ucast (be_stored_length e) + 8 \<rparr>])"

definition index_blocks_ok :: "('s, 'i, 'r) image_lib \<Rightarrow> 'r located_image \<Rightarrow> (index_key \<rightharpoonup> u64) \<Rightarrow> bool" where
  "index_blocks_ok im loc m \<longleftrightarrow> (\<forall>k src. m k = Some src \<longrightarrow>
     (\<exists>j l. blocks_get im (fst loc) j = Some l \<and> block_key l = Inr k \<and> src = snd loc + be_image_offset l))"

lemma index_image_block_ok:
  "index_image_block im loc i m = Inr m' \<Longrightarrow> index_blocks_ok im loc m \<Longrightarrow> index_blocks_ok im loc m'"
  by (auto simp: index_image_block_def index_blocks_ok_def tryE_Inr_iff split: option.splits if_splits) blast

lemma block_key_digest: "block_key e = Inr k \<Longrightarrow> \<exists>d. be_digest e = Some d"
  by (auto simp: block_key_def tryE_Inr_iff)

definition group_size :: "copy_group \<Rightarrow> nat" where
  "group_size g = (\<Sum>r\<leftarrow>cg_ranges g. unat (cr_len r))"

text \<open>The loop's state: all planned so far ends before \<open>after\<close>.\<close>

definition image_blocks_inv :: "('s, 'i, 'r) image_lib \<Rightarrow> 'r located_image \<Rightarrow> 'r located_image \<Rightarrow> footer
    \<Rightarrow> copy_group list \<times> (u64 \<times> u64) list \<times> u64 \<Rightarrow> bool" where
  "image_blocks_inv im loc rel f st \<longleftrightarrow>
     (case st of (copies, taken, after) \<Rightarrow>
        (\<forall>g \<in> set copies. image_block_group im loc rel g)
        \<and> taken_bytes taken \<subseteq> copies_bytes copies
        \<and> copies_bytes copies \<subseteq> {unat (f_payload_offset f) ..< unat after}
        \<and> unat (f_payload_offset f) + (\<Sum>g\<leftarrow>copies. group_size g) \<le> unat after
        \<and> after \<le> f_payload_offset f + f_payload_size f)"

lemma plan_image_block_Inr:
  assumes "plan_image_block im r f local_blocks i (copies, taken, after) = Inr st'"
  obtains e dst k where "blocks_get im r i = Some e" "block_key e = Inr k"
    "checked_add_u64 (f_payload_offset f) (be_image_offset e) = Some dst"
    "after \<le> dst" "checked_add_u64 dst (ucast (be_stored_length e) + 8) = Some (dst + (ucast (be_stored_length e) + 8))"
    "dst + (ucast (be_stored_length e) + 8) \<le> f_payload_offset f + f_payload_size f"
    "st' = (case local_blocks k of
        None \<Rightarrow> (copies, taken, dst + (ucast (be_stored_length e) + 8))
      | Some src \<Rightarrow>
          (copies @ [\<lparr> cg_ranges = [\<lparr> cr_dst = dst, cr_src = src, cr_len = ucast (be_stored_length e) + 8 \<rparr>],
             cg_check = BlockDigest (case be_digest e of None \<Rightarrow> 0 | Some d \<Rightarrow> d) \<rparr>],
           taken @ [(dst, dst + (ucast (be_stored_length e) + 8))], dst + (ucast (be_stored_length e) + 8)))"
proof -
  from assms obtain e where e: "blocks_get im r i = Some e"
    by (auto simp: plan_image_block_def tryE_Inr_iff)
  from assms e obtain dst where dst: "checked_add_u64 (f_payload_offset f) (be_image_offset e) = Some dst"
    by (auto simp: plan_image_block_def tryE_Inr_iff Let_def split: option.splits)
  let ?len = "ucast (be_stored_length e) + 8 :: u64"
  from assms e dst obtain k where k: "block_key e = Inr k" "after \<le> dst"
    and st': "st' = (case local_blocks k of
        None \<Rightarrow> (copies, taken, dst + ?len)
      | Some src \<Rightarrow>
          (copies @ [\<lparr> cg_ranges = [\<lparr> cr_dst = dst, cr_src = src, cr_len = ?len \<rparr>],
             cg_check = BlockDigest (case be_digest e of None \<Rightarrow> 0 | Some d \<Rightarrow> d) \<rparr>],
           taken @ [(dst, dst + ?len)], dst + ?len))"
    and c: "case checked_add_u64 dst ?len of None \<Rightarrow> False
          | Some x \<Rightarrow> x \<le> f_payload_offset f + f_payload_size f"
    by (auto simp: plan_image_block_def tryE_Inr_iff Let_def split: if_splits)
  from c have "checked_add_u64 dst ?len = Some (dst + ?len)"
    "dst + ?len \<le> f_payload_offset f + f_payload_size f"
    by (auto simp: checked_add_u64_def split: option.splits if_splits)
  with e k dst st' show thesis by (intro that)
qed

lemma plan_image_block_inv:
  assumes step: "plan_image_block im (fst rel) f local_blocks i st = Inr st'"
    and inv: "image_blocks_inv im loc rel f st" and blocks: "index_blocks_ok im loc local_blocks"
    and rel: "snd rel = f_payload_offset f"
  shows "image_blocks_inv im loc rel f st'"
proof -
  obtain copies taken after where st: "st = (copies, taken, after)" by (cases st) auto
  from plan_image_block_Inr [OF step [unfolded st]] obtain e dst k where
    e: "blocks_get im (fst rel) i = Some e" "block_key e = Inr k"
      "checked_add_u64 (f_payload_offset f) (be_image_offset e) = Some dst" "after \<le> dst"
    and len: "checked_add_u64 dst (ucast (be_stored_length e) + 8) = Some (dst + (ucast (be_stored_length e) + 8))"
      "dst + (ucast (be_stored_length e) + 8) \<le> f_payload_offset f + f_payload_size f"
    and st': "st' = (case local_blocks k of
        None \<Rightarrow> (copies, taken, dst + (ucast (be_stored_length e) + 8))
      | Some src \<Rightarrow>
          (copies @ [\<lparr> cg_ranges = [\<lparr> cr_dst = dst, cr_src = src, cr_len = ucast (be_stored_length e) + 8 \<rparr>],
             cg_check = BlockDigest (case be_digest e of None \<Rightarrow> 0 | Some d \<Rightarrow> d) \<rparr>],
           taken @ [(dst, dst + (ucast (be_stored_length e) + 8))], dst + (ucast (be_stored_length e) + 8)))"
    by blast
  define len' where "len' = (ucast (be_stored_length e) + 8 :: u64)"
  note len = len [folded len'_def] and st' = st' [folded len'_def]
  have u: "unat (dst + len') = unat dst + unat len'" "unat after \<le> unat dst"
    "unat (f_payload_offset f) \<le> unat dst" "dst = snd rel + be_image_offset e"
    using checked_add_u64_SomeD [OF len(1)] checked_add_u64_SomeD [OF e(3)] e(4) rel
    by (simp_all add: word_le_nat_alt)
  have inv': "\<forall>g \<in> set copies. image_block_group im loc rel g" "taken_bytes taken \<subseteq> copies_bytes copies"
    "copies_bytes copies \<subseteq> {unat (f_payload_offset f) ..< unat after}"
    "unat (f_payload_offset f) + (\<Sum>g\<leftarrow>copies. group_size g) \<le> unat after"
    using inv by (simp_all add: image_blocks_inv_def st)
  show ?thesis
  proof (cases "local_blocks k")
    case None
    then show ?thesis using inv' u len(2) by (auto simp: image_blocks_inv_def st')
  next
    case (Some src)
    obtain d where d: "be_digest e = Some d" using block_key_digest [OF e(2)] by blast
    obtain j l where l: "blocks_get im (fst loc) j = Some l" "block_key l = Inr k"
      "src = snd loc + be_image_offset l"
      using blocks [unfolded index_blocks_ok_def] Some by blast
    let ?g = "\<lparr> cg_ranges = [\<lparr> cr_dst = dst, cr_src = src, cr_len = len' \<rparr>], cg_check = BlockDigest d \<rparr>"
    have g: "image_block_group im loc rel ?g"
      unfolding image_block_group_def
      by (rule exI [of _ i], rule exI [of _ e], rule exI [of _ j], rule exI [of _ l],
          rule exI [of _ k], rule exI [of _ d]) (use e l d u(4) in \<open>simp add: len'_def\<close>)
    have t: "taken_bytes [(dst, dst + len')] = copies_bytes [?g]"
      using u(1) by (simp add: copy_bytes_def)
    have c: "copies_bytes [?g] \<subseteq> {unat (f_payload_offset f) ..< unat (dst + len')}"
      using u by (auto simp: copy_bytes_def)
    have "st' = (copies @ [?g], taken @ [(dst, dst + len')], dst + len')"
      using st' Some d by simp
    moreover have "unat (f_payload_offset f) + (\<Sum>g\<leftarrow>copies @ [?g]. group_size g) \<le> unat (dst + len')"
      using inv'(4) u by (simp add: group_size_def)
    moreover have "copies_bytes (copies @ [?g]) \<subseteq> {unat (f_payload_offset f) ..< unat (dst + len')}"
      using inv'(3) u c by (auto simp del: copies_bytes_simps(3))
    moreover have "taken_bytes (taken @ [(dst, dst + len')]) \<subseteq> copies_bytes (copies @ [?g])"
      using inv'(2) t by (auto simp del: copies_bytes_simps(3) taken_bytes_simps)
    ultimately show ?thesis using inv'(1) g len(2) by (simp add: image_blocks_inv_def)
  qed
qed

lemma plan_stipple_blocks_spec:
  assumes "plan_stipple_blocks im pkg lr remote rr known = Inr p"
    and fits: "unat (f_payload_offset (rp_footer remote)) + unat (f_payload_size (rp_footer remote)) < 2 ^ 64"
  shows "{unat (f_payload_offset (rp_footer remote)) ..<
        unat (f_payload_offset (rp_footer remote)) + unat (f_payload_size (rp_footer remote))}
      \<subseteq> copies_bytes (pl_copies p) \<union> spans_bytes (pl_fetch p) \<union> taken_bytes (list_opt known)
    \<and> (\<forall>g \<in> set (pl_copies p). image_block_group im (lr, f_payload_offset (pd_footer pkg))
         (rr, f_payload_offset (rp_footer remote)) g)
    \<and> copies_bytes (pl_copies p) \<subseteq> {unat (f_payload_offset (rp_footer remote)) ..<
        unat (f_payload_offset (rp_footer remote)) + unat (f_payload_size (rp_footer remote))}
    \<and> (\<Sum>g\<leftarrow>pl_copies p. group_size g) \<le> unat (f_payload_size (rp_footer remote))"
proof -
  let ?loc = "(lr, f_payload_offset (pd_footer pkg))" and ?rel = "(rr, f_payload_offset (rp_footer remote))"
  let ?f = "rp_footer remote"
  from assms(1) obtain m taken after where
    m: "foldE (index_image_block im ?loc) [0..<blocks_count im lr] Map.empty = Inr m"
    and c: "foldE (plan_image_block im rr ?f m) [0..<blocks_count im rr] ([], [], f_payload_offset ?f)
      = Inr (pl_copies p, taken, after)"
    and f: "pl_fetch p = image_complement ?f (taken @ list_opt known)"
    by (auto simp: plan_stipple_blocks_def tryE_Inr_iff split: prod.splits)
  have "index_blocks_ok im ?loc m"
    by (rule foldE_invariant [OF m]) (simp add: index_blocks_ok_def, rule index_image_block_ok)
  then have keep: "image_blocks_inv im ?loc ?rel ?f st'"
    if "plan_image_block im rr ?f m i st = Inr st'" "image_blocks_inv im ?loc ?rel ?f st" for i st st'
    using plan_image_block_inv [of im ?rel ?f m i st st' ?loc] that by simp
  have "image_blocks_inv im ?loc ?rel ?f ([], [], f_payload_offset ?f)"
    by (simp add: image_blocks_inv_def word_le_nat_alt word_add_unat [OF fits])
  from foldE_invariant [where P = "image_blocks_inv im ?loc ?rel ?f", OF c this] keep
  have "image_blocks_inv im ?loc ?rel ?f (pl_copies p, taken, after)" by blast
  then have i: "\<forall>g \<in> set (pl_copies p). image_block_group im ?loc ?rel g"
    "taken_bytes taken \<subseteq> copies_bytes (pl_copies p)"
    "copies_bytes (pl_copies p) \<subseteq> {unat (f_payload_offset ?f) ..< unat after}"
    "unat (f_payload_offset ?f) + (\<Sum>g\<leftarrow>pl_copies p. group_size g) \<le> unat after"
    "after \<le> f_payload_offset ?f + f_payload_size ?f"
    by (simp_all add: image_blocks_inv_def)
  have a: "unat after \<le> unat (f_payload_offset ?f) + unat (f_payload_size ?f)"
    using i(5) word_add_unat [OF fits] by (simp add: word_le_nat_alt)
  have "{unat (f_payload_offset ?f) ..< unat (f_payload_offset ?f) + unat (f_payload_size ?f)}
      \<subseteq> copies_bytes (pl_copies p) \<union> spans_bytes (pl_fetch p) \<union> taken_bytes (list_opt known)"
    using image_complement_covers [OF fits, of "taken @ list_opt known"] i(2)
    unfolding f taken_bytes_append by blast
  moreover have "copies_bytes (pl_copies p) \<subseteq> {unat (f_payload_offset ?f) ..<
        unat (f_payload_offset ?f) + unat (f_payload_size ?f)}"
    using i(3) a by force
  moreover have "(\<Sum>g\<leftarrow>pl_copies p. group_size g) \<le> unat (f_payload_size ?f)"
    using i(4) a by simp
  ultimately show ?thesis using i(1) by blast
qed

section \<open>Properties of the image planner\<close>


text \<open>A stored image of two blocks of four bytes, and a file in the middle of its stream.\<close>

definition sample_entry_at :: "u64 \<Rightarrow> u64 \<Rightarrow> block_entry" where
  "sample_entry_at off d = \<lparr> be_image_offset = off, be_stored_length = 4, be_decoded_length = 4,
     be_raw = True, be_codec_id = 0, be_digest = Some d \<rparr>"

definition sample_image :: "(unit, unit, unit) image_lib" where
  "sample_image = \<lparr> image_new = (\<lambda>_ _ _. returnS ()), image_sections = (\<lambda>_. []),
     image_open = (\<lambda>_ _ _. returnS ()), section_absent = (\<lambda>_. False), flag_variable_blocks = 1,
     image_flags = (\<lambda>_. 1), image_block_size = (\<lambda>_. 4096), blocks_count = (\<lambda>_. 2),
     blocks_get = (\<lambda>_ i. if i = 0 then Some (sample_entry_at 10 7)
       else if i = 1 then Some (sample_entry_at 30 8) else None),
     blocks_locate = (\<lambda>_ at. if unat at < 4 then Some (0, at)
       else if unat at < 8 then Some (1, at - 4) else None),
     file_extents = (\<lambda>_ ino. if ino = 1 then [(2, 0, 4)] else []) \<rparr>"

lemma sample_image_sound: "image_sound sample_image () base" if "unat base < 1000"
proof -
  have "\<exists>e. blocks_get sample_image () i = Some e \<and> unat w < unat (be_decoded_length e)
      \<and> (\<forall>k. unat w + k < unat (be_decoded_length e) \<longrightarrow>
           blocks_locate sample_image () (at + of_nat k) = Some (i, w + of_nat k))"
    if loc: "blocks_locate sample_image () at = Some (i, w)" for at i w
  proof (cases "unat at < 4")
    case True
    have "unat (at + of_nat k) = unat at + k" if "unat at + k < 4" for k
      using that by (subst word_add_unat) (simp_all add: unat_of_nat)
    then show ?thesis using loc True by (simp add: sample_image_def sample_entry_at_def)
  next
    case False
    with loc have w: "unat at < 8" "i = 1" "w = at - 4"
      by (auto simp: sample_image_def split: if_splits)
    have wn: "unat w = unat at - 4" using False w(3) by (simp add: unat_sub word_le_nat_alt)
    have "unat (at + of_nat k) = unat at + k" if "unat at + k < 8" for k
      using that by (subst word_add_unat) (simp_all add: unat_of_nat)
    then show ?thesis using w wn False by (auto simp: sample_image_def sample_entry_at_def)
  qed
  moreover have "unat base + unat (be_image_offset e) + unat (be_stored_length e) < 2 ^ 64"
    if "blocks_get sample_image () i = Some e" for i e
    using that \<open>unat base < 1000\<close>
    by (auto simp: sample_image_def sample_entry_at_def split: if_splits)
  ultimately show ?thesis by (auto simp: image_sound_def)
qed

lemma sample_ranges: "slice_stored_ranges sample_image () 100 1 0 4 = Some (Inr [(112, 114), (130, 132)])"
  by (simp add: slice_stored_ranges_def checked_add_u64_def sample_image_def slice_run.simps
      sample_entry_at_def min_def)



definition image_slice :: "u64 \<Rightarrow> bytes \<Rightarrow> block" where
  "image_slice ino h = \<lparr> b_payload_offset = 0, b_compressed_size = ino, b_original_size = 4, b_content_hash = h \<rparr>"

definition image_footer :: footer where
  "image_footer = sample_zfooter\<lparr> f_payload_offset := 100, f_payload_size := 50 \<rparr>"

definition image_package :: "unit package_data" where
  "image_package = \<lparr> pd_footer = image_footer, pd_manifest = blocks_manifest [image_slice 1 [5]],
     pd_file = [], pd_codec = Stipple () \<rparr>"

definition image_remote :: remote_package where
  "image_remote = \<lparr> rp_footer = image_footer, rp_footer_bytes = [],
     rp_manifest = blocks_manifest [image_slice 1 [5], image_slice 1 [6]], rp_manifest_bytes = [],
     rp_size = 300 \<rparr>"

definition image_slices_plan :: plan where
  "image_slices_plan = \<lparr> pl_prefix = PrefixCopy 0, pl_dict = None,
     pl_copies = [\<lparr> cg_ranges = [\<lparr> cr_dst = 112, cr_src = 112, cr_len = 2 \<rparr>,
         \<lparr> cr_dst = 130, cr_src = 130, cr_len = 2 \<rparr>], cg_check = Raw [5] \<rparr>],
     pl_fetch = [\<lparr> sp_start = 110, sp_len = 2 \<rparr>, \<lparr> sp_start = 122, sp_len = 8 \<rparr>,
       \<lparr> sp_start = 132, sp_len = 2 \<rparr>, \<lparr> sp_start = 142, sp_len = 8 \<rparr>],
     pl_digests = [(110, 4), (130, 4)], pl_unit = lit ''slices'', pl_known = None \<rparr>"

lemma sample_slices_plan:
  "plan_stipple_slices sample_image image_package () image_remote () (Some (100, 110))
     = Some (Inr image_slices_plan)"
proof -
  have fb: "file_blocks (blocks_manifest bs) = bs" for bs
    by (simp add: file_blocks_def blocks_manifest_def sample_entry_def)
  have z: "zip_ranges [(112, 114), (130, 132)] [(112, 114), (130, 132)]
      = Inr [\<lparr> cr_dst = 112, cr_src = 112, cr_len = 2 \<rparr>, \<lparr> cr_dst = 130, cr_src = 130, cr_len = 2 \<rparr>]"
    by (simp add: zip_ranges_def zip_from.simps(4) tryE_def)
  have pre: "prefix_plan image_footer (blocks_manifest bs) image_remote = PrefixCopy 0" for bs
    by (simp add: prefix_plan_def image_remote_def image_footer_def sample_zfooter_def blocks_manifest_def
        sample_manifest_def sample_header_def)
  have ix: "local_slices (blocks_manifest [image_slice 1 [5]]) = Inr [[5] \<mapsto> (1, 0, 4)]"
    by (simp add: local_slices_def fb index_slice_def image_slice_def u32_try_from_def ok_or_def tryE_def)
  have sl: "foldO (plan_slice sample_image ((), 100) ((), 100) [[5] \<mapsto> (1, 0, 4)])
      [image_slice 1 [5], image_slice 1 [6]] ([], [], {})
      = Some (Inr ([\<lparr> cg_ranges = [\<lparr> cr_dst = 112, cr_src = 112, cr_len = 2 \<rparr>,
          \<lparr> cr_dst = 130, cr_src = 130, cr_len = 2 \<rparr>], cg_check = Raw [5] \<rparr>],
          [(112, 114), (130, 132)], {(1, 0)}))"
    by (simp add: plan_slice_def image_slice_def block_original_size_def MAX_BLOCK_ORIGINAL_def
        usize_max_def usize_try_from_def u32_try_from_def ok_or_def sample_ranges z Let_def)
  have dg: "foldE (plan_digest sample_image () image_footer) [0, 1] ([(112, 114), (130, 132)], [])
      = Inr ([(112, 114), (130, 132), (114, 122), (134, 142)], [(110, 4), (130, 4)])"
    by (simp add: plan_digest_def sample_image_def sample_entry_at_def image_footer_def
        checked_add_u64_def saturating_add_u64_def tryE_def)
  have two: "[0..<blocks_count sample_image ()] = [0, 1]"
    by (simp add: sample_image_def upt_rec)
  show ?thesis
    using ix sl dg pre two
    by (simp add: plan_stipple_slices_def image_package_def)
      (simp add: image_remote_def fb image_footer_def image_slices_plan_def image_complement_def
        complement_def list_opt_def sample_image_def)
qed


text \<open>
  C36: A block plan leaves no byte of the payload out and is bounded by it. Every byte of the release
  image is copied, fetched or already held; every copy is a whole block with its digest, inside the
  payload, that the two block indices describe by the same digest, lengths and codec; and however a
  crafted index is laid out, all copies together are at most as long as the payload.
\<close>

theorem plan_stipple_blocks_bounded:
  assumes "plan_stipple_blocks im pkg lr remote rr known = Inr p"
    and "unat (f_payload_offset (rp_footer remote)) + unat (f_payload_size (rp_footer remote)) < 2 ^ 64"
  shows "{unat (f_payload_offset (rp_footer remote)) ..<
        unat (f_payload_offset (rp_footer remote)) + unat (f_payload_size (rp_footer remote))}
      \<subseteq> copies_bytes (pl_copies p) \<union> spans_bytes (pl_fetch p) \<union> taken_bytes (list_opt known)
    \<and> (\<forall>g \<in> set (pl_copies p). image_block_group im (lr, f_payload_offset (pd_footer pkg))
         (rr, f_payload_offset (rp_footer remote)) g)
    \<and> copies_bytes (pl_copies p) \<subseteq> {unat (f_payload_offset (rp_footer remote)) ..<
        unat (f_payload_offset (rp_footer remote)) + unat (f_payload_size (rp_footer remote))}
    \<and> (\<Sum>g\<leftarrow>pl_copies p. group_size g) \<le> unat (f_payload_size (rp_footer remote))"
  by (rule plan_stipple_blocks_spec [OF assms])

definition image_blocks_plan :: plan where
  "image_blocks_plan = \<lparr> pl_prefix = PrefixCopy 0, pl_dict = None,
     pl_copies = [\<lparr> cg_ranges = [\<lparr> cr_dst = 110, cr_src = 110, cr_len = 12 \<rparr>], cg_check = BlockDigest 7 \<rparr>,
       \<lparr> cg_ranges = [\<lparr> cr_dst = 130, cr_src = 130, cr_len = 12 \<rparr>], cg_check = BlockDigest 8 \<rparr>],
     pl_fetch = [\<lparr> sp_start = 100, sp_len = 10 \<rparr>, \<lparr> sp_start = 122, sp_len = 8 \<rparr>,
       \<lparr> sp_start = 142, sp_len = 8 \<rparr>],
     pl_digests = [], pl_unit = lit ''blocks'', pl_known = None \<rparr>"

lemma sample_image_plan:
  "plan_stipple_blocks sample_image image_package () image_remote () None = Inr image_blocks_plan"
proof -
  have pre: "prefix_plan image_footer (blocks_manifest bs) image_remote = PrefixCopy 0" for bs
    by (simp add: prefix_plan_def image_remote_def image_footer_def sample_zfooter_def blocks_manifest_def
        sample_manifest_def sample_header_def)
  have two: "[0..<blocks_count sample_image ()] = [0, 1]" by (simp add: sample_image_def upt_rec)
  have k: "block_key (sample_entry_at off d) = Inr (d, 4, 4, 0)" for off d
    by (simp add: block_key_def sample_entry_at_def ok_or_def tryE_def)
  have g: "blocks_get sample_image () 0 = Some (sample_entry_at 10 7)"
    "blocks_get sample_image () 1 = Some (sample_entry_at 30 8)"
    by (simp_all add: sample_image_def)
  have be: "be_image_offset (sample_entry_at off d) = off" "be_stored_length (sample_entry_at off d) = 4"
    "be_digest (sample_entry_at off d) = Some d" for off d
    by (simp_all add: sample_entry_at_def)
  have ix: "foldE (index_image_block sample_image ((), 100)) [0, 1] Map.empty
      = Inr [(7, 4, 4, 0) \<mapsto> 110, (8, 4, 4, 0) \<mapsto> 130]"
    by (simp add: index_image_block_def g [simplified] k be ok_or_def tryE_def)
  have pl: "foldE (plan_image_block sample_image () image_footer [(7, 4, 4, 0) \<mapsto> 110, (8, 4, 4, 0) \<mapsto> 130])
      [0, 1] ([], [], 100) = Inr (pl_copies image_blocks_plan, [(110, 122), (130, 142)], 142)"
    by (simp add: plan_image_block_def g [simplified] k be ok_or_def tryE_def image_blocks_plan_def
        image_footer_def checked_add_u64_def)
  have "f_payload_offset (pd_footer image_package) = 100" "f_payload_offset image_footer = 100"
    "rp_footer image_remote = image_footer"
    by (simp_all add: image_package_def image_footer_def image_remote_def)
  then show ?thesis
    using ix pl pre unfolding plan_stipple_blocks_def two
    by (simp add: tryE_def image_package_def)
      (simp add: image_blocks_plan_def image_complement_def complement_def list_opt_def image_footer_def)
qed

theorem plan_stipple_blocks_bounded_witness:
  "{100 ..< 150} \<subseteq> copies_bytes (pl_copies image_blocks_plan) \<union> spans_bytes (pl_fetch image_blocks_plan)
    \<and> (\<Sum>g\<leftarrow>pl_copies image_blocks_plan. group_size g) \<le> 50"
proof -
  have f: "f_payload_offset (rp_footer image_remote) = 100" "f_payload_size (rp_footer image_remote) = 50"
    by (simp_all add: image_remote_def image_footer_def)
  show ?thesis
    using plan_stipple_blocks_bounded [OF sample_image_plan] unfolding f by (simp add: list_opt_def)
qed

end
