(* ===== verification/Delta_Assemble.thy ===== *)
theory Delta_Assemble
  imports Delta_Images
begin

text \<open>
  \<open>assemble\<close> of \<open>update/delta.rs\<close>, and the update as a whole for a blocks payload: what the probe saw, the
  plan drawn from it and the writes of the plan rebuild the published file.
\<close>

section \<open>Assembly\<close>

record stats =
  st_reused :: nat
  st_unit :: bytes
  st_fetched :: u64

definition assemble :: "'r lib \<Rightarrow> ('s, 'i, 'r) image_lib \<Rightarrow> bytes \<Rightarrow> remote_package
    \<Rightarrow> (u64 \<Rightarrow> u64 \<Rightarrow> ('s, fetch_error, bytes) step) \<Rightarrow> 's world
    \<Rightarrow> ((string + stats) \<times> 's world) option" where
  "assemble lib im local_bytes remote fetch w =
     (case load_file lib local_bytes of
        Inl _ \<Rightarrow> Some (Inl ''open the running package'', w)
      | Inr pkg \<Rightarrow>
          if h_version (m_header (pd_manifest pkg)) < 3 \<or> h_version (m_header (rp_manifest remote)) < 3
          then Some (Inl ''delta planning needs version-3 manifests on both sides'', w)
          else if is_stipple (pd_footer pkg) \<noteq> is_stipple (rp_footer remote)
          then Some (Inl ''the update changes the payload kind'', w)
          else
            (case (if is_stipple (rp_footer remote) then plan_stipple im pkg remote fetch (wo_src w)
                   else Some (plan_blocks pkg remote fetch (wo_src w))) of
               None \<Rightarrow> None
             | Some (Inl e, t) \<Rightarrow> Some (Inl e, w\<lparr> wo_src := t \<rparr>)
             | Some (Inr p, t) \<Rightarrow>
                 let p' = coalesce p
                 in Some (case write_plan lib (pd_file pkg) remote p' fetch (w\<lparr> wo_src := t \<rparr>) of
                      (Inl e, w') \<Rightarrow> (Inl e, w')
                    | (Inr (reused, fetched), w') \<Rightarrow>
                        (Inr \<lparr> st_reused = reused, st_unit = pl_unit p', st_fetched = fetched \<rparr>, w'))))"

section \<open>Requests stay inside the release\<close>

lemma merge_from_inside:
  assumes "span_ok l" "\<forall>s \<in> set rest. span_ok s \<and> sp_start l \<le> sp_start s"
    and "sorted (map sp_start rest)" "span_inside n l" "\<forall>s \<in> set rest. span_inside n s"
  shows "\<forall>s \<in> set (merge_from l rest). span_inside n s"
  using assms
proof (induction l rest rule: merge_from.induct)
  case (2 l s rest)
  have s: "span_ok s" "sp_start l \<le> sp_start s" "\<forall>x \<in> set rest. sp_start s \<le> sp_start x"
    using 2(4,5) by auto
  show ?case
  proof (cases "sp_start s \<le> saturating_add_u64 (span_end l) FETCH_GAP_MAX")
    case True
    note m = merge_step [OF 2(3) s(1,2)]
    have "span_inside n (l\<lparr> sp_len := max (span_end l) (span_end s) - sp_start l \<rparr>)"
      using m(1,3) 2(6,7) span_end_unat [OF m(1)] span_end_unat [OF 2(3)] span_end_unat [OF s(1)]
      by (simp add: span_inside_def)
    with 2(1) [OF refl True m(1)] 2(4,5,7) m(2) True show ?thesis by (auto simp: Let_def)
  next
    case False
    then show ?thesis using 2(2) [OF refl False s(1)] 2(4-7) s(3) by (auto simp: Let_def)
  qed
qed simp

lemma coalesce_inside:
  assumes "\<forall>s \<in> set (pl_fetch p). span_ok s \<and> span_inside n s"
  shows "\<forall>s \<in> set (pl_fetch (coalesce p)). span_inside n s"
proof (cases "sort_key sp_start (pl_fetch p)")
  case Nil
  then show ?thesis by (simp add: coalesce_def Let_def merge_spans_def)
next
  case (Cons l rest)
  have set: "set (pl_fetch p) = insert l (set rest)" using Cons by (metis set_sort list.simps(15))
  have "sorted (map sp_start (l # rest))" using Cons by (metis sorted_sort_key)
  then have "\<forall>s \<in> set (merge_from l rest). span_inside n s"
    using assms set by (intro merge_from_inside) auto
  then show ?thesis using Cons by (simp add: coalesce_def Let_def merge_spans_def)
qed

lemma extend_fetch_inside:
  assumes "\<forall>s \<in> set spans. span_ok s \<and> span_inside n s" "unat start + unat len \<le> n" "unat start + unat len < 2 ^ 64"
  shows "\<forall>s \<in> set (extend_fetch spans start len). span_ok s \<and> span_inside n s"
proof (cases "spans \<noteq> [] \<and> span_end (last spans) = start")
  case True
  then obtain xs l where l: "spans = xs @ [l]" "span_end l = start" by (cases spans rule: rev_cases) auto
  have ok: "span_ok l" using assms(1) l by simp
  note e = span_end_unat [OF ok, unfolded l(2)]
  have len: "unat (sp_len l + len) = unat (sp_len l) + unat len"
    using e assms(3) by (intro word_add_unat) simp
  show ?thesis using assms l e len by (auto simp: extend_fetch_def span_ok_def span_inside_def)
qed (use assms in \<open>auto simp: extend_fetch_def span_ok_def span_inside_def\<close>)

lemma block_extent_inside:
  assumes "block_extent usize_max f b = Inr (dst, n)"
  shows "unat dst + n \<le> unat (f_payload_offset f) + unat (f_payload_size f)"
  using assms
  by (auto simp: block_extent_def tryE_Inr_iff checked_add_u64_Some_iff in_bounds_iff split: if_splits)

lemma plan_block_inside:
  assumes "plan_block f index comparable b (copies, fetch, seen) = Inr (copies', fetch', seen')"
    and "\<forall>s \<in> set fetch. span_ok s \<and> span_inside n s"
    and "unat (f_payload_offset f) + unat (f_payload_size f) \<le> n"
  shows "\<forall>s \<in> set fetch'. span_ok s \<and> span_inside n s"
proof -
  consider "fetch' = fetch"
    | dst k where "block_extent usize_max f b = Inr (dst, k)" "fetch' = extend_fetch fetch dst (of_nat k)"
    using assms(1)
    by (auto simp: plan_block_def Let_def tryE_Inr_iff split: option.splits if_splits)
  then show ?thesis
  proof cases
    case 2
    then show ?thesis
      using extend_fetch_inside [OF assms(2), of dst "of_nat k"] block_extent_inside [OF 2(1)]
        block_extent_Inr [OF 2(1)] assms(3) by simp
  qed (use assms in simp)
qed

lemma plan_blocks_inside:
  assumes "foldE (plan_block f index comparable) bs ([], [], {}) = Inr (copies, fetch, seen)"
    and "unat (f_payload_offset f) + unat (f_payload_size f) \<le> n"
  shows "\<forall>s \<in> set fetch. span_ok s \<and> span_inside n s"
proof -
  define P where "P = (\<lambda>st :: copy_group list \<times> span list \<times> u64 set.
      \<forall>s \<in> set (fst (snd st)). span_ok s \<and> span_inside n s)"
  have "P (copies, fetch, seen)"
  proof (rule foldE_invariant [OF assms(1)])
    show "P ([], [], {})" by (simp add: P_def)
    fix b st st' assume step: "plan_block f index comparable b st = Inr st'" and "P st"
    obtain c fe sn c' fe' sn' where st: "st = (c, fe, sn)" "st' = (c', fe', sn')"
      by (metis prod_cases3)
    show "P st'" using plan_block_inside [OF step [unfolded st] _ assms(2)] \<open>P st\<close>
      by (simp add: P_def st)
  qed
  then show ?thesis by (simp add: P_def)
qed

section \<open>What a published release promises\<close>

definition release_dict :: "bytes \<Rightarrow> footer \<Rightarrow> bytes option" where
  "release_dict R f =
     (if \<not> flags_contains (f_flags f) HAS_DICT \<or> f_dict_size f = 0 then None
      else Some (slice (unat (f_dict_offset f)) (unat (f_dict_offset f) + unat (f_dict_size f)) R))"

text \<open>Every byte of the file belongs to the prefix, the manifest, the dictionary, a block or the footer.\<close>

definition release_tiled :: "bytes \<Rightarrow> 'r package_data \<Rightarrow> bool" where
  "release_tiled R p \<longleftrightarrow>
     (let f = pd_footer p; bs = file_blocks (pd_manifest p) in
      {..< length R} \<subseteq> {..< unat (f_manifest_offset f) + unat (f_manifest_compressed f)}
        \<union> (case release_dict R f of None \<Rightarrow> {}
           | Some d \<Rightarrow> {unat (f_dict_offset f) ..< unat (f_dict_offset f) + length d})
        \<union> (\<Union>b \<in> set bs. extent_bytes f b) \<union> {length R - FOOTER_SIZE ..< length R}
      \<and> (\<forall>b \<in> set bs. \<forall>c \<in> set bs. b_payload_offset b = b_payload_offset c
           \<longrightarrow> b_compressed_size b = b_compressed_size c))"

text \<open>
  The hashes of the manifest vouch for the release: bytes of the right length that pass the check of
  the prefix or of a block are those of the release.
\<close>

definition release_vouched :: "'r lib \<Rightarrow> bytes \<Rightarrow> 'r package_data \<Rightarrow> bool" where
  "release_vouched lib R p \<longleftrightarrow>
     (let f = pd_footer p; m = pd_manifest p in
      (\<forall>bs. length bs = unat (f_manifest_offset f) \<longrightarrow> blake3 lib bs = h_prefix_hash (m_header m)
         \<longrightarrow> bs = take (unat (f_manifest_offset f)) R)
      \<and> (\<forall>b \<in> set (file_blocks m). \<forall>dst n chk bs. block_extent usize_max f b = Inr (dst, n)
         \<longrightarrow> block_check f b = Inr chk \<longrightarrow> length bs = n \<longrightarrow> check_ok lib (release_dict R f) chk bs
         \<longrightarrow> bs = slice (unat dst) (unat dst + n) R))"

definition remote_of :: "bytes \<Rightarrow> 'r package_data \<Rightarrow> remote_package" where
  "remote_of R p = \<lparr> rp_footer = pd_footer p, rp_footer_bytes = drop (length R - 76) R,
     rp_manifest = pd_manifest p,
     rp_manifest_bytes = slice (unat (f_manifest_offset (pd_footer p)))
       (unat (f_manifest_offset (pd_footer p)) + unat (f_manifest_compressed (pd_footer p))) R,
     rp_size = of_nat (length R) \<rparr>"

lemma load_file_footer:
  assumes "load_file lib R = Inr p"
  shows "76 \<le> length R \<and> validate_footer (pd_footer p) (of_nat (length R)) = Inr () \<and> pd_file p = R"
  using assms by (auto simp: load_file_def Let_def tryE_Inr_iff FOOTER_SIZE_def split: if_splits)

lemma fetch_dict_serves:
  assumes "fetch_dict (fetch_range (serve R)) f s = (Inr d, t)" "serving R s" "length R < 2 ^ 64"
    and "validate_footer f (of_nat (length R)) = Inr ()"
  shows "d = release_dict R f \<and> serving R t
    \<and> (\<forall>x. d = Some x \<longrightarrow> unat (f_dict_offset f) + unat (f_dict_size f) \<le> length R)"
proof (cases "\<not> flags_contains (f_flags f) HAS_DICT \<or> f_dict_size f = 0")
  case True
  then show ?thesis using assms(1,2) by (auto simp: fetch_dict_def release_dict_def)
next
  case False
  have n: "unat (of_nat (length R) :: u64) = length R" using assms(3) by (simp add: unat_of_nat)
  have inside: "unat (f_dict_offset f) + unat (ucast (f_dict_size f) :: u64) \<le> length R"
    using assms(4) False n by (simp add: validate_footer_iff)
  obtain u where u: "read_range (fetch_range (serve R)) (f_dict_offset f) (ucast (f_dict_size f)) s
      = (Inr (slice (unat (f_dict_offset f)) (unat (f_dict_offset f) + unat (f_dict_size f)) R), u)"
    "serving R u"
    using read_range_serve [OF assms(2,3) inside] by auto
  have "\<not> ucast (f_dict_size f) > DICT_MAX_BYTES"
    using assms(1) False by (auto simp: fetch_dict_def split: if_splits)
  then have "d = Some (slice (unat (f_dict_offset f)) (unat (f_dict_offset f) + unat (f_dict_size f)) R) \<and> t = u"
    using assms(1) False u(1) by (auto simp: fetch_dict_def seqS_def map_errS_def returnS_def)
  then show ?thesis using False u(2) inside by (simp add: release_dict_def)
qed

section \<open>A blocks plan of a served release\<close>

lemma blocks_group_sound:
  assumes g: "block_extent usize_max f b = Inr (dst, n)" "cg_ranges g = [\<lparr> cr_dst = dst, cr_src = src, cr_len = of_nat n \<rparr>]"
      "block_check f b = Inr (cg_check g)"
    and b: "b \<in> set (file_blocks (pd_manifest p))" and f: "f = pd_footer p"
    and v: "release_vouched lib R p" "validate_footer f (of_nat (length R)) = Inr ()" "length R < 2 ^ 64"
  shows "group_sound lib (release_dict R f) R g"
proof -
  have n: "unat (of_nat n :: u64) = n" "unat dst + n < 2 ^ 64" using block_extent_Inr [OF g(1)] by simp_all
  have "unat dst + n \<le> length R"
    using block_extent_inside [OF g(1)] v(2,3) by (simp add: validate_footer_iff unat_of_nat)
  moreover have "group_target R g = slice (unat dst) (unat dst + n) R"
    using n by (simp add: group_target_def copy_target_def g(2))
  moreover have "bs = slice (unat dst) (unat dst + n) R"
    if "length bs = n" "check_ok lib (release_dict R f) (cg_check g) bs" for bs
    using v(1) b g(1,3) that unfolding release_vouched_def Let_def f by blast
  ultimately show ?thesis
    using n by (auto simp: group_sound_def group_inside_def g(2))
qed

lemma subseq_set: "subseq xs ys \<Longrightarrow> set xs \<subseteq> set ys"
  by (metis notin_set_nthsI subseq_conv_nths subsetI)

lemma coalesce_simps [simp]:
  "pl_prefix (coalesce p) = pl_prefix p" "pl_dict (coalesce p) = pl_dict p"
  "pl_digests (coalesce p) = pl_digests p" "pl_known (coalesce p) = pl_known p"
  "pl_unit (coalesce p) = pl_unit p"
  by (simp_all add: coalesce_def Let_def)

lemma prefix_len_plan: "prefix_len (prefix_plan lf lm remote) = f_manifest_offset (rp_footer remote)"
  by (simp add: prefix_plan_def prefix_len_def)

lemma blocks_plan_facts:
  assumes loads: "load_file lib R = Inr p" and short: "length R < 2 ^ 64"
    and vouched: "release_vouched lib R p" and serving: "serving R s"
    and planned: "plan_blocks pkg (remote_of R p) (fetch_range (serve R)) s = (Inr pl, t)"
  shows "pl_dict pl = release_dict R (pd_footer p) \<and> serving R t
    \<and> pl_prefix pl = prefix_plan (pd_footer pkg) (pd_manifest pkg) (remote_of R p)
    \<and> pl_digests pl = [] \<and> pl_known pl = None
    \<and> (\<forall>s \<in> set (pl_fetch pl). span_ok s \<and> span_inside (length R) s)
    \<and> (\<forall>g \<in> set (pl_copies pl). group_sound lib (pl_dict pl) R g \<and> (\<forall>r \<in> set (cg_ranges g). copy_ok r))"
proof -
  let ?f = "pd_footer p"
  have rem [simp]: "rp_footer (remote_of R p) = ?f" "rp_manifest (remote_of R p) = pd_manifest p"
    by (simp_all add: remote_of_def)
  have valid: "validate_footer ?f (of_nat (length R)) = Inr ()" using load_file_footer [OF loads] by simp
  obtain index seen where
    fold: "foldE (plan_block ?f index
       (codec_dict (pd_codec pkg) = pl_dict pl \<and> is_stored (pd_footer pkg) = is_stored ?f))
       (file_blocks (pd_manifest p)) ([], [], {}) = Inr (pl_copies pl, pl_fetch pl, seen)"
    and dict: "fetch_dict (fetch_range (serve R)) ?f s = (Inr (pl_dict pl), t)"
    and rest: "pl_prefix pl = prefix_plan (pd_footer pkg) (pd_manifest pkg) (remote_of R p)"
      "pl_digests pl = []" "pl_known pl = None"
    using plan_blocks_Inr [OF planned] by (metis rem)
  note d = fetch_dict_serves [OF dict serving short valid]
  have pay: "unat (f_payload_offset ?f) + unat (f_payload_size ?f) \<le> length R"
    using valid short by (simp add: validate_footer_iff unat_of_nat)
  have "group_sound lib (pl_dict pl) R g \<and> (\<forall>r \<in> set (cg_ranges g). copy_ok r)"
    if gm: "g \<in> set (pl_copies pl)" for g
  proof -
    obtain b dst src n where b: "b \<in> set (file_blocks (pd_manifest p))"
      "block_extent usize_max ?f b = Inr (dst, n)"
      "cg_ranges g = [\<lparr> cr_dst = dst, cr_src = src, cr_len = of_nat n \<rparr>]"
      "block_check ?f b = Inr (cg_check g)"
      using plan_blocks_spec [OF planned, unfolded rem] gm by blast
    have "group_sound lib (release_dict R ?f) R g"
      by (rule blocks_group_sound [OF b(2,3,4,1) refl vouched valid short])
    then show ?thesis using d block_extent_Inr [OF b(2)] b(3) by (simp add: copy_ok_def)
  qed
  then show ?thesis using d rest plan_blocks_inside [OF fold pay] by blast
qed

lemma held_blocks:
  assumes "pl_known pl = None" "pl_dict pl = release_dict R f" "f = rp_footer remote"
  shows "held remote pl = (f_manifest_offset f, rp_manifest_bytes remote)
     # (case release_dict R f of None \<Rightarrow> [] | Some d \<Rightarrow> [(f_dict_offset f, d)])"
  using assms by (cases "release_dict R f") (simp_all add: held_def)

lemma blocks_plan_sound:
  assumes loads: "load_file lib R = Inr p" and short: "length R < 2 ^ 64"
    and vouched: "release_vouched lib R p" and serving: "serving R s"
    and planned: "plan_blocks pkg (remote_of R p) (fetch_range (serve R)) s = (Inr pl, t)"
  shows "plan_sound lib R (remote_of R p) (coalesce pl)"
proof -
  let ?f = "pd_footer p" and ?rem = "remote_of R p"
  note facts = blocks_plan_facts [OF assms]
  have opened: "76 \<le> length R" "validate_footer ?f (of_nat (length R)) = Inr ()"
    using load_file_footer [OF loads] by simp_all
  have n: "unat (of_nat (length R) :: u64) = length R" using short by (simp add: unat_of_nat)
  have man: "unat (f_manifest_offset ?f) + unat (f_manifest_compressed ?f) \<le> length R"
    using opened(2) n by (simp add: validate_footer_iff)
  have rem [simp]: "rp_footer ?rem = ?f" "rp_manifest ?rem = pd_manifest p"
    by (simp_all add: remote_of_def)
  have dict: "unat (f_dict_offset ?f) + unat (f_dict_size ?f) \<le> length R" if "release_dict R ?f = Some d" for d
    using that opened(2) n by (auto simp: release_dict_def validate_footer_iff split: if_splits)
  have known: "pl_known (coalesce pl) = None" "pl_dict (coalesce pl) = release_dict R ?f"
    using facts by simp_all
  have held: "\<forall>h \<in> set (held ?rem (coalesce pl)). piece R (unat (fst h)) (snd h)"
    using man dict unfolding held_blocks [OF known rem(1) [symmetric]]
    by (auto simp: remote_of_def release_dict_def piece_def split: option.splits if_splits)
  have prefix: "prefix_sound lib R ?rem (pl_prefix (coalesce pl))"
    using vouched man facts by (simp add: prefix_sound_def prefix_len_plan release_vouched_def Let_def)
  have copies: "\<forall>g \<in> set (pl_copies (coalesce pl)). group_sound lib (pl_dict (coalesce pl)) R g"
  proof -
    have "set (pl_copies (coalesce pl)) \<subseteq> set (pl_copies pl)" by (auto simp: coalesce_def Let_def)
    then show ?thesis using facts by auto
  qed
  have spans: "\<forall>s \<in> set (pl_fetch (coalesce pl)). span_inside (length R) s"
    using facts by (intro coalesce_inside) blast
  show ?thesis
    unfolding plan_sound_def using held prefix copies spans opened(1) n facts
    by (simp add: remote_of_def FOOTER_SIZE_def)
qed

lemma blocks_plan_covers:
  assumes loads: "load_file lib R = Inr p" and short: "length R < 2 ^ 64"
    and tiled: "release_tiled R p"
    and vouched: "release_vouched lib R p" and serving: "serving R s"
    and planned: "plan_blocks pkg (remote_of R p) (fetch_range (serve R)) s = (Inr pl, t)"
  shows "{..< length R} \<subseteq> plan_bytes (remote_of R p) (coalesce pl)"
proof -
  let ?f = "pd_footer p" and ?rem = "remote_of R p" and ?bs = "file_blocks (pd_manifest p)"
  note facts = blocks_plan_facts [OF loads short vouched serving planned]
  have rem [simp]: "rp_footer ?rem = ?f" "rp_manifest ?rem = pd_manifest p"
    by (simp_all add: remote_of_def)
  have n: "unat (of_nat (length R) :: u64) = length R" using short by (simp add: unat_of_nat)
  have opened: "validate_footer ?f (of_nat (length R)) = Inr ()" using load_file_footer [OF loads] by simp
  have man: "unat (f_manifest_offset ?f) + unat (f_manifest_compressed ?f) \<le> length R"
    using opened n by (simp add: validate_footer_iff)
  note spec = plan_blocks_spec [OF planned, unfolded rem, THEN conjunct1]
  have same: "b_compressed_size b = b_compressed_size c"
    if "b \<in> set ?bs" "c \<in> set ?bs" "b_payload_offset c = b_payload_offset b" for b c
    by (rule tiled [unfolded release_tiled_def Let_def, THEN conjunct2, rule_format,
          OF that(1,2) that(3) [symmetric]])
  have "\<forall>s \<in> set (pl_fetch pl). span_ok s" "\<forall>g \<in> set (pl_copies pl). \<forall>r \<in> set (cg_ranges g). copy_ok r"
    using facts by simp_all
  note coal = coalesce_spec [OF this, THEN conjunct2, THEN conjunct1]
  have "extent_bytes ?f b \<subseteq> copies_bytes (pl_copies pl) \<union> spans_bytes (pl_fetch pl)" if bm: "b \<in> set ?bs" for b
  proof -
    from spec bm obtain c where c: "c \<in> set ?bs" "b_payload_offset c = b_payload_offset b"
      "extent_bytes ?f c \<subseteq> copies_bytes (pl_copies pl) \<union> spans_bytes (pl_fetch pl)" by blast
    have "extent_bytes ?f c = extent_bytes ?f b" using same [OF bm c(1,2)] c(2) by (simp add: extent_bytes_def)
    with c(3) show ?thesis by simp
  qed
  then have blocks: "(\<Union>b \<in> set ?bs. extent_bytes ?f b)
      \<subseteq> copies_bytes (pl_copies (coalesce pl)) \<union> spans_bytes (pl_fetch (coalesce pl))"
    by (intro UN_least) (rule subset_trans [OF _ coal])
  have known: "pl_known (coalesce pl) = None" "pl_dict (coalesce pl) = release_dict R ?f"
    using facts by simp_all
  have held: "{unat (f_manifest_offset ?f) ..< unat (f_manifest_offset ?f) + unat (f_manifest_compressed ?f)}
      \<union> (case release_dict R ?f of None \<Rightarrow> {}
         | Some d \<Rightarrow> {unat (f_dict_offset ?f) ..< unat (f_dict_offset ?f) + length d})
      \<subseteq> (\<Union>h \<in> set (held ?rem (coalesce pl)). held_covers h)"
  proof -
    have "length (rp_manifest_bytes ?rem) = unat (f_manifest_compressed ?f)"
      using man by (simp add: remote_of_def)
    then show ?thesis unfolding held_blocks [OF known rem(1) [symmetric]]
      by (cases "release_dict R ?f") (simp_all add: held_covers_def)
  qed
  have prefix: "{..< unat (f_manifest_offset ?f)} \<subseteq> {..< unat (prefix_len (pl_prefix (coalesce pl)))}"
    using facts by (simp add: prefix_len_plan)
  have split: "{..< unat (f_manifest_offset ?f) + unat (f_manifest_compressed ?f)}
      = {..< unat (f_manifest_offset ?f)}
        \<union> {unat (f_manifest_offset ?f) ..< unat (f_manifest_offset ?f) + unat (f_manifest_compressed ?f)}"
    by auto
  have "{..< length R} \<subseteq> {..< unat (f_manifest_offset ?f)}
        \<union> ({unat (f_manifest_offset ?f) ..< unat (f_manifest_offset ?f) + unat (f_manifest_compressed ?f)}
        \<union> (case release_dict R ?f of None \<Rightarrow> {}
           | Some d \<Rightarrow> {unat (f_dict_offset ?f) ..< unat (f_dict_offset ?f) + length d}))
        \<union> (\<Union>b \<in> set ?bs. extent_bytes ?f b) \<union> {length R - FOOTER_SIZE ..< length R}"
    using tiled [unfolded release_tiled_def Let_def split, THEN conjunct1] by (simp only: Un_assoc)
  also have "\<dots> \<subseteq> {..< unat (prefix_len (pl_prefix (coalesce pl)))}
        \<union> (\<Union>h \<in> set (held ?rem (coalesce pl)). held_covers h)
        \<union> (copies_bytes (pl_copies (coalesce pl)) \<union> spans_bytes (pl_fetch (coalesce pl)))
        \<union> {length R - FOOTER_SIZE ..< length R}"
    by (intro Un_mono prefix held blocks order_refl)
  also have "\<dots> \<subseteq> plan_bytes ?rem (coalesce pl)"
  proof -
    have sz: "unat (rp_size ?rem) = length R" using n by (simp add: remote_of_def)
    show ?thesis unfolding plan_bytes_def plan_before_def sz by blast
  qed
  finally show ?thesis .
qed

lemma blocks_plan_local:
  assumes running: "load_file lib old = Inr pkg" "length old < 2 ^ 64"
    and planned: "plan_blocks pkg remote fetch s = (Inr pl, t)"
  shows "plan_local old (coalesce pl)"
proof -
  have n: "unat (of_nat (length old) :: u64) = length old" using running(2) by (simp add: unat_of_nat)
  have opened: "unat (f_manifest_offset (pd_footer pkg)) \<le> length old"
    "unat (f_payload_offset (pd_footer pkg)) + unat (f_payload_size (pd_footer pkg)) \<le> length old"
    using load_file_footer [OF running(1)] n by (simp_all add: validate_footer_iff)
  have "group_local old g" if g: "g \<in> set (pl_copies pl)" for g
  proof -
    obtain l dst src k where l: "block_extent usize_max (pd_footer pkg) l = Inr (src, k)"
      "cg_ranges g = [\<lparr> cr_dst = dst, cr_src = src, cr_len = of_nat k \<rparr>]"
      using plan_blocks_spec [OF planned, THEN conjunct2, THEN conjunct1] g by blast
    show ?thesis
      using block_extent_Inr [OF l(1)] block_extent_inside [OF l(1)] opened(2) l(2)
      by (simp add: group_local_def)
  qed
  moreover have "set (pl_copies (coalesce pl)) \<subseteq> set (pl_copies pl)"
    by (auto simp: coalesce_def Let_def)
  moreover have "pl_prefix pl = prefix_plan (pd_footer pkg) (pd_manifest pkg) remote"
    using plan_blocks_Inr [OF planned] by metis
  then have "case pl_prefix pl of PrefixCopy len \<Rightarrow> unat len \<le> length old | PrefixFetch _ \<Rightarrow> True"
    using opened(1) by (auto simp: prefix_plan_def)
  ultimately show ?thesis using running(2) by (auto simp: plan_local_def)
qed

lemma assemble_rebuilds:
  assumes release: "load_file lib R = Inr p" "length R < 2 ^ 64" "release_tiled R p" "release_vouched lib R p"
      "\<not> is_stipple (pd_footer p)"
    and running: "load_file lib old = Inr pkg" "length old < 2 ^ 64"
    and serving: "serving R (wo_src w)"
  shows "assemble lib im old (remote_of R p) (fetch_range (serve R)) w \<noteq> None"
    and "assemble lib im old (remote_of R p) (fetch_range (serve R)) w = Some (Inr out, w') \<Longrightarrow> wo_staged w' = R"
    and "plan_blocks pkg (remote_of R p) (fetch_range (serve R)) (wo_src w) = (Inr pl, t) \<Longrightarrow>
      3 \<le> h_version (m_header (pd_manifest pkg)) \<Longrightarrow> 3 \<le> h_version (m_header (pd_manifest p)) \<Longrightarrow>
      \<not> is_stipple (pd_footer pkg) \<Longrightarrow>
      \<exists>out w'. assemble lib im old (remote_of R p) (fetch_range (serve R)) w = Some (Inr out, w')"
proof -
  let ?fetch = "fetch_range (serve R)" and ?rem = "remote_of R p"
  have rem [simp]: "rp_footer ?rem = pd_footer p" "rp_manifest ?rem = pd_manifest p"
    by (simp_all add: remote_of_def)
  have old: "pd_file pkg = old" using load_file_footer [OF running(1)] by simp
  have written: "wo_staged w2 = R"
    if "plan_blocks pkg ?rem ?fetch (wo_src w) = (Inr pl, t)"
      "write_plan lib old ?rem (coalesce pl) ?fetch (w\<lparr> wo_src := t \<rparr>) = (Inr x, w2)" for pl t x w2
  proof (rule served.write_plan_is_release [OF that(2)])
    show "serving R (wo_src (w\<lparr> wo_src := t \<rparr>)) \<and> length R < 2 ^ 64"
      using blocks_plan_facts [OF release(1,2,4) serving that(1)] release(2) by simp
    show "plan_sound lib R ?rem (coalesce pl)"
      by (rule blocks_plan_sound [OF release(1,2,4) serving that(1)])
    show "{..< length R} \<subseteq> plan_bytes ?rem (coalesce pl)"
      by (rule blocks_plan_covers [OF release(1-4) serving that(1)])
  qed (rule release(2))
  show "assemble lib im old ?rem ?fetch w \<noteq> None"
    using release(5) running(1)
    by (simp add: assemble_def Let_def split: prod.splits sum.splits)
  show "wo_staged w' = R" if "assemble lib im old ?rem ?fetch w = Some (Inr out, w')"
    using that release(5) running(1) written
    by (auto simp: assemble_def old Let_def split: if_splits prod.splits sum.splits)
  show "\<exists>out w'. assemble lib im old ?rem ?fetch w = Some (Inr out, w')"
    if "plan_blocks pkg ?rem ?fetch (wo_src w) = (Inr pl, t)"
      "3 \<le> h_version (m_header (pd_manifest pkg))" "3 \<le> h_version (m_header (pd_manifest p))"
      "\<not> is_stipple (pd_footer pkg)"
  proof -
    have "serving R (wo_src (w\<lparr> wo_src := t \<rparr>)) \<and> length R < 2 ^ 64"
      using blocks_plan_facts [OF release(1,2,4) serving that(1)] release(2) by simp
    from answers.write_plan_ok [OF this blocks_plan_sound [OF release(1,2,4) serving that(1)] release(2)
        blocks_plan_local [OF running that(1)]]
    obtain x w2 where "write_plan lib old ?rem (coalesce pl) ?fetch (w\<lparr> wo_src := t \<rparr>) = (Inr x, w2)" by blast
    then show ?thesis using that release(5) running(1)
      by (cases x) (simp add: assemble_def old Let_def not_less)
  qed
qed


lemma sample_release_facts:
  "release_tiled sample_file sample_loaded" "release_vouched plain_lib sample_file sample_loaded"
  "\<not> is_stipple (pd_footer sample_loaded)" "f_manifest_compressed (pd_footer sample_loaded) \<le> MAX_PROBE_READ"
proof -
  have fb: "file_blocks sample_manifest = []"
    by (simp add: file_blocks_def sample_manifest_def sample_entry_def)
  have n: "unat (of_nat (length (serialize sample_manifest)) :: u64) = length (serialize sample_manifest)"
    using length_sample_manifest by (simp add: unat_of_nat)
  show "release_tiled sample_file sample_loaded"
    using n by (auto simp: release_tiled_def fb sample_loaded_def sample_load_footer_def length_sample_file
        FOOTER_SIZE_def release_dict_def)
  show "release_vouched plain_lib sample_file sample_loaded"
    by (simp add: release_vouched_def fb sample_loaded_def sample_load_footer_def)
  show "\<not> is_stipple (pd_footer sample_loaded)"
    by (simp add: sample_loaded_def sample_load_footer_def is_stipple_def flags_contains_def STORED_def
        STIPPLE_PAYLOAD_def)
  show "f_manifest_compressed (pd_footer sample_loaded) \<le> MAX_PROBE_READ"
    using length_sample_manifest
    by (simp add: sample_loaded_def sample_load_footer_def MAX_PROBE_READ_def word_le_nat_alt unat_of_nat)
qed

definition empty_image :: "(source, unit, unit) image_lib" where
  "empty_image = \<lparr> image_new = (\<lambda>_ _ _. returnS ()), image_sections = (\<lambda>_. []),
     image_open = (\<lambda>_ _ _. returnS ()), section_absent = (\<lambda>_. False), flag_variable_blocks = 1,
     image_flags = (\<lambda>_. 1), image_block_size = (\<lambda>_. 4096), blocks_count = (\<lambda>_. 0),
     blocks_get = (\<lambda>_ _. None), blocks_locate = (\<lambda>_ _. None), file_extents = (\<lambda>_ _. []) \<rparr>"


end
