(* ===== verification/Host_System.thy ===== *)
theory Host_System
  imports Delta_Assemble
begin

text \<open>
  The part of the host the updater works on: a file system of names and inodes, the calls of
  \<open>std::fs\<close> and \<open>rustix\<close> the updater makes, and the other processes of the host. Every call first
  lets the others act (\<open>os_others\<close>, indexed by the number of calls made so far), then fails or takes
  effect in one step (\<open>os_fails\<close>), and is recorded in a trace, so that what happens between two
  calls of the program, and in which order, can be stated. A file handle is the identity of its
  inode, which outlives its name.
\<close>

section \<open>Names and inodes\<close>

type_synonym ident = "u64 \<times> u64"

record inode =
  in_data :: bytes
  in_mode :: u32

datatype node = Regular inode | Link bytes | Directory

record fs =
  fs_names :: "bytes \<Rightarrow> ident option"
  fs_nodes :: "ident \<Rightarrow> node option"
  fs_locked :: "ident \<Rightarrow> bool"

text \<open>Following symbolic links as an open does, at most 40 of them.\<close>

primrec resolve_links :: "nat \<Rightarrow> fs \<Rightarrow> bytes \<Rightarrow> ident option" where
  "resolve_links 0 f p = None"
| "resolve_links (Suc n) f p =
     bind_opt (fs_names f p) (\<lambda>i.
     case fs_nodes f i of Some (Link target) \<Rightarrow> resolve_links n f target | _ \<Rightarrow> Some i)"

definition resolve :: "fs \<Rightarrow> bytes \<Rightarrow> ident option" where
  "resolve f p = resolve_links 41 f p"

definition inode_of :: "fs \<Rightarrow> ident \<Rightarrow> inode option" where
  "inode_of f i = (case fs_nodes f i of Some (Regular n) \<Rightarrow> Some n | _ \<Rightarrow> None)"

definition put_inode :: "ident \<Rightarrow> inode \<Rightarrow> fs \<Rightarrow> fs" where
  "put_inode i n f = f\<lparr> fs_nodes := (fs_nodes f)(i \<mapsto> Regular n) \<rparr>"

section \<open>Calls\<close>

datatype syscall =
    Looked
  | Created bytes ident
  | Wrote ident bytes
  | Chmod ident u32
  | Synced ident
  | Renamed bytes bytes ident
  | Removed bytes
  | Locked ident

text \<open>
  Each call reads the file system and gives an error, or its result, the file system after it and
  what it did. A new inode has an identity no file has; a rename of a name onto another name of the
  same inode does nothing, as POSIX has it.
\<close>

type_synonym 'a call = "fs \<Rightarrow> string + 'a \<times> fs \<times> syscall"

definition lstat_call :: "bytes \<Rightarrow> ident call" where
  "lstat_call p f = (case fs_names f p of None \<Rightarrow> Inl ''no such file'' | Some i \<Rightarrow> Inr (i, f, Looked))"

definition open_call :: "bytes \<Rightarrow> ident call" where
  "open_call p f =
     (case resolve f p of
        None \<Rightarrow> Inl ''no such file''
      | Some i \<Rightarrow> if fs_nodes f i = None then Inl ''no such file'' else Inr (i, f, Looked))"

definition read_call :: "ident \<Rightarrow> inode call" where
  "read_call i f = (case inode_of f i of None \<Rightarrow> Inl ''not a file'' | Some n \<Rightarrow> Inr (n, f, Looked))"

definition create_call :: "ident \<Rightarrow> bytes \<Rightarrow> ident call" where
  "create_call i p f =
     (if fs_names f p \<noteq> None then Inl ''file exists''
      else if fs_nodes f i \<noteq> None then Inl ''no inode''
      else Inr (i, put_inode i \<lparr> in_data = [], in_mode = 0x180 \<rparr> (f\<lparr> fs_names := (fs_names f)(p \<mapsto> i) \<rparr>),
                Created p i))"

definition write_call :: "ident \<Rightarrow> bytes \<Rightarrow> unit call" where
  "write_call i data f =
     (case inode_of f i of
        None \<Rightarrow> Inl ''not a file''
      | Some n \<Rightarrow> Inr ((), put_inode i (n\<lparr> in_data := data \<rparr>) f, Wrote i data))"

definition chmod_call :: "ident \<Rightarrow> u32 \<Rightarrow> unit call" where
  "chmod_call i mode f =
     (case inode_of f i of
        None \<Rightarrow> Inl ''not a file''
      | Some n \<Rightarrow> Inr ((), put_inode i (n\<lparr> in_mode := mode \<rparr>) f, Chmod i mode))"

definition sync_call :: "ident \<Rightarrow> unit call" where
  "sync_call i f = Inr ((), f, Synced i)"

definition rename_call :: "bytes \<Rightarrow> bytes \<Rightarrow> unit call" where
  "rename_call a b f =
     (case fs_names f a of
        None \<Rightarrow> Inl ''no such file''
      | Some i \<Rightarrow>
          if bind_opt (fs_names f b) (fs_nodes f) = Some Directory then Inl ''is a directory''
          else if fs_names f b = Some i then Inr ((), f, Renamed a b i)
          else Inr ((), f\<lparr> fs_names := (fs_names f)(a := None, b \<mapsto> i) \<rparr>, Renamed a b i))"

definition remove_call :: "bytes \<Rightarrow> unit call" where
  "remove_call p f =
     (case fs_names f p of
        None \<Rightarrow> Inl ''no such file''
      | Some i \<Rightarrow> if fs_nodes f i = Some Directory then Inl ''is a directory''
                 else Inr ((), f\<lparr> fs_names := (fs_names f)(p := None) \<rparr>, Removed p))"

definition lock_call :: "ident \<Rightarrow> unit call" where
  "lock_call i f =
     (if fs_locked f i then Inl ''locked''
      else Inr ((), f\<lparr> fs_locked := (fs_locked f)(i := True) \<rparr>, Locked i))"

section \<open>The program and the others\<close>

record os =
  os_others :: "nat \<Rightarrow> fs \<Rightarrow> fs"
  os_fails :: "nat \<Rightarrow> bool"
  os_fresh :: "nat \<Rightarrow> ident"
  os_random :: "nat \<Rightarrow> bytes"
  os_pid :: nat

record 's machine =
  mc_fs :: fs
  mc_src :: 's
  mc_clock :: nat
  mc_trace :: "(nat \<times> syscall) list"

type_synonym ('s, 'a) op = "('s machine, string, 'a) step"

definition sys :: "os \<Rightarrow> (nat \<Rightarrow> 'a call) \<Rightarrow> ('s, 'a) op" where
  "sys os c s =
     (let n = mc_clock s; f = os_others os n (mc_fs s); s' = s\<lparr> mc_fs := f, mc_clock := Suc n \<rparr>
      in if os_fails os n then (Inl ''failed'', s')
         else (case c n f of
                 Inl e \<Rightarrow> (Inl e, s')
               | Inr (x, f', what) \<Rightarrow> (Inr x, s'\<lparr> mc_fs := f', mc_trace := (n, what) # mc_trace s \<rparr>)))"

definition symlink_metadata :: "os \<Rightarrow> bytes \<Rightarrow> ('s, ident) op" where
  "symlink_metadata os p = sys os (\<lambda>_. lstat_call p)"

definition open_file :: "os \<Rightarrow> bytes \<Rightarrow> ('s, ident) op" where
  "open_file os p = sys os (\<lambda>_. open_call p)"

definition read_handle :: "os \<Rightarrow> ident \<Rightarrow> ('s, inode) op" where
  "read_handle os i = sys os (\<lambda>_. read_call i)"

definition create_new :: "os \<Rightarrow> bytes \<Rightarrow> ('s, ident) op" where
  "create_new os p = sys os (\<lambda>n. create_call (os_fresh os n) p)"

definition write_handle :: "os \<Rightarrow> ident \<Rightarrow> bytes \<Rightarrow> ('s, unit) op" where
  "write_handle os i data = sys os (\<lambda>_. write_call i data)"

definition fchmod :: "os \<Rightarrow> ident \<Rightarrow> u32 \<Rightarrow> ('s, unit) op" where
  "fchmod os i mode = sys os (\<lambda>_. chmod_call i mode)"

definition sync_all :: "os \<Rightarrow> ident \<Rightarrow> ('s, unit) op" where
  "sync_all os i = sys os (\<lambda>_. sync_call i)"

definition rename_file :: "os \<Rightarrow> bytes \<Rightarrow> bytes \<Rightarrow> ('s, unit) op" where
  "rename_file os a b = sys os (\<lambda>_. rename_call a b)"

definition remove_file :: "os \<Rightarrow> bytes \<Rightarrow> ('s, unit) op" where
  "remove_file os p = sys os (\<lambda>_. remove_call p)"

definition flock :: "os \<Rightarrow> ident \<Rightarrow> ('s, unit) op" where
  "flock os i = sys os (\<lambda>_. lock_call i)"

definition getrandom :: "os \<Rightarrow> ('s, bytes) op" where
  "getrandom os = sys os (\<lambda>n f. Inr (os_random os n, f, Looked))"

definition path_exists :: "os \<Rightarrow> bytes \<Rightarrow> ('s, bool) op" where
  "path_exists os p = sys os (\<lambda>_ f. Inr (resolve f p \<noteq> None, f, Looked))"

section \<open>Paths of the updater\<close>

text \<open>
  The path of the running binary is what the kernel reports for \<open>/proc/self/exe\<close>: absolute, without
  empty or dot components, so its file name is what follows the last slash.
\<close>

definition file_name :: "bytes \<Rightarrow> bytes" where
  "file_name p = (case rsplit_once slash p of None \<Rightarrow> p | Some (d, n) \<Rightarrow> n)"

definition with_file_name :: "bytes \<Rightarrow> bytes \<Rightarrow> bytes" where
  "with_file_name p name = (case rsplit_once slash p of None \<Rightarrow> name | Some (d, n) \<Rightarrow> d @ slash # name)"

definition parent_dir :: "bytes \<Rightarrow> bytes" where
  "parent_dir p = (case rsplit_once slash p of None \<Rightarrow> [] | Some (d, n) \<Rightarrow> if d = [] then [slash] else d)"

lemma with_file_name_suffix [simp]: "with_file_name p (file_name p @ ext) = p @ ext"
  by (auto simp: with_file_name_def file_name_def rsplit_once_Some_iff split: option.splits)

section \<open>What calls keep\<close>

lemma inode_of_put [simp]:
  "inode_of (put_inode i n f) j = (if i = j then Some n else inode_of f j)"
  "fs_names (put_inode i n f) = fs_names f" "fs_locked (put_inode i n f) = fs_locked f"
  by (simp_all add: inode_of_def put_inode_def)

lemma inode_of_other_fields [simp]:
  "inode_of (f\<lparr> fs_names := ns \<rparr>) i = inode_of f i" "inode_of (f\<lparr> fs_locked := l \<rparr>) i = inode_of f i"
  by (simp_all add: inode_of_def)

lemma inode_of_Some: "inode_of f i = Some n \<longleftrightarrow> fs_nodes f i = Some (Regular n)"
  by (auto simp: inode_of_def split: option.splits node.splits)

definition data_of :: "fs \<Rightarrow> ident \<Rightarrow> bytes option" where
  "data_of f i = map_option in_data (inode_of f i)"

lemma data_of_simps [simp]:
  "data_of (put_inode i n f) j = (if i = j then Some (in_data n) else data_of f j)"
  "data_of (f\<lparr> fs_names := ns \<rparr>) i = data_of f i" "data_of (f\<lparr> fs_locked := l \<rparr>) i = data_of f i"
  by (simp_all add: data_of_def)

text \<open>Processes that cannot write the file \<open>i\<close>: it is ours alone, or they have no right to.\<close>

definition leaves :: "os \<Rightarrow> ident \<Rightarrow> bool" where
  "leaves os i \<longleftrightarrow> (\<forall>n f. fs_nodes (os_others os n f) i = fs_nodes f i)"

definition keeps :: "ident \<Rightarrow> 's machine \<Rightarrow> 's machine \<Rightarrow> bool" where
  "keeps i s t \<longleftrightarrow> (\<forall>b. data_of (mc_fs s) i = Some b \<longrightarrow> data_of (mc_fs t) i = Some b)"

definition traces :: "(nat \<times> syscall \<Rightarrow> bool) \<Rightarrow> 's machine \<Rightarrow> 's machine \<Rightarrow> bool" where
  "traces Q s t \<longleftrightarrow> (\<exists>new. mc_trace t = new @ mc_trace s \<and> (\<forall>e \<in> set new. Q e))"

lemma keepsD: "keeps i s t \<Longrightarrow> data_of (mc_fs s) i = Some b \<Longrightarrow> data_of (mc_fs t) i = Some b"
  by (simp add: keeps_def)

lemma leaves_data [simp]: "leaves os i \<Longrightarrow> data_of (os_others os n f) i = data_of f i"
  by (simp add: leaves_def data_of_def inode_of_def)

lemma sys_cases:
  assumes "sys os c s = (r, t)"
  obtains (fails) e where "r = Inl e" "mc_fs t = os_others os (mc_clock s) (mc_fs s)"
      "mc_trace t = mc_trace s" "mc_src t = mc_src s" "mc_clock t = Suc (mc_clock s)"
  | (works) x f what where "c (mc_clock s) (os_others os (mc_clock s) (mc_fs s)) = Inr (x, f, what)"
      "r = Inr x" "mc_fs t = f" "mc_trace t = (mc_clock s, what) # mc_trace s" "mc_src t = mc_src s"
      "mc_clock t = Suc (mc_clock s)"
  using assms by (force simp: sys_def Let_def split: if_splits sum.splits)

text \<open>
  Relations between the state before and the state after that runs of steps keep: preservation of
  one file, and the kind of call in the trace.
\<close>

locale run_relation =
  fixes R :: "'s machine \<Rightarrow> 's machine \<Rightarrow> bool"
  assumes same: "R s s"
    and trans: "R s t \<Longrightarrow> R t u \<Longrightarrow> R s u"
begin

definition obeys :: "('s machine, 'e, 'a) step \<Rightarrow> bool" where
  "obeys m \<longleftrightarrow> (\<forall>s r t. m s = (r, t) \<longrightarrow> R s t)"

lemma obeysD: "obeys m \<Longrightarrow> m s = (r, t) \<Longrightarrow> R s t"
  by (simp add: obeys_def)

lemma obeys_pure: "obeys (returnS x)" "obeys (failS e)" "obeys (liftS v)"
  using same by (auto simp: obeys_def returnS_def failS_def liftS_def)

lemma obeys_seq: "obeys m \<Longrightarrow> (\<And>x. obeys (f x)) \<Longrightarrow> obeys (seqS m f)"
  unfolding obeys_def seqS_def by (fastforce intro: trans split: prod.splits sum.splits)

lemma obeys_if: "obeys m \<Longrightarrow> obeys k \<Longrightarrow> obeys (if b then m else k)"
  by simp

lemmas obeys_rules = obeys_pure obeys_seq obeys_if

end

interpretation kp: run_relation "keeps i" for i
  by unfold_locales (simp_all add: keeps_def)

interpretation tr: run_relation "traces Q" for Q
  by unfold_locales (force simp: traces_def)+

lemma sys_keeps:
  assumes "leaves os i"
    and "\<And>n f x f' w b. c n f = Inr (x, f', w) \<Longrightarrow> data_of f i = Some b \<Longrightarrow> data_of f' i = Some b"
  shows "kp.obeys i (sys os c)"
  unfolding kp.obeys_def
proof (intro allI impI)
  fix s t :: "'c machine" and r assume "sys os c s = (r, t)"
  then show "keeps i s t"
    by (cases rule: sys_cases) (use assms in \<open>auto simp: keeps_def\<close>)
qed

lemma sys_traces:
  assumes "\<And>n f x f' w k. c n f = Inr (x, f', w) \<Longrightarrow> Q (k, w)"
  shows "tr.obeys Q (sys os c)"
  unfolding tr.obeys_def
proof (intro allI impI)
  fix s t :: "'c machine" and r assume "sys os c s = (r, t)"
  then show "traces Q s t"
    by (cases rule: sys_cases) (use assms in \<open>auto simp: traces_def\<close>)
qed

lemmas op_defs = symlink_metadata_def open_file_def read_handle_def create_new_def write_handle_def fchmod_def
  sync_all_def rename_file_def remove_file_def flock_def getrandom_def path_exists_def

lemmas call_defs = lstat_call_def open_call_def read_call_def create_call_def write_call_def chmod_call_def
  sync_call_def rename_call_def remove_call_def lock_call_def

text \<open>A call keeps the bytes of a file unless it writes them; only a write through its handle does.\<close>

lemma data_of_nodes: "fs_nodes f i = None \<Longrightarrow> data_of f i = None"
  by (simp add: data_of_def inode_of_def)

lemma data_of_inode: "inode_of f i = Some n \<Longrightarrow> data_of f i = Some (in_data n)"
  by (simp add: data_of_def)

lemma create_call_data:
  assumes "create_call i p f = Inr (x, f', w)" "data_of f j = Some b"
  shows "i \<noteq> j" "data_of f' j = Some b"
  using assms data_of_nodes [of f i] by (auto simp: create_call_def split: if_splits)

lemma ops_keep:
  assumes "leaves os i"
  shows "kp.obeys i (symlink_metadata os p)" "kp.obeys i (open_file os p)" "kp.obeys i (read_handle os j)"
    "kp.obeys i (create_new os p)" "kp.obeys i (fchmod os j mode)" "kp.obeys i (sync_all os j)"
    "kp.obeys i (rename_file os p q)" "kp.obeys i (remove_file os p)" "kp.obeys i (flock os j)"
    "kp.obeys i (getrandom os)" "kp.obeys i (path_exists os p)"
    "j \<noteq> i \<Longrightarrow> kp.obeys i (write_handle os j data)"
  unfolding op_defs
  by (rule sys_keeps [OF assms];
      auto simp: call_defs(1-3,5-) data_of_inode dest: create_call_data split: option.splits if_splits)+

lemma ops_trace:
  "(\<And>n. Q (n, Looked)) \<Longrightarrow> tr.obeys Q (symlink_metadata os p)"
  "(\<And>n. Q (n, Looked)) \<Longrightarrow> tr.obeys Q (open_file os p)"
  "(\<And>n. Q (n, Looked)) \<Longrightarrow> tr.obeys Q (read_handle os j)"
  "(\<And>n. Q (n, Looked)) \<Longrightarrow> tr.obeys Q (getrandom os)"
  "(\<And>n. Q (n, Looked)) \<Longrightarrow> tr.obeys Q (path_exists os p)"
  "(\<And>n i. Q (n, Created p i)) \<Longrightarrow> tr.obeys Q (create_new os p)"
  "(\<And>n. Q (n, Chmod j mode)) \<Longrightarrow> tr.obeys Q (fchmod os j mode)"
  "(\<And>n. Q (n, Synced j)) \<Longrightarrow> tr.obeys Q (sync_all os j)"
  "(\<And>n i. Q (n, Renamed p q i)) \<Longrightarrow> tr.obeys Q (rename_file os p q)"
  "(\<And>n. Q (n, Removed p)) \<Longrightarrow> tr.obeys Q (remove_file os p)"
  "(\<And>n. Q (n, Locked j)) \<Longrightarrow> tr.obeys Q (flock os j)"
  "(\<And>n. Q (n, Wrote j data)) \<Longrightarrow> tr.obeys Q (write_handle os j data)"
  unfolding op_defs
  by (rule sys_traces; auto simp: call_defs split: option.splits if_splits)+

end
