(* ===== verification/Update_Gates.thy ===== *)
theory Update_Gates
  imports Host_System
begin

text \<open>
  The decisions of \<open>update/mod.rs\<close> that touch no file: the policy of a package, the keyring and the
  detached signature, the integrity check of an unsigned update, the revision of a package and the
  gate against downgrades. Ed25519 is a third-party crate: the fields of \<open>ed25519\<close>.
\<close>

section \<open>Policy and signatures\<close>

definition policy :: "bytes option \<Rightarrow> bool \<Rightarrow> string + bytes option" where
  "policy key marker =
     (case key of
        Some keys \<Rightarrow>
          if marker then Inl ''package has both a signing key and the unsigned marker''
          else Inr (Some keys)
      | None \<Rightarrow>
          if marker then Inr None
          else Inl ''self-update disabled: package has an update URL but no signing key'')"

record ('k, 'g) ed25519 =
  key_from_slice :: "bytes \<Rightarrow> 'k option"
  sig_from_slice :: "bytes \<Rightarrow> 'g option"
  key_verify :: "'k \<Rightarrow> bytes \<Rightarrow> 'g \<Rightarrow> bool"

definition verify_detached :: "('k, 'g) ed25519 \<Rightarrow> bytes \<Rightarrow> bytes \<Rightarrow> bytes \<Rightarrow> bool" where
  "verify_detached ed pubkey message signature =
     let_else (key_from_slice ed pubkey) False (\<lambda>pk.
     let_else (sig_from_slice ed signature) False (\<lambda>g.
     key_verify ed pk message g))"

text \<open>\<open>chunks(n)\<close> for \<open>n > 0\<close>: the last chunk may be shorter.\<close>

function chunks :: "nat \<Rightarrow> 'a list \<Rightarrow> 'a list list" where
  "chunks n xs = (if xs = [] \<or> n = 0 then [] else take n xs # chunks n (drop n xs))"
  by pat_completeness auto
termination
  by (relation "measure (length \<circ> snd)") auto

declare chunks.simps [simp del]

definition keyring :: "bytes \<Rightarrow> bytes list" where
  "keyring bs = filter (\<lambda>k. length k = 32) (chunks 32 bs)"

definition verify_update_signature :: "('k, 'g) ed25519 \<Rightarrow> bytes \<Rightarrow> bytes \<Rightarrow> bytes \<Rightarrow> string + unit" where
  "verify_update_signature ed staged sig keyring_bytes =
     (if length staged > usize_max then Inl ''map assembled binary: package too large to map''
      else if staged = [] then Inl ''map assembled binary: the downloaded update is empty''
      else
        let keys = keyring keyring_bytes
        in if \<exists>k \<in> set keys. verify_detached ed k staged sig then Inr ()
           else if length keys = 1 then Inl ''signature does not verify against the embedded key''
           else Inl ''signature does not verify against any of the embedded keys'')"

section \<open>Unsigned updates\<close>

definition hash_entry :: "'r lib \<Rightarrow> 'r package_data \<Rightarrow> entry \<Rightarrow> string + bytes" where
  "hash_entry lib pkg e =
     map_err (\<lambda>_. ''read unsigned payload'')
       (foldE (\<lambda>b acc. tryE (read_payload_entry lib (pd_file pkg) (pd_footer pkg) b (pd_codec pkg))
                       (\<lambda>data. Inr (acc @ data))) (e_blocks e) [])"

definition verify_unsigned :: "'r lib \<Rightarrow> bytes \<Rightarrow> string + unit" where
  "verify_unsigned lib staged =
     tryE (map_err (\<lambda>_. ''read unsigned package'') (load_file lib staged)) (\<lambda>pkg.
     if h_version (m_header (pd_manifest pkg)) < 3
     then Inl ''an unsigned update needs a version-3 manifest to check its runtime''
     else if blake3 lib (take (unat (f_manifest_offset (pd_footer pkg))) staged)
               \<noteq> h_prefix_hash (m_header (pd_manifest pkg))
     then Inl ''unsigned runtime prefix hash mismatch''
     else
       eachE (\<lambda>e.
         if e_kind e \<noteq> File then Inr ()
         else tryE (hash_entry lib pkg e) (\<lambda>data.
              if blake3 lib data \<noteq> e_content_hash e then Inl ''unsigned entry content hash mismatch''
              else Inr ()))
         (m_entries (pd_manifest pkg)))"

section \<open>Revisions\<close>

definition parse_revision :: "bytes \<Rightarrow> string + u64" where
  "parse_revision bs =
     ok_or ''.onelf/update-revision does not hold a number''
       (bind_opt (from_utf8 bs) (\<lambda>s. parse_u64 (trim s)))"

definition REVISION_PATH :: bytes where "REVISION_PATH = lit ''.onelf/update-revision''"

definition package_revision :: "'r lib \<Rightarrow> 'r package_data \<Rightarrow> string + u64 option" where
  "package_revision lib pkg =
     (if \<not> (\<exists>i \<in> set [0..<length (m_entries (pd_manifest pkg))].
               e_kind (m_entries (pd_manifest pkg) ! i) = File
             \<and> entry_path (pd_manifest pkg) i = REVISION_PATH)
      then Inr None
      else
        tryE (ok_or ''.onelf/update-revision cannot be read'' (read_package_file lib pkg REVISION_PATH)) (\<lambda>bs.
        tryE (parse_revision bs) (\<lambda>r. Inr (Some r))))"

record staged_info =
  si_id :: bytes
  si_revision :: "u64 option"

definition staged_info :: "'r lib \<Rightarrow> bytes \<Rightarrow> string + staged_info" where
  "staged_info lib file =
     tryE (map_err (\<lambda>_. ''the downloaded update is not a readable onelf package'') (load_file lib file)) (\<lambda>pkg.
     tryE (package_revision lib pkg) (\<lambda>revision.
     Inr \<lparr> si_id = h_package_id (m_header (pd_manifest pkg)), si_revision = revision \<rparr>))"

definition revision_permits :: "u64 option \<Rightarrow> u64 option \<Rightarrow> string + unit" where
  "revision_permits current downloaded =
     (case (current, downloaded) of
        (Some c, Some d) \<Rightarrow>
          if d \<le> c then Inl ''the downloaded revision is not newer than the running one; refusing to downgrade''
          else Inr ()
      | (Some c, None) \<Rightarrow> Inl ''the downloaded package carries no revision and the running one does''
      | (None, _) \<Rightarrow> Inr ())"

section \<open>What the gates decide\<close>

lemma policy_Inr_iff [simp]:
  "policy key marker = Inr p \<longleftrightarrow> p = key \<and> (key = None \<longleftrightarrow> marker)"
  by (auto simp: policy_def split: option.splits)

lemma chunks_concat [simp]: "0 < n \<Longrightarrow> concat (chunks n xs) = xs"
  by (induction n xs rule: chunks.induct) (subst chunks.simps, auto)

lemma chunks_blocks:
  "\<forall>k \<in> set ks. length k = n \<Longrightarrow> 0 < n \<Longrightarrow> length rest < n \<Longrightarrow>
     chunks n (concat ks @ rest) = ks @ (if rest = [] then [] else [rest])"
proof (induction ks)
  case Nil
  then show ?case by (auto simp: chunks.simps [of n rest] chunks.simps [of n "[]"])
next
  case (Cons k ks)
  then have "k \<noteq> []" by auto
  then show ?case using Cons by (subst chunks.simps) simp
qed

text \<open>A keyring holds the whole keys of its concatenation; a partial key at its end is no key.\<close>

lemma keyring_concat:
  assumes "\<forall>k \<in> set ks. length k = 32" "length rest < 32"
  shows "keyring (concat ks @ rest) = ks"
  using assms by (simp add: keyring_def chunks_blocks filter_id_conv)

lemma keyring_split:
  obtains rest where "bs = concat (keyring bs) @ rest" "length rest < 32" "\<forall>k \<in> set (keyring bs). length k = 32"
proof -
  have "\<exists>rest. bs = concat (keyring bs) @ rest \<and> length rest < 32"
  proof (induction "32 :: nat" bs rule: chunks.induct)
    case (1 xs)
    show ?case
    proof (cases "xs = []")
      case True
      then show ?thesis by (simp add: keyring_def chunks.simps)
    next
      case ne: False
      have eq: "chunks 32 xs = take 32 xs # chunks 32 (drop 32 xs)" using ne by (subst chunks.simps) simp
      show ?thesis
      proof (cases "32 \<le> length xs")
        case True
        then have "keyring xs = take 32 xs # keyring (drop 32 xs)" by (simp add: keyring_def eq)
        moreover obtain rest where "drop 32 xs = concat (keyring (drop 32 xs)) @ rest" "length rest < 32"
          using 1 ne by auto
        ultimately show ?thesis by (metis append_take_drop_id append.assoc concat.simps(2))
      next
        case False
        then have "keyring xs = []" by (simp add: keyring_def eq chunks.simps)
        then show ?thesis using False by (intro exI [of _ xs]) simp
      qed
    qed
  qed
  then show ?thesis
  proof (elim exE conjE)
    fix rest assume "bs = concat (keyring bs) @ rest" "length rest < 32"
    then show ?thesis by (rule that) (simp add: keyring_def)
  qed
qed

lemma verify_detached_iff:
  "verify_detached ed k m sig \<longleftrightarrow>
     (\<exists>pk g. key_from_slice ed k = Some pk \<and> sig_from_slice ed sig = Some g \<and> key_verify ed pk m g)"
  by (simp add: verify_detached_def let_else_def split: option.splits)

lemma verify_update_signature_Inr:
  "verify_update_signature ed staged sig kb = Inr u \<longleftrightarrow>
     staged \<noteq> [] \<and> length staged \<le> usize_max
     \<and> (\<exists>k \<in> set (keyring kb). \<exists>pk g. key_from_slice ed k = Some pk \<and> sig_from_slice ed sig = Some g
          \<and> key_verify ed pk staged g)"
  unfolding verify_update_signature_def Let_def verify_detached_iff by auto

lemma revision_permits_Inr:
  "revision_permits current downloaded = Inr u \<longleftrightarrow>
     (\<forall>c. current = Some c \<longrightarrow> (\<exists>d. downloaded = Some d \<and> c < d))"
  by (auto simp: revision_permits_def split: option.splits)

end
