(* ===== verification/Update_Install.thy ===== *)
theory Update_Install
  imports Update_Gates
begin

text \<open>
  The operations of \<open>update/mod.rs\<close> on the host: staging, fetching and verifying a release, and
  installing it over the running binary. They are steps on a \<open>machine\<close>; what is printed is left out
  but for the lines of standard output, which are values.
\<close>

section \<open>Staging files\<close>

definition hex_of :: "bytes \<Rightarrow> bytes" where
  "hex_of bs = concat (map show_hex2 bs)"

definition staged_path :: "os \<Rightarrow> bytes \<Rightarrow> ('s, bytes) op" where
  "staged_path os self_path =
     seqS (getrandom os) (\<lambda>random.
     if length random \<noteq> 8 then failS ''getrandom returned too few bytes''
     else returnS (with_file_name self_path
            (file_name self_path @ lit ''.onelf-update.'' @ show_nat (os_pid os) @ lit ''.''
               @ hex_of random @ lit ''.tmp'')))"

definition claim_staging :: "os \<Rightarrow> bytes \<Rightarrow> ('s, ident) op" where
  "claim_staging os p = create_new os p"

definition sibling_path :: "bytes \<Rightarrow> bytes \<Rightarrow> bytes" where
  "sibling_path self_path ext = with_file_name self_path (file_name self_path @ ext)"

definition discard :: "os \<Rightarrow> bytes \<Rightarrow> 's machine \<Rightarrow> 's machine" where
  "discard os p s = snd (remove_file os p s)"

definition copy_running :: "os \<Rightarrow> ident \<Rightarrow> bytes \<Rightarrow> bytes \<Rightarrow> ('s, unit) op" where
  "copy_running os running tmp prev_path =
     seqS (claim_staging os tmp) (\<lambda>out.
     seqS (read_handle os running) (\<lambda>src.
     seqS (write_handle os out (in_data src)) (\<lambda>_.
     seqS (read_handle os running) (\<lambda>meta.
     seqS (fchmod os out (in_mode meta)) (\<lambda>_.
     seqS (sync_all os out) (\<lambda>_.
     rename_file os tmp prev_path))))))"

definition save_rollback :: "os \<Rightarrow> ident \<Rightarrow> bytes \<Rightarrow> bytes \<Rightarrow> ('s, unit) op" where
  "save_rollback os running self_path prev_path =
     seqS (staged_path os self_path) (\<lambda>tmp s.
     case copy_running os running tmp prev_path s of
       (Inl e, t) \<Rightarrow> (Inl e, discard os tmp t)
     | (Inr _, t) \<Rightarrow> (Inr (), t))"

definition acquire :: "os \<Rightarrow> bytes \<Rightarrow> ('s, ident) op" where
  "acquire os p =
     seqS (open_file os p) (\<lambda>file.
     seqS (flock os file) (\<lambda>_.
     returnS file))"

section \<open>Fetching and verifying\<close>

text \<open>
  A release is what the trait \<open>RangeSource\<close> offers. The body of a whole release is the bytes its
  reader delivers and whether it then fails; a full download keeps at most one byte over the limit.
\<close>

record 's release =
  rl_size :: "('s, fetch_error, u64) step"
  rl_range :: "u64 \<Rightarrow> u64 \<Rightarrow> ('s, fetch_error, bytes) step"
  rl_whole :: "('s, fetch_error, bytes \<times> bool) step"
  rl_signature :: "('s, fetch_error, bytes) step"

definition on_source :: "('s, fetch_error, 'a) step \<Rightarrow> ('s, 'a) op" where
  "on_source m s = (case m (mc_src s) of (r, x) \<Rightarrow> (map_err (\<lambda>_. ''fetch'') r, s\<lparr> mc_src := x \<rparr>))"

definition copy_into :: "os \<Rightarrow> bytes \<times> bool \<Rightarrow> ident \<Rightarrow> u64 \<Rightarrow> ('s, unit) op" where
  "copy_into os body file limit =
     (let most = unat (saturating_add_u64 limit 1); data = take most (fst body)
      in seqS (write_handle os file data) (\<lambda>_.
         if snd body \<and> length (fst body) < most then failS ''read''
         else if length data > unat limit then failS ''the release is larger than it was probed at''
         else returnS ()))"

record staged_update =
  su_path :: bytes
  su_file :: ident
  su_identity :: ident

definition file_identity :: "os \<Rightarrow> ident \<Rightarrow> ('s, ident) op" where
  "file_identity os i = seqS (read_handle os i) (\<lambda>_. returnS i)"

type_synonym ('s, 'a) run = "'s machine \<Rightarrow> (nat + 'a) \<times> 's machine"

definition pin_verified :: "os \<Rightarrow> bytes \<Rightarrow> ident \<Rightarrow> ('s, staged_update) run" where
  "pin_verified os p file s =
     (case file_identity os file s of
        (Inr identity, t) \<Rightarrow> (Inr \<lparr> su_path = p, su_file = file, su_identity = identity \<rparr>, t)
      | (Inl _, t) \<Rightarrow> (Inl 2, discard os p t))"

definition verify_staged :: "os \<Rightarrow> 'r lib \<Rightarrow> ('k, 'g) ed25519 \<Rightarrow> (bytes \<times> bytes) option \<Rightarrow> ident \<Rightarrow> ('s, unit) op" where
  "verify_staged os lib ed pinned file =
     seqS (read_handle os file) (\<lambda>n.
     liftS (case pinned of
              Some (keys, sig) \<Rightarrow> verify_update_signature ed (in_data n) sig keys
            | None \<Rightarrow> verify_unsigned lib (in_data n)))"

definition full_download :: "os \<Rightarrow> 'r lib \<Rightarrow> ('k, 'g) ed25519 \<Rightarrow> 's release \<Rightarrow> (bytes \<times> bytes) option
    \<Rightarrow> bytes \<Rightarrow> ident \<Rightarrow> ('s, staged_update) run" where
  "full_download os lib ed rl pinned tmp staged s =
     (case seqS (on_source (rl_size rl)) (\<lambda>n. seqS (on_source (rl_whole rl)) (\<lambda>body. copy_into os body staged n)) s of
        (Inl _, t) \<Rightarrow> (Inl 2, discard os tmp t)
      | (Inr _, t) \<Rightarrow>
          (case verify_staged os lib ed pinned staged t of
             (Inl _, u) \<Rightarrow> (Inl 2, discard os tmp u)
           | (Inr _, u) \<Rightarrow> pin_verified os tmp staged u))"

text \<open>
  \<open>assemble\<close> reads the running binary by its name and writes through the staging handle. It is a
  partial function only through the slices of a stipplefs image, so it may be undefined on an image
  whose library misbehaves; then so is the fetch.
\<close>

definition assemble_staged :: "os \<Rightarrow> 'r lib \<Rightarrow> ('s, 'i, 'r) image_lib \<Rightarrow> 's release \<Rightarrow> bytes
    \<Rightarrow> remote_package \<Rightarrow> ident \<Rightarrow> 's machine \<Rightarrow> ((string + stats) \<times> 's machine) option" where
  "assemble_staged os lib im rl self_path remote staged s =
     (case seqS (open_file os self_path) (read_handle os) s of
        (Inl e, t) \<Rightarrow> Some (Inl e, t)
      | (Inr local, t) \<Rightarrow>
          (case read_handle os staged t of
             (Inl e, u) \<Rightarrow> Some (Inl e, u)
           | (Inr out, u) \<Rightarrow>
               (case assemble lib im (in_data local) remote (rl_range rl)
                       \<lparr> wo_staged = in_data out, wo_src = mc_src u \<rparr> of
                  None \<Rightarrow> None
                | Some (r, w) \<Rightarrow>
                    (case write_handle os staged (wo_staged w) (u\<lparr> mc_src := wo_src w \<rparr>) of
                       (Inl e, v) \<Rightarrow> Some (Inl e, v)
                     | (Inr _, v) \<Rightarrow> Some (r, v)))))"

definition fetch_verified :: "os \<Rightarrow> 'r lib \<Rightarrow> ('s, 'i, 'r) image_lib \<Rightarrow> ('k, 'g) ed25519 \<Rightarrow> 's release \<Rightarrow> bytes
    \<Rightarrow> bytes option \<Rightarrow> remote_package option \<Rightarrow> 's machine \<Rightarrow> ((nat + staged_update) \<times> 's machine) option" where
  "fetch_verified os lib im ed rl self_path pubkey remote s =
     (case (case pubkey of
              None \<Rightarrow> (Inr None, s)
            | Some keys \<Rightarrow> seqS (on_source (rl_signature rl)) (\<lambda>sig. returnS (Some (keys, sig))) s) of
        (Inl _, s1) \<Rightarrow> Some (Inl 2, s1)
      | (Inr pinned, s1) \<Rightarrow>
     (case staged_path os self_path s1 of
        (Inl _, s2) \<Rightarrow> Some (Inl 2, s2)
      | (Inr tmp, s2) \<Rightarrow>
     (case claim_staging os tmp s2 of
        (Inl _, s3) \<Rightarrow> Some (Inl 2, s3)
      | (Inr staged, s3) \<Rightarrow>
     (case remote of
        None \<Rightarrow> Some (full_download os lib ed rl pinned tmp staged s3)
      | Some rp \<Rightarrow>
     (case assemble_staged os lib im rl self_path rp staged s3 of
        None \<Rightarrow> None
      | Some (Inl why, s4) \<Rightarrow> Some (full_download os lib ed rl pinned tmp staged s4)
      | Some (Inr stats, s4) \<Rightarrow>
     (case verify_staged os lib ed pinned staged s4 of
        (Inr _, s5) \<Rightarrow> Some (pin_verified os tmp staged s5)
      | (Inl e, s5) \<Rightarrow>
          if st_reused stats > 0 \<or> pubkey = None
          then Some (full_download os lib ed rl pinned tmp staged s5)
          else Some (Inl 2, discard os tmp s5)))))))"

section \<open>Installing\<close>

datatype outcome =
    UpToDate bytes
  | NotOffered string
  | Offered "bytes option" bytes
  | Updated "bytes option" bytes
  | Refused

text \<open>The line an outcome prints is its constructor; the exit code of the process is this.\<close>

definition exit_code :: "outcome \<Rightarrow> nat" where
  "exit_code o' = (case o' of UpToDate _ \<Rightarrow> 0 | NotOffered _ \<Rightarrow> 0 | Offered _ _ \<Rightarrow> 1 | Updated _ _ \<Rightarrow> 0 | Refused \<Rightarrow> 2)"

definition refuse :: "os \<Rightarrow> bytes \<Rightarrow> 's machine \<Rightarrow> outcome \<times> 's machine" where
  "refuse os tmp s = (Refused, discard os tmp s)"

text \<open>From the re-check of the staged name on.\<close>

definition replace_running :: "os \<Rightarrow> bytes \<Rightarrow> bytes \<Rightarrow> staged_update \<Rightarrow> bytes option \<Rightarrow> bytes
    \<Rightarrow> 's machine \<Rightarrow> outcome \<times> 's machine" where
  "replace_running os self_path prev_path su local_id downloaded_id s =
     (case symlink_metadata os (su_path su) s of
        (Inl _, s1) \<Rightarrow> refuse os (su_path su) s1
      | (Inr i, s1) \<Rightarrow>
          if i \<noteq> su_identity su then refuse os (su_path su) s1
          else
     (case rename_file os (su_path su) self_path s1 of
        (Inl _, s2) \<Rightarrow>
          (case path_exists os self_path s2 of
             (Inr True, s3) \<Rightarrow> refuse os (su_path su) s3
           | (_, s3) \<Rightarrow> refuse os (su_path su) (snd (rename_file os prev_path self_path s3)))
      | (Inr _, s2) \<Rightarrow>
          (Updated local_id downloaded_id, snd (seqS (open_file os (parent_dir self_path)) (sync_all os) s2))))"

definition install_staged :: "os \<Rightarrow> 'r lib \<Rightarrow> bytes \<Rightarrow> ident \<Rightarrow> bytes option \<Rightarrow> u64 option \<Rightarrow> staged_update
    \<Rightarrow> 's machine \<Rightarrow> outcome \<times> 's machine" where
  "install_staged os lib self_path lock local_id current_revision su s =
     (let tmp = su_path su; prev_path = sibling_path self_path (lit ''.onelf-prev'')
      in
     (case seqS (read_handle os (su_file su)) (\<lambda>n. liftS (staged_info lib (in_data n))) s of
        (Inl _, s1) \<Rightarrow> refuse os tmp s1
      | (Inr info, s1) \<Rightarrow>
          if Some (si_id info) = local_id then (UpToDate (si_id info), discard os tmp s1)
          else
     (case revision_permits current_revision (si_revision info) of
        Inl why \<Rightarrow> (NotOffered why, discard os tmp s1)
      | Inr _ \<Rightarrow>
     (case file_identity os lock s1 of
        (locked, s2) \<Rightarrow>
     (case symlink_metadata os self_path s2 of
        (Inl _, s3) \<Rightarrow> refuse os tmp s3
      | (Inr named, s3) \<Rightarrow>
          if locked \<noteq> Inr named then refuse os tmp s3
          else
     (case read_handle os lock s3 of
        (meta, s4) \<Rightarrow>
          let mode = (case meta of Inr n \<Rightarrow> in_mode n | Inl _ \<Rightarrow> 0x1ED)
          in
     (case fchmod os (su_file su) mode s4 of
        (Inl _, s5) \<Rightarrow> refuse os tmp s5
      | (Inr _, s5) \<Rightarrow>
     (case save_rollback os lock self_path prev_path s5 of
        (Inl _, s6) \<Rightarrow> refuse os tmp s6
      | (Inr _, s6) \<Rightarrow>
     (case sync_all os (su_file su) s6 of
        (_, s7) \<Rightarrow> replace_running os self_path prev_path su local_id (si_id info) s7)))))))))"

definition report_available :: "bytes option \<Rightarrow> bytes \<Rightarrow> u64 option \<Rightarrow> u64 option \<Rightarrow> outcome" where
  "report_available local_id staged_id current_revision staged_revision =
     (case revision_permits current_revision staged_revision of
        Inl why \<Rightarrow> NotOffered why
      | Inr _ \<Rightarrow> Offered local_id staged_id)"

definition check_verdict :: "os \<Rightarrow> 'r lib \<Rightarrow> bytes option \<Rightarrow> u64 option \<Rightarrow> staged_update
    \<Rightarrow> 's machine \<Rightarrow> outcome \<times> 's machine" where
  "check_verdict os lib local_id current_revision su s =
     (case seqS (read_handle os (su_file su)) (\<lambda>n. liftS (staged_info lib (in_data n))) s of
        (info, s1) \<Rightarrow>
          (case info of
             Inl _ \<Rightarrow> Refused
           | Inr i \<Rightarrow>
               if Some (si_id i) = local_id then UpToDate (si_id i)
               else report_available local_id (si_id i) current_revision (si_revision i),
           discard os (su_path su) s1))"

section \<open>The two actions\<close>

definition local_package_id :: "os \<Rightarrow> 'r lib \<Rightarrow> bytes \<Rightarrow> 's machine \<Rightarrow> bytes option \<times> 's machine" where
  "local_package_id os lib self_path s =
     (case seqS (open_file os self_path) (read_handle os) s of
        (Inl _, t) \<Rightarrow> (None, t)
      | (Inr n, t) \<Rightarrow>
          (case load_file lib (in_data n) of
             Inl _ \<Rightarrow> (None, t)
           | Inr pkg \<Rightarrow> (Some (h_package_id (m_header (pd_manifest pkg))), t)))"

definition probe_release :: "'r lib \<Rightarrow> 's release \<Rightarrow> 's machine \<Rightarrow> (fetch_error + remote_package) \<times> 's machine" where
  "probe_release lib rl s =
     (case probe lib (rl_size rl) (rl_range rl) (mc_src s) of (r, x) \<Rightarrow> (r, s\<lparr> mc_src := x \<rparr>))"

definition apply_update :: "os \<Rightarrow> 'r lib \<Rightarrow> ('s, 'i, 'r) image_lib \<Rightarrow> ('k, 'g) ed25519 \<Rightarrow> 's release \<Rightarrow> bytes
    \<Rightarrow> bytes option \<Rightarrow> u64 option \<Rightarrow> 's machine \<Rightarrow> (outcome \<times> 's machine) option" where
  "apply_update os lib im ed rl self_path pubkey current_revision s =
     (case acquire os self_path s of
        (Inl _, s1) \<Rightarrow> Some (Refused, s1)
      | (Inr lock, s1) \<Rightarrow>
     (case local_package_id os lib self_path s1 of
        (local_id, s2) \<Rightarrow>
     (case probe_release lib rl s2 of
        (Inl (Other _), s3) \<Rightarrow> Some (Refused, s3)
      | (probed, s3) \<Rightarrow>
          let remote = (case probed of Inr rp \<Rightarrow> Some rp | Inl _ \<Rightarrow> None)
          in if remote \<noteq> None \<and> map_option package_id remote = local_id
             then Some (UpToDate (package_id (the remote)), s3)
             else
     (case fetch_verified os lib im ed rl self_path pubkey remote s3 of
        None \<Rightarrow> None
      | Some (Inl _, s4) \<Rightarrow> Some (Refused, s4)
      | Some (Inr su, s4) \<Rightarrow> Some (install_staged os lib self_path lock local_id current_revision su s4)))))"

definition check_update :: "os \<Rightarrow> 'r lib \<Rightarrow> ('s, 'i, 'r) image_lib \<Rightarrow> ('k, 'g) ed25519 \<Rightarrow> 's release \<Rightarrow> bytes
    \<Rightarrow> bytes option \<Rightarrow> u64 option \<Rightarrow> 's machine \<Rightarrow> (outcome \<times> 's machine) option" where
  "check_update os lib im ed rl self_path pubkey current_revision s =
     (case local_package_id os lib self_path s of
        (local_id, s1) \<Rightarrow>
     (case probe_release lib rl s1 of
        (Inl (Other _), s2) \<Rightarrow> Some (Refused, s2)
      | (Inl NoRanges, s2) \<Rightarrow>
          (case fetch_verified os lib im ed rl self_path pubkey None s2 of
             None \<Rightarrow> None
           | Some (Inl _, s3) \<Rightarrow> Some (Refused, s3)
           | Some (Inr su, s3) \<Rightarrow> Some (check_verdict os lib local_id current_revision su s3))
      | (Inr rp, s2) \<Rightarrow>
          if Some (package_id rp) = local_id then Some (UpToDate (package_id rp), s2)
          else if current_revision = None then Some (Offered local_id (package_id rp), s2)
          else
          (case fetch_verified os lib im ed rl self_path pubkey (Some rp) s2 of
             None \<Rightarrow> None
           | Some (Inl _, s3) \<Rightarrow> Some (Refused, s3)
           | Some (Inr su, s3) \<Rightarrow> Some (check_verdict os lib local_id current_revision su s3))))"

datatype update_flag = Check | Apply

definition run_update :: "os \<Rightarrow> 'r lib \<Rightarrow> ('s, 'i, 'r) image_lib \<Rightarrow> ('k, 'g) ed25519 \<Rightarrow> 's release \<Rightarrow> update_flag
    \<Rightarrow> bytes \<Rightarrow> bytes \<Rightarrow> bytes option \<Rightarrow> u64 option \<Rightarrow> 's machine \<Rightarrow> (outcome \<times> 's machine) option" where
  "run_update os lib im ed rl flag self_path update_url pubkey current_revision s =
     (if \<not> prefix (lit ''https://'') update_url then Some (Refused, s)
      else (case flag of
              Check \<Rightarrow> check_update os lib im ed rl self_path pubkey current_revision s
            | Apply \<Rightarrow> apply_update os lib im ed rl self_path pubkey current_revision s))"

definition parse_flag :: "bytes list \<Rightarrow> update_flag option" where
  "parse_flag args =
     (if lit ''--onelf-update'' \<in> set args then Some Apply
      else if lit ''--onelf-check-update'' \<in> set args then Some Check
      else None)"

end
