(* ===== verification/Install_Safety.thy ===== *)
theory Install_Safety
  imports Update_Install
begin

text \<open>
  What an update may do whatever other processes do meanwhile: the bytes a handle was verified
  through stay what they were, and the only rename over the running binary is of that very inode.
\<close>

section \<open>What the install keeps and does\<close>

definition no_rename_to :: "bytes \<Rightarrow> nat \<times> syscall \<Rightarrow> bool" where
  "no_rename_to p e \<longleftrightarrow> (\<forall>a i. snd e \<noteq> Renamed a p i)"

lemma no_rename_to_simps [simp]:
  "no_rename_to p (n, Looked)" "no_rename_to p (n, Created q i)" "no_rename_to p (n, Wrote i b)"
  "no_rename_to p (n, Chmod i m)" "no_rename_to p (n, Synced i)" "no_rename_to p (n, Removed q)"
  "no_rename_to p (n, Locked i)" "no_rename_to p (n, Renamed a q i) \<longleftrightarrow> q \<noteq> p"
  by (simp_all add: no_rename_to_def)

lemma discard_obeys:
  "leaves os i \<Longrightarrow> keeps i s (discard os p s)"
  "traces (no_rename_to q) s (discard os p s)"
  unfolding discard_def
  by (rule kp.obeysD [OF ops_keep(8) prod.collapse [symmetric]], simp)
    (rule tr.obeysD [OF ops_trace(10) prod.collapse [symmetric]], simp)

lemma staged_path_obeys:
  "leaves os i \<Longrightarrow> kp.obeys i (staged_path os p)" "tr.obeys (no_rename_to q) (staged_path os p)"
  unfolding staged_path_def
  by (intro kp.obeys_rules tr.obeys_rules ops_keep ops_trace; simp)+

lemma copy_running_traces:
  "prev_path \<noteq> q \<Longrightarrow> tr.obeys (no_rename_to q) (copy_running os running tmp prev_path)"
  unfolding copy_running_def claim_staging_def
  by (intro tr.obeys_rules ops_trace; simp)

lemma save_rollback_traces:
  assumes "prev_path \<noteq> q"
  shows "tr.obeys (no_rename_to q) (save_rollback os running self_path prev_path)"
  unfolding save_rollback_def
proof (rule tr.obeys_seq [OF staged_path_obeys(2)])
  fix tmp
  show "tr.obeys (no_rename_to q) (\<lambda>s. case copy_running os running tmp prev_path s of
      (Inl e, t) \<Rightarrow> (Inl e, discard os tmp t) | (Inr _, t) \<Rightarrow> (Inr (), t))"
    unfolding tr.obeys_def
    by (auto split: prod.splits sum.splits dest!: tr.obeysD [OF copy_running_traces [OF assms]]
        intro: tr.trans discard_obeys(2))
qed

lemma create_new_other:
  assumes "create_new os p s = (Inr out, t)" "leaves os i" "data_of (mc_fs s) i = Some b"
  shows "out \<noteq> i" "data_of (mc_fs t) i = Some b"
proof -
  have "out \<noteq> i \<and> data_of (mc_fs t) i = Some b"
    using assms(1) unfolding create_new_def
  proof (cases rule: sys_cases)
    case (works x f what)
    have d: "data_of (os_others os (mc_clock s) (mc_fs s)) i = Some b" using assms(2,3) by simp
    have "x = os_fresh os (mc_clock s)" using works(1) by (simp add: create_call_def split: if_splits)
    then show ?thesis using create_call_data [OF works(1) d] works(2,3) by simp
  qed simp
  then show "out \<noteq> i" "data_of (mc_fs t) i = Some b" by simp_all
qed

lemma copy_running_keeps:
  assumes "leaves os i" "data_of (mc_fs s) i = Some b" "copy_running os running tmp prev_path s = (r, t)"
  shows "data_of (mc_fs t) i = Some b"
proof -
  obtain q u where q: "create_new os tmp s = (q, u)" by fastforce
  show ?thesis
  proof (cases q)
    case (Inl e)
    then have "t = u" using assms(3) q by (simp add: copy_running_def claim_staging_def)
    then show ?thesis using kp.obeysD [OF ops_keep(4) [OF assms(1)] q] assms(2) by (auto dest: keepsD)
  next
    case (Inr out)
    note o = create_new_other [OF q [unfolded Inr] assms(1,2)]
    have "kp.obeys i (seqS (read_handle os running) (\<lambda>src.
       seqS (write_handle os out (in_data src)) (\<lambda>_. seqS (read_handle os running) (\<lambda>meta.
       seqS (fchmod os out (in_mode meta)) (\<lambda>_. seqS (sync_all os out) (\<lambda>_. rename_file os tmp prev_path))))))"
      using o(1) by (intro kp.obeys_rules ops_keep assms(1))
    from kp.obeysD [OF this] have "keeps i u t"
      using assms(3) q Inr by (simp add: copy_running_def claim_staging_def)
    then show ?thesis using o(2) by (rule keepsD)
  qed
qed

lemma save_rollback_keeps:
  assumes "leaves os i" "data_of (mc_fs s) i = Some b" "save_rollback os running self_path prev_path s = (r, t)"
  shows "data_of (mc_fs t) i = Some b"
proof -
  obtain q u where q: "staged_path os self_path s = (q, u)" by fastforce
  have u: "data_of (mc_fs u) i = Some b"
    using kp.obeysD [OF staged_path_obeys(1) [OF assms(1)] q] assms(2) by (rule keepsD)
  show ?thesis
  proof (cases q)
    case (Inr tmp)
    obtain r' v where v: "copy_running os running tmp prev_path u = (r', v)" by fastforce
    have "data_of (mc_fs v) i = Some b" by (rule copy_running_keeps [OF assms(1) u v])
    moreover have "t = v \<or> t = discard os tmp v"
      using assms(3) q v Inr by (auto simp: save_rollback_def split: sum.splits)
    ultimately show ?thesis using keepsD [OF discard_obeys(1) [OF assms(1)]] by blast
  qed (use assms(3) q u in \<open>simp add: save_rollback_def\<close>)
qed

text \<open>
  A rename over the running binary's name is of the pinned inode, unless others rebound the staged
  name in the one step between its last check and the rename; or it puts the rollback copy back.
\<close>

definition undisturbed :: "os \<Rightarrow> nat \<Rightarrow> bytes \<Rightarrow> bool" where
  "undisturbed os n p \<longleftrightarrow> (\<forall>f. fs_names (os_others os n f) p = fs_names f p)"

definition pinned_rename :: "os \<Rightarrow> bytes \<Rightarrow> bytes \<Rightarrow> staged_update \<Rightarrow> nat \<times> syscall \<Rightarrow> bool" where
  "pinned_rename os self_path prev_path su e \<longleftrightarrow>
     (\<forall>n a i. e = (n, Renamed a self_path i) \<longrightarrow>
        a = prev_path \<or> a = su_path su \<and> (undisturbed os n (su_path su) \<longrightarrow> i = su_identity su))"

lemma no_rename_pinned: "no_rename_to p e \<Longrightarrow> pinned_rename os p q su e"
  by (auto simp: no_rename_to_def pinned_rename_def)

lemma traces_mono: "traces P s t \<Longrightarrow> (\<And>e. P e \<Longrightarrow> Q e) \<Longrightarrow> traces Q s t"
  by (auto simp: traces_def)

lemma symlink_metadata_Inr:
  assumes "symlink_metadata os p s = (Inr i, t)"
  shows "fs_names (mc_fs t) p = Some i"
  using assms unfolding symlink_metadata_def
  by (cases rule: sys_cases) (auto simp: lstat_call_def split: option.splits)

lemma rename_traces:
  assumes "rename_file os a p s = (r, t)" "\<And>n. undisturbed os n a \<Longrightarrow> fs_names (mc_fs s) a = Some i"
    and "a = su_path su" "i = su_identity su"
  shows "traces (pinned_rename os p q su) s t"
  using assms(1) unfolding rename_file_def
proof (cases rule: sys_cases)
  case (works x f what)
  then obtain j where j: "fs_names (os_others os (mc_clock s) (mc_fs s)) a = Some j" "what = Renamed a p j"
    by (auto simp: rename_call_def split: option.splits if_splits)
  have "undisturbed os (mc_clock s) a \<longrightarrow> j = i"
    using assms(2) [of "mc_clock s"] j(1) by (auto simp: undisturbed_def)
  then show ?thesis using works(4) j(2) assms(3,4) by (auto simp: traces_def pinned_rename_def)
qed (simp add: traces_def)

lemma refuse_obeys:
  assumes "refuse os tmp s = (r, t)"
  shows "leaves os i \<Longrightarrow> keeps i s t" "traces (pinned_rename os p q su) s t"
  using assms discard_obeys(1) [of os i s tmp] traces_mono [OF discard_obeys(2) no_rename_pinned]
  by (auto simp: refuse_def)

lemma replace_running_pinned:
  assumes "replace_running os self_path prev_path su l d s = (r, t)"
  shows "traces (pinned_rename os self_path prev_path su) s t"
proof -
  let ?Q = "pinned_rename os self_path prev_path su"
  obtain x s1 where s1: "symlink_metadata os (su_path su) s = (x, s1)" by fastforce
  have Q1: "traces ?Q s s1"
    by (rule tr.obeysD [OF ops_trace(1) s1]) (simp add: no_rename_pinned)
  show ?thesis
  proof (cases "x = Inr (su_identity su)")
    case False
    then have "refuse os (su_path su) s1 = (r, t)"
      using assms s1 by (auto simp: replace_running_def split: sum.splits if_splits)
    from tr.trans [OF Q1 refuse_obeys(2) [OF this]] show ?thesis .
  next
    case True
    obtain y s2 where s2: "rename_file os (su_path su) self_path s1 = (y, s2)" by fastforce
    have "traces ?Q s1 s2"
      by (rule rename_traces [OF s2 _ refl refl]) (rule symlink_metadata_Inr [OF s1 [unfolded True]])
    then have Q2: "traces ?Q s s2" by (rule tr.trans [OF Q1])
    show ?thesis
    proof (cases y)
      case (Inr _)
      then have "t = snd (seqS (open_file os (parent_dir self_path)) (sync_all os) s2)"
        using assms s1 s2 True by (simp add: replace_running_def)
      moreover have "tr.obeys ?Q (seqS (open_file os (parent_dir self_path)) (sync_all os))"
        by (intro tr.obeys_rules ops_trace) (simp_all add: no_rename_pinned)
      ultimately show ?thesis using tr.trans [OF Q2] tr.obeysD by (metis prod.collapse)
    next
      case (Inl e)
      obtain z s3 where s3: "path_exists os self_path s2 = (z, s3)" by fastforce
      have "traces ?Q s2 s3" by (rule tr.obeysD [OF ops_trace(5) s3]) (simp add: no_rename_pinned)
      then have Q3: "traces ?Q s s3" by (rule tr.trans [OF Q2])
      define s4 where "s4 = snd (rename_file os prev_path self_path s3)"
      have "traces ?Q s3 s4" unfolding s4_def
        by (rule tr.obeysD [OF ops_trace(9) prod.collapse [symmetric]]) (simp add: pinned_rename_def)
      then have Q4: "traces ?Q s s4" by (rule tr.trans [OF Q3])
      have "refuse os (su_path su) s3 = (r, t) \<or> refuse os (su_path su) s4 = (r, t)"
        using assms s1 s2 s3 True Inl by (simp add: replace_running_def s4_def split: sum.splits bool.splits)
      then show ?thesis using tr.trans [OF Q3 refuse_obeys(2)] tr.trans [OF Q4 refuse_obeys(2)] by blast
    qed
  qed
qed

lemma replace_running_keeps:
  assumes "replace_running os self_path prev_path su l d s = (r, t)" "leaves os i"
  shows "keeps i s t"
proof -
  note k = kp.obeysD [OF ops_keep(1) [OF assms(2)]] kp.obeysD [OF ops_keep(7) [OF assms(2)]]
    kp.obeysD [OF ops_keep(11) [OF assms(2)]]
  obtain x s1 where s1: "symlink_metadata os (su_path su) s = (x, s1)" by fastforce
  obtain y s2 where s2: "rename_file os (su_path su) self_path s1 = (y, s2)" by fastforce
  obtain z s3 where s3: "path_exists os self_path s2 = (z, s3)" by fastforce
  obtain w s4 where s4: "rename_file os prev_path self_path s3 = (w, s4)" by fastforce
  obtain v s5 where s5: "seqS (open_file os (parent_dir self_path)) (sync_all os) s2 = (v, s5)" by fastforce
  have K: "keeps i s s1" "keeps i s s2" "keeps i s s3" "keeps i s s4" "keeps i s s5"
  proof -
    show 1: "keeps i s s1" by (rule k(1) [OF s1])
    show 2: "keeps i s s2" by (rule kp.trans [OF 1 k(2) [OF s2]])
    show 3: "keeps i s s3" by (rule kp.trans [OF 2 k(3) [OF s3]])
    show "keeps i s s4" by (rule kp.trans [OF 3 k(2) [OF s4]])
    have "kp.obeys i (seqS (open_file os (parent_dir self_path)) (sync_all os))"
      by (intro kp.obeys_rules ops_keep assms(2))
    from kp.obeysD [OF this s5] show "keeps i s s5" by (rule kp.trans [OF 2])
  qed
  have "t = s5 \<or> (\<exists>u \<in> {s1, s3, s4}. refuse os (su_path su) u = (r, t))"
    using assms(1) s1 s2 s3 s4 s5
    by (simp add: replace_running_def split: sum.splits bool.splits if_splits)
  then show ?thesis using K kp.trans refuse_obeys(1) assms(2) by (metis insertE empty_iff)
qed

lemma read_handle_Inr:
  assumes "read_handle os i s = (Inr n, t)" "leaves os i" "data_of (mc_fs s) i = Some b"
  shows "in_data n = b" "data_of (mc_fs t) i = Some b"
proof -
  have "in_data n = b \<and> data_of (mc_fs t) i = Some b"
    using assms(1) unfolding read_handle_def
  proof (cases rule: sys_cases)
    case (works x f what)
    have "data_of (os_others os (mc_clock s) (mc_fs s)) i = Some b" using assms(2,3) by simp
    then show ?thesis using works(1-3) by (auto simp: read_call_def data_of_def split: option.splits)
  qed simp
  then show "in_data n = b" "data_of (mc_fs t) i = Some b" by simp_all
qed

lemma sibling_differs: "ext \<noteq> [] \<Longrightarrow> sibling_path p ext \<noteq> p"
  by (simp add: sibling_path_def)

definition gates_pass :: "'r lib \<Rightarrow> bytes option \<Rightarrow> u64 option \<Rightarrow> bytes \<Rightarrow> bool" where
  "gates_pass lib local_id current_revision b \<longleftrightarrow>
     (\<exists>info. staged_info lib b = Inr info \<and> Some (si_id info) \<noteq> local_id
        \<and> revision_permits current_revision (si_revision info) = Inr ())"

lemma refuse_traces: "refuse os tmp s = (r, t) \<Longrightarrow> traces (no_rename_to q) s t"
  using discard_obeys(2) by (auto simp: refuse_def)

lemma staged_read:
  assumes "seqS (read_handle os i) (\<lambda>n. liftS (f (in_data n))) s = (r, t)"
    and "leaves os i" "data_of (mc_fs s) i = Some b"
  shows "data_of (mc_fs t) i = Some b" "traces (no_rename_to q) s t" "r = Inr x \<Longrightarrow> f b = Inr x"
proof -
  have k: "kp.obeys i (seqS (read_handle os i) (\<lambda>n. liftS (f (in_data n))))"
    by (intro kp.obeys_rules ops_keep assms(2))
  show "data_of (mc_fs t) i = Some b" by (rule keepsD [OF kp.obeysD [OF k assms(1)] assms(3)])
  have "tr.obeys (no_rename_to q) (seqS (read_handle os i) (\<lambda>n. liftS (f (in_data n))))"
    by (intro tr.obeys_rules ops_trace) simp
  from tr.obeysD [OF this assms(1)] show "traces (no_rename_to q) s t" .
  assume "r = Inr x"
  with assms(1) obtain n u where u: "read_handle os i s = (Inr n, u)" "liftS (f (in_data n)) u = (Inr x, t)"
    by (auto elim: seqS_Inr)
  then show "f b = Inr x" using read_handle_Inr(1) [OF u(1) assms(2,3)] by simp
qed

text \<open>The stages of an install that is not refused before the staged name is checked again.\<close>

lemma install_stages:
  assumes run: "install_staged os lib self_path lock local_id cur su s = (r, t)"
  obtains (stopped) s1 x where
      "seqS (read_handle os (su_file su)) (\<lambda>n. liftS (staged_info lib (in_data n))) s = (x, s1)"
      "t = discard os (su_path su) s1"
      "\<And>l d. r \<noteq> Updated l d" "\<And>i. x = Inr i \<Longrightarrow> Some (si_id i) = local_id \<or> revision_permits cur (si_revision i) \<noteq> Inr ()"
  | (unlocked) info s1 x s2 y s3 where
      "seqS (read_handle os (su_file su)) (\<lambda>n. liftS (staged_info lib (in_data n))) s = (Inr info, s1)"
      "Some (si_id info) \<noteq> local_id" "revision_permits cur (si_revision info) = Inr ()"
      "file_identity os lock s1 = (x, s2)" "symlink_metadata os self_path s2 = (y, s3)" "(\<exists>e. y = Inl e) \<or> x \<noteq> y"
      "refuse os (su_path su) s3 = (r, t)"
  | (unsaved) info s1 named s2 s3 m s4 x s5 y s6 where
      "seqS (read_handle os (su_file su)) (\<lambda>n. liftS (staged_info lib (in_data n))) s = (Inr info, s1)"
      "Some (si_id info) \<noteq> local_id" "revision_permits cur (si_revision info) = Inr ()"
      "file_identity os lock s1 = (Inr named, s2)" "symlink_metadata os self_path s2 = (Inr named, s3)"
      "read_handle os lock s3 = (m, s4)"
      "fchmod os (su_file su) (case m of Inr n \<Rightarrow> in_mode n | Inl _ \<Rightarrow> 0x1ED) s4 = (x, s5)"
      "save_rollback os lock self_path (sibling_path self_path (lit ''.onelf-prev'')) s5 = (y, s6)"
      "refuse os (su_path su) s5 = (r, t) \<or> refuse os (su_path su) s6 = (r, t)"
  | (replaced) info s1 named s2 s3 m s4 s5 s6 x s7 where
      "seqS (read_handle os (su_file su)) (\<lambda>n. liftS (staged_info lib (in_data n))) s = (Inr info, s1)"
      "Some (si_id info) \<noteq> local_id" "revision_permits cur (si_revision info) = Inr ()"
      "file_identity os lock s1 = (Inr named, s2)" "symlink_metadata os self_path s2 = (Inr named, s3)"
      "read_handle os lock s3 = (m, s4)"
      "fchmod os (su_file su) (case m of Inr n \<Rightarrow> in_mode n | Inl _ \<Rightarrow> 0x1ED) s4 = (Inr (), s5)"
      "save_rollback os lock self_path (sibling_path self_path (lit ''.onelf-prev'')) s5 = (Inr (), s6)"
      "sync_all os (su_file su) s6 = (x, s7)"
      "replace_running os self_path (sibling_path self_path (lit ''.onelf-prev'')) su local_id (si_id info) s7 = (r, t)"
proof -
  let ?prev = "sibling_path self_path (lit ''.onelf-prev'')"
  obtain x1 s1 where s1: "seqS (read_handle os (su_file su)) (\<lambda>n. liftS (staged_info lib (in_data n))) s = (x1, s1)"
    by fastforce
  obtain x2 s2 where s2: "file_identity os lock s1 = (x2, s2)" by fastforce
  obtain x3 s3 where s3: "symlink_metadata os self_path s2 = (x3, s3)" by fastforce
  obtain x4 s4 where s4: "read_handle os lock s3 = (x4, s4)" by fastforce
  obtain x5 s5 where s5: "fchmod os (su_file su) (case x4 of Inr n \<Rightarrow> in_mode n | Inl _ \<Rightarrow> 0x1ED) s4 = (x5, s5)" by fastforce
  obtain x6 s6 where s6: "save_rollback os lock self_path ?prev s5 = (x6, s6)" by fastforce
  obtain x7 s7 where s7: "sync_all os (su_file su) s6 = (x7, s7)" by fastforce
  note eqs = s1 s2 s3 s4 s5 s6 s7 install_staged_def Let_def
  show ?thesis
  proof (cases x1)
    case (Inl e)
    then show ?thesis using run by (intro stopped [OF s1]) (auto simp: eqs refuse_def)
  next
    case (Inr info)
    show ?thesis
    proof (cases "Some (si_id info) = local_id \<or> revision_permits cur (si_revision info) \<noteq> Inr ()")
      case True
      then show ?thesis using run Inr
        by (intro stopped [OF s1]) (auto simp: eqs split: sum.splits if_splits)
    next
      case False
      then have g: "Some (si_id info) \<noteq> local_id" "revision_permits cur (si_revision info) = Inr ()" by simp_all
      note a = s1 [unfolded Inr]
      show ?thesis
      proof (cases "\<exists>named. x3 = Inr named \<and> x2 = Inr named")
        case False
        then have "refuse os (su_path su) s3 = (r, t)" using run Inr g
          by (cases x3) (auto simp: eqs split: if_splits)
        then show ?thesis using False by (intro unlocked [OF a g s2 s3]) (cases x3; auto)
      next
        case True
        then obtain named where n: "x3 = Inr named" "x2 = Inr named" by blast
        note b = s2 [unfolded n] s3 [unfolded n] s4
        show ?thesis
        proof (cases "x5 = Inr () \<and> x6 = Inr ()")
          case True
          then have c: "x5 = Inr ()" "x6 = Inr ()" by simp_all
          have "replace_running os self_path ?prev su local_id (si_id info) s7 = (r, t)"
            using run Inr g n c by (simp add: eqs)
          then show ?thesis by (rule replaced [OF a g b s5 [unfolded c] s6 [unfolded c] s7])
        next
          case False
          then have "refuse os (su_path su) s5 = (r, t) \<or> refuse os (su_path su) s6 = (r, t)"
            using run Inr g n by (auto simp: eqs split: sum.splits)
          then show ?thesis by (rule unsaved [OF a g b s5 s6])
        qed
      qed
    qed
  qed
qed


lemma file_identity_obeys:
  "leaves os i \<Longrightarrow> kp.obeys i (file_identity os j)" "tr.obeys (no_rename_to q) (file_identity os j)"
  unfolding file_identity_def by (intro kp.obeys_rules tr.obeys_rules ops_keep ops_trace; simp)+

lemma install_staged_pinned:
  assumes run: "install_staged os lib self_path lock local_id cur su s = (r, t)"
    and "leaves os (su_file su)" and "data_of (mc_fs s) (su_file su) = Some b"
  shows "data_of (mc_fs t) (su_file su) = Some b"
    and "traces (no_rename_to self_path) s t
      \<or> gates_pass lib local_id cur b \<and> traces (pinned_rename os self_path (sibling_path self_path (lit ''.onelf-prev'')) su) s t"
proof -
  let ?i = "su_file su" and ?N = "no_rename_to self_path"
  let ?prev = "sibling_path self_path (lit ''.onelf-prev'')"
  let ?Q = "pinned_rename os self_path ?prev su"
  have prev: "?prev \<noteq> self_path" by (rule sibling_differs) simp
  note K = keepsD [OF kp.obeysD]
  have "data_of (mc_fs t) ?i = Some b \<and> (traces ?N s t \<or> gates_pass lib local_id cur b \<and> traces ?Q s t)"
    using run
  proof (cases rule: install_stages)
    case (stopped s1 x)
    note a = staged_read [OF stopped(1) assms(2,3)]
    then show ?thesis
      using keepsD [OF discard_obeys(1) [OF assms(2)]] tr.trans [OF a(2) discard_obeys(2)] stopped(2) by blast
  next
    case (unlocked info s1 x s2 y s3)
    note a = staged_read(1,2) [OF unlocked(1) assms(2,3)]
    have d: "data_of (mc_fs s3) ?i = Some b"
      using K [OF ops_keep(1) [OF assms(2)] unlocked(5)] K [OF file_identity_obeys(1) [OF assms(2)] unlocked(4)] a(1)
      by blast
    have T: "traces ?N s3 t" by (rule refuse_traces [OF unlocked(7)])
    have "traces ?N s s3"
      by (rule tr.trans [OF a(2) tr.trans [OF tr.obeysD [OF file_identity_obeys(2) unlocked(4)]
            tr.obeysD [OF ops_trace(1) unlocked(5)]]]) simp
    then show ?thesis using tr.trans [OF _ T] keepsD [OF refuse_obeys(1) [OF unlocked(7) assms(2)] d] by blast
  next
    case (unsaved info s1 named s2 s3 m s4 x s5 y s6)
    note a = staged_read(1,2) [OF unsaved(1) assms(2,3)]
    have d5: "data_of (mc_fs s5) ?i = Some b"
      using K [OF ops_keep(5) [OF assms(2)] unsaved(7)] K [OF ops_keep(3) [OF assms(2)] unsaved(6)]
        K [OF ops_keep(1) [OF assms(2)] unsaved(5)] K [OF file_identity_obeys(1) [OF assms(2)] unsaved(4)] a(1)
      by blast
    have d6: "data_of (mc_fs s6) ?i = Some b" by (rule save_rollback_keeps [OF assms(2) d5 unsaved(8)])
    have T5: "traces ?N s s5"
      by (rule tr.trans [OF a(2) tr.trans [OF tr.obeysD [OF file_identity_obeys(2) unsaved(4)]
            tr.trans [OF tr.obeysD [OF ops_trace(1) unsaved(5)] tr.trans [OF tr.obeysD [OF ops_trace(3) unsaved(6)]
            tr.obeysD [OF ops_trace(7) unsaved(7)]]]]]) simp_all
    have T6: "traces ?N s s6"
      by (rule tr.trans [OF T5 tr.obeysD [OF save_rollback_traces [OF prev] unsaved(8)]])
    from unsaved(9) show ?thesis
      using tr.trans [OF T5 refuse_traces] tr.trans [OF T6 refuse_traces]
        keepsD [OF refuse_obeys(1) [OF _ assms(2)] d5] keepsD [OF refuse_obeys(1) [OF _ assms(2)] d6] by blast
  next
    case (replaced info s1 named s2 s3 m s4 s5 s6 x s7)
    note a = staged_read [OF replaced(1) assms(2,3)]
    have d5: "data_of (mc_fs s5) ?i = Some b"
      using K [OF ops_keep(5) [OF assms(2)] replaced(7)] K [OF ops_keep(3) [OF assms(2)] replaced(6)]
        K [OF ops_keep(1) [OF assms(2)] replaced(5)] K [OF file_identity_obeys(1) [OF assms(2)] replaced(4)] a(1)
      by blast
    have d7: "data_of (mc_fs s7) ?i = Some b"
      by (rule K [OF ops_keep(6) [OF assms(2)] replaced(9) save_rollback_keeps [OF assms(2) d5 replaced(8)]])
    have "traces ?N s s7"
      by (rule tr.trans [OF a(2) tr.trans [OF tr.obeysD [OF file_identity_obeys(2) replaced(4)]
            tr.trans [OF tr.obeysD [OF ops_trace(1) replaced(5)] tr.trans [OF tr.obeysD [OF ops_trace(3) replaced(6)]
            tr.trans [OF tr.obeysD [OF ops_trace(7) replaced(7)] tr.trans [OF
              tr.obeysD [OF save_rollback_traces [OF prev] replaced(8)] tr.obeysD [OF ops_trace(8) replaced(9)]]]]]]]) simp_all
    then have "traces ?Q s s7" using no_rename_pinned by (rule traces_mono)
    then have "traces ?Q s t" by (rule tr.trans [OF _ replace_running_pinned [OF replaced(10)]])
    moreover have "gates_pass lib local_id cur b"
      using a(3) [OF refl] replaced(2,3) by (auto simp: gates_pass_def)
    ultimately show ?thesis using keepsD [OF replace_running_keeps [OF replaced(10) assms(2)] d7] by blast
  qed
  then show "data_of (mc_fs t) ?i = Some b" "traces ?N s t \<or> gates_pass lib local_id cur b \<and> traces ?Q s t" by blast+
qed

section \<open>What a fetch hands over\<close>

definition vouched :: "'r lib \<Rightarrow> ('k, 'g) ed25519 \<Rightarrow> bytes option \<Rightarrow> bytes \<Rightarrow> bool" where
  "vouched lib ed pubkey b \<longleftrightarrow>
     (case pubkey of
        Some keys \<Rightarrow> (\<exists>sig. verify_update_signature ed b sig keys = Inr ())
      | None \<Rightarrow> verify_unsigned lib b = Inr ())"

lemma on_source_obeys: "tr.obeys Q (on_source m)"
  by (auto simp: tr.obeys_def on_source_def traces_def split: prod.splits)

lemma copy_into_traces: "tr.obeys (no_rename_to q) (copy_into os body file n)"
  unfolding copy_into_def Let_def by (intro tr.obeys_rules ops_trace) simp

lemma verify_staged_traces: "tr.obeys (no_rename_to q) (verify_staged os lib ed pinned file)"
  unfolding verify_staged_def by (intro tr.obeys_rules ops_trace) simp

lemma pin_verified_traces: "tr.obeys (no_rename_to q) (pin_verified os p file)"
  unfolding tr.obeys_def pin_verified_def
  by (auto split: prod.splits sum.splits dest!: tr.obeysD [OF file_identity_obeys(2)]
      intro: tr.trans discard_obeys(2))

lemma full_download_traces: "tr.obeys (no_rename_to q) (full_download os lib ed rl pinned tmp staged)"
  unfolding tr.obeys_def
proof (intro allI impI)
  fix s t :: "'a machine" and r assume run: "full_download os lib ed rl pinned tmp staged s = (r, t)"
  define get where "get = seqS (on_source (rl_size rl)) (\<lambda>n. seqS (on_source (rl_whole rl)) (\<lambda>body. copy_into os body staged n))"
  have g: "tr.obeys (no_rename_to q) get"
    unfolding get_def by (intro tr.obeys_rules on_source_obeys copy_into_traces)
  obtain x s1 where s1: "get s = (x, s1)" by fastforce
  obtain y s2 where s2: "verify_staged os lib ed pinned staged s1 = (y, s2)" by fastforce
  have T1: "traces (no_rename_to q) s s1" by (rule tr.obeysD [OF g s1])
  have T2: "traces (no_rename_to q) s s2" by (rule tr.trans [OF T1 tr.obeysD [OF verify_staged_traces s2]])
  have "t = discard os tmp s1 \<or> t = discard os tmp s2 \<or> pin_verified os tmp staged s2 = (r, t)"
    using run s1 s2 by (auto simp: full_download_def get_def [symmetric] split: sum.splits)
  then show "traces (no_rename_to q) s t"
    using tr.trans [OF T1 discard_obeys(2)] tr.trans [OF T2 discard_obeys(2)]
      tr.trans [OF T2 tr.obeysD [OF pin_verified_traces]] by blast
qed

lemma verify_staged_Inr:
  assumes "verify_staged os lib ed pinned file s = (Inr u, t)" "leaves os file"
  obtains b where "data_of (mc_fs t) file = Some b"
    "(case pinned of Some (keys, sig) \<Rightarrow> verify_update_signature ed b sig keys | None \<Rightarrow> verify_unsigned lib b) = Inr ()"
proof -
  obtain n where n: "read_handle os file s = (Inr n, t)"
    "(case pinned of Some (keys, sig) \<Rightarrow> verify_update_signature ed (in_data n) sig keys
       | None \<Rightarrow> verify_unsigned lib (in_data n)) = Inr ()"
    using assms(1) unfolding verify_staged_def by (auto elim!: seqS_Inr)
  from n(1) have "data_of (mc_fs t) file = Some (in_data n)"
    unfolding read_handle_def by (cases rule: sys_cases) (auto simp: read_call_def data_of_def split: option.splits)
  then show ?thesis using n(2) by (rule that)
qed

lemma pin_verified_Inr:
  assumes "pin_verified os p file s = (Inr su, t)" "leaves os file" "data_of (mc_fs s) file = Some b"
  shows "su = \<lparr> su_path = p, su_file = file, su_identity = file \<rparr>" "data_of (mc_fs t) file = Some b"
proof -
  obtain i where i: "file_identity os file s = (Inr i, t)" "su = \<lparr> su_path = p, su_file = file, su_identity = i \<rparr>"
    using assms(1) by (auto simp: pin_verified_def split: prod.splits sum.splits)
  from i(1) have "i = file" unfolding file_identity_def by (auto elim: seqS_Inr)
  then show "su = \<lparr> su_path = p, su_file = file, su_identity = file \<rparr>" using i(2) by simp
  show "data_of (mc_fs t) file = Some b"
    by (rule keepsD [OF kp.obeysD [OF file_identity_obeys(1) [OF assms(2)] i(1)] assms(3)])
qed

lemma full_download_Inr:
  assumes "full_download os lib ed rl pinned tmp staged s = (Inr su, t)" "leaves os staged"
  obtains b where "su = \<lparr> su_path = tmp, su_file = staged, su_identity = staged \<rparr>" "data_of (mc_fs t) staged = Some b"
    "(case pinned of Some (keys, sig) \<Rightarrow> verify_update_signature ed b sig keys | None \<Rightarrow> verify_unsigned lib b) = Inr ()"
proof -
  obtain s1 u s2 where s2: "verify_staged os lib ed pinned staged s1 = (Inr u, s2)" "pin_verified os tmp staged s2 = (Inr su, t)"
    using assms(1) by (auto simp: full_download_def split: prod.splits sum.splits)
  obtain b where b: "data_of (mc_fs s2) staged = Some b"
    "(case pinned of Some (keys, sig) \<Rightarrow> verify_update_signature ed b sig keys | None \<Rightarrow> verify_unsigned lib b) = Inr ()"
    by (rule verify_staged_Inr [OF s2(1) assms(2)])
  note p = pin_verified_Inr [OF s2(2) assms(2) b(1)]
  show ?thesis by (rule that [OF p b(2)])
qed

lemma assemble_staged_traces:
  assumes "assemble_staged os lib im rl self_path rp staged s = Some (r, t)"
  shows "traces (no_rename_to q) s t"
proof -
  obtain x s1 where s1: "seqS (open_file os self_path) (read_handle os) s = (x, s1)" by fastforce
  have "tr.obeys (no_rename_to q) (seqS (open_file os self_path) (read_handle os))"
    by (intro tr.obeys_rules ops_trace; simp)
  from tr.obeysD [OF this s1] have T1: "traces (no_rename_to q) s s1" .
  show ?thesis
  proof (cases x)
    case (Inr local)
    obtain y s2 where s2: "read_handle os staged s1 = (y, s2)" by fastforce
    have T2: "traces (no_rename_to q) s s2" by (rule tr.trans [OF T1 tr.obeysD [OF ops_trace(3) s2]]) simp
    show ?thesis
    proof (cases y)
      case (Inr out)
      obtain r' w where w: "assemble lib im (in_data local) rp (rl_range rl)
          \<lparr> wo_staged = in_data out, wo_src = mc_src s2 \<rparr> = Some (r', w)"
        using assms s1 s2 Inr \<open>x = Inr local\<close> by (auto simp: assemble_staged_def split: option.splits)
      obtain z s3 where s3: "write_handle os staged (wo_staged w) (s2\<lparr> mc_src := wo_src w \<rparr>) = (z, s3)" by fastforce
      have "t = s3" using assms s1 s2 s3 w Inr \<open>x = Inr local\<close>
        by (auto simp: assemble_staged_def split: sum.splits)
      moreover have "traces (no_rename_to q) (s2\<lparr> mc_src := wo_src w \<rparr>) s3"
        by (rule tr.obeysD [OF ops_trace(12) s3]) simp
      moreover have "traces (no_rename_to q) s2 (s2\<lparr> mc_src := wo_src w \<rparr>)" by (simp add: traces_def)
      ultimately show ?thesis using tr.trans [OF T2] tr.trans by blast
    qed (use assms s1 s2 T2 \<open>x = Inr local\<close> in \<open>simp add: assemble_staged_def\<close>)
  qed (use assms s1 T1 in \<open>simp add: assemble_staged_def\<close>)
qed

lemma create_new_fresh:
  assumes "create_new os p s = (Inr i, t)"
  shows "\<exists>n. i = os_fresh os n"
  using assms unfolding create_new_def
  by (cases rule: sys_cases) (auto simp: create_call_def split: if_splits)

lemma fetch_verified_stages:
  assumes "fetch_verified os lib im ed rl self_path pubkey remote s = Some (r, t)"
    and "\<And>n. leaves os (os_fresh os n)"
  shows "traces (no_rename_to q) s t \<and> (\<forall>su. r = Inr su \<longrightarrow> su_identity su = su_file su \<and> leaves os (su_file su)
       \<and> (\<exists>b. data_of (mc_fs t) (su_file su) = Some b \<and> vouched lib ed pubkey b))"
    (is "?G r t")
proof -
  let ?N = "no_rename_to q"
  obtain p s1 where s1: "(case pubkey of None \<Rightarrow> (Inr None, s)
      | Some keys \<Rightarrow> seqS (on_source (rl_signature rl)) (\<lambda>sig. returnS (Some (keys, sig))) s) = (p, s1)" by fastforce
  have T1: "traces ?N s s1"
  proof (cases pubkey)
    case (Some keys)
    have "tr.obeys ?N (seqS (on_source (rl_signature rl)) (\<lambda>sig. returnS (Some (keys, sig))))"
      by (intro tr.obeys_rules on_source_obeys)
    from tr.obeysD [OF this] show ?thesis using s1 Some by simp
  qed (use s1 tr.same in simp)
  obtain x2 s2 where s2: "staged_path os self_path s1 = (x2, s2)" by fastforce
  have T2: "traces ?N s s2" by (rule tr.trans [OF T1 tr.obeysD [OF staged_path_obeys(2) s2]])
  note eqs = s1 s2 fetch_verified_def claim_staging_def
  consider (no_sig) e where "p = Inl e" | (no_path) pin e where "p = Inr pin" "x2 = Inl e"
    | (go) pin tmp where "p = Inr pin" "x2 = Inr tmp" by (cases p; cases x2) auto
  then show "?G r t"
  proof cases
    case no_sig
    then show ?thesis using assms(1) T1 by (auto simp: eqs)
  next
    case no_path
    then show ?thesis using assms(1) T2 by (auto simp: eqs)
  next
    case go
    have v: "vouched lib ed pubkey b"
      if "(case pin of Some (keys, sig) \<Rightarrow> verify_update_signature ed b sig keys | None \<Rightarrow> verify_unsigned lib b) = Inr ()" for b
      using that s1 go(1) by (auto simp: vouched_def split: option.splits elim!: seqS_Inr)
    obtain x3 s3 where s3: "create_new os tmp s2 = (x3, s3)" by fastforce
    have T3: "traces ?N s s3" by (rule tr.trans [OF T2 tr.obeysD [OF ops_trace(6) s3]]) simp
    show ?thesis
    proof (cases x3)
      case (Inl e)
      then show ?thesis using assms(1) T3 s3 by (auto simp: eqs go)
    next
      case (Inr staged)
      have l: "leaves os staged" using create_new_fresh [OF s3 [unfolded Inr]] assms(2) by auto
      have full: "?G r t" if "full_download os lib ed rl pin tmp staged s' = (r, t)" "traces ?N s s'" for s'
        using tr.trans [OF that(2) tr.obeysD [OF full_download_traces that(1)]] that(1) l v
        by (auto elim!: full_download_Inr)
      show ?thesis
      proof (cases remote)
        case None
        then show ?thesis using assms(1) s3 Inr by (intro full [OF _ T3]) (simp add: eqs go)
      next
        case (Some rp)
        obtain z s4 where s4: "assemble_staged os lib im rl self_path rp staged s3 = Some (z, s4)"
          using assms(1) s3 Inr Some by (auto simp: eqs go split: option.splits)
        have T4: "traces ?N s s4" by (rule tr.trans [OF T3 assemble_staged_traces [OF s4]])
        show ?thesis
        proof (cases z)
          case (Inl e)
          then show ?thesis using assms(1) s3 s4 Inr Some \<open>x3 = Inr staged\<close>
            by (intro full [OF _ T4]) (simp add: eqs go)
        next
          case stats: (Inr stats)
          obtain y s5 where s5: "verify_staged os lib ed pin staged s4 = (y, s5)" by fastforce
          have T5: "traces ?N s s5" by (rule tr.trans [OF T4 tr.obeysD [OF verify_staged_traces s5]])
          have rest: "(case y of Inr _ \<Rightarrow> Some (pin_verified os tmp staged s5)
              | Inl e \<Rightarrow> if st_reused stats > 0 \<or> pubkey = None then Some (full_download os lib ed rl pin tmp staged s5)
                  else Some (Inl 2, discard os tmp s5)) = Some (r, t)"
            using assms(1) s3 s4 s5 Inr Some stats by (simp add: eqs go)
          show ?thesis
          proof (cases y)
            case (Inl e)
            then show ?thesis using rest full [OF _ T5] tr.trans [OF T5 discard_obeys(2)]
              by (auto split: if_splits)
          next
            case (Inr u)
            obtain b where b: "data_of (mc_fs s5) staged = Some b" "vouched lib ed pubkey b"
              using verify_staged_Inr [OF s5 [unfolded Inr] l] v by metis
            have P: "pin_verified os tmp staged s5 = (r, t)" using rest Inr by simp
            have "traces ?N s t" by (rule tr.trans [OF T5 tr.obeysD [OF pin_verified_traces P]])
            moreover have "su = \<lparr> su_path = tmp, su_file = staged, su_identity = staged \<rparr> \<and> data_of (mc_fs t) staged = Some b"
              if "r = Inr su" for su
              using pin_verified_Inr [OF P [unfolded that] l b(1)] by simp
            ultimately show ?thesis using b(2) l by auto
          qed
        qed
      qed
    qed
  qed
qed

section \<open>The whole update\<close>

lemma acquire_obeys: "tr.obeys (no_rename_to q) (acquire os p)"
  unfolding acquire_def by (intro tr.obeys_rules ops_trace; simp)

lemma local_package_id_traces:
  assumes "local_package_id os lib p s = (x, t)"
  shows "traces (no_rename_to q) s t"
proof -
  have "tr.obeys (no_rename_to q) (seqS (open_file os p) (read_handle os))"
    by (intro tr.obeys_rules ops_trace; simp)
  from tr.obeysD [OF this] show ?thesis
    using assms by (auto simp: local_package_id_def split: prod.splits sum.splits)
qed

lemma probe_release_traces: "probe_release lib rl s = (x, t) \<Longrightarrow> traces Q s t"
  by (auto simp: probe_release_def traces_def split: prod.splits)

lemma apply_update_pinned:
  assumes run: "apply_update os lib im ed rl self_path pubkey cur s = Some (r, t)"
    and fresh: "\<And>n. leaves os (os_fresh os n)"
  shows "traces (no_rename_to self_path) s t
    \<or> (\<exists>su local_id b. su_identity su = su_file su \<and> data_of (mc_fs t) (su_file su) = Some b
        \<and> vouched lib ed pubkey b \<and> gates_pass lib local_id cur b
        \<and> traces (pinned_rename os self_path (sibling_path self_path (lit ''.onelf-prev'')) su) s t)"
proof -
  let ?N = "no_rename_to self_path"
  obtain x1 s1 where s1: "acquire os self_path s = (x1, s1)" by fastforce
  have T1: "traces ?N s s1" by (rule tr.obeysD [OF acquire_obeys s1])
  obtain local s2 where s2: "local_package_id os lib self_path s1 = (local, s2)" by fastforce
  have T2: "traces ?N s s2" by (rule tr.trans [OF T1 local_package_id_traces [OF s2]])
  obtain x3 s3 where s3: "probe_release lib rl s2 = (x3, s3)" by fastforce
  have T3: "traces ?N s s3" by (rule tr.trans [OF T2 probe_release_traces [OF s3]])
  show ?thesis
  proof (cases "t = s1 \<or> t = s3")
    case True
    then show ?thesis using T1 T3 by blast
  next
    case False
    then obtain lock remote f s4 where f: "fetch_verified os lib im ed rl self_path pubkey remote s3 = Some (f, s4)"
        "(case f of Inl _ \<Rightarrow> (Refused, s4) | Inr su \<Rightarrow> install_staged os lib self_path lock local cur su s4) = (r, t)"
      using run s1 s2 s3
      by (auto simp: apply_update_def Let_def split: sum.splits fetch_error.splits if_splits option.splits)
    note st = fetch_verified_stages [OF f(1) fresh]
    have T4: "traces ?N s s4" by (rule tr.trans [OF T3 st [THEN conjunct1]])
    show ?thesis
    proof (cases f)
      case (Inl c)
      then show ?thesis using f(2) T4 by simp
    next
      case (Inr su)
      then obtain b where su: "su_identity su = su_file su" "leaves os (su_file su)"
          "data_of (mc_fs s4) (su_file su) = Some b" "vouched lib ed pubkey b"
        using st [where q = self_path] by blast
      have "install_staged os lib self_path lock local cur su s4 = (r, t)" using f(2) Inr by simp
      note i = install_staged_pinned [OF this su(2,3)]
      show ?thesis using i(2)
      proof (elim disjE conjE)
        assume "traces ?N s4 t"
        then show ?thesis using tr.trans [OF T4] by blast
      next
        assume "gates_pass lib local cur b"
          "traces (pinned_rename os self_path (sibling_path self_path (lit ''.onelf-prev'')) su) s4 t"
        moreover have "traces (pinned_rename os self_path (sibling_path self_path (lit ''.onelf-prev'')) su) s s4"
          by (rule traces_mono [OF T4 no_rename_pinned])
        ultimately show ?thesis using tr.trans su(1,4) i(1) by blast
      qed
    qed
  qed
qed

end
