(* ===== verification/Install_Recovery.thy ===== *)
theory Install_Recovery
  imports Install_Safety
begin

text \<open>
  What an install leaves behind when calls fail, and that a check offers exactly what an install
  would not turn down at its gates.
\<close>

section \<open>Failing calls\<close>

text \<open>No other process interferes; any call may still fail.\<close>

definition alone :: "os \<Rightarrow> bool" where
  "alone os \<longleftrightarrow> (\<forall>n f. os_others os n f = f)"

lemma alone_leaves: "alone os \<Longrightarrow> leaves os i"
  by (simp add: alone_def leaves_def)

definition name_kept :: "bytes \<Rightarrow> 's machine \<Rightarrow> 's machine \<Rightarrow> bool" where
  "name_kept p s t \<longleftrightarrow> fs_names (mc_fs t) p = fs_names (mc_fs s) p"

interpretation nm: run_relation "name_kept p" for p
  by unfold_locales (simp_all add: name_kept_def)

lemma sys_names:
  assumes "alone os" "\<And>n f x f' w. c n f = Inr (x, f', w) \<Longrightarrow> fs_names f' p = fs_names f p"
  shows "nm.obeys p (sys os c)"
  unfolding nm.obeys_def
proof (intro allI impI)
  fix s t :: "'c machine" and r assume "sys os c s = (r, t)"
  then show "name_kept p s t"
    by (cases rule: sys_cases) (use assms in \<open>auto simp: name_kept_def alone_def\<close>)
qed

lemma ops_names:
  assumes "alone os"
  shows "nm.obeys p (symlink_metadata os q)" "nm.obeys p (open_file os q)" "nm.obeys p (read_handle os j)"
    "nm.obeys p (fchmod os j mode)" "nm.obeys p (sync_all os j)" "nm.obeys p (flock os j)"
    "nm.obeys p (getrandom os)" "nm.obeys p (path_exists os q)" "nm.obeys p (write_handle os j data)"
    "q \<noteq> p \<Longrightarrow> nm.obeys p (create_new os q)" "q \<noteq> p \<Longrightarrow> nm.obeys p (remove_file os q)"
    "q \<noteq> p \<Longrightarrow> q' \<noteq> p \<Longrightarrow> nm.obeys p (rename_file os q q')"
  unfolding op_defs
  by (rule sys_names [OF assms]; auto simp: call_defs split: option.splits if_splits)+

lemma discard_names: "alone os \<Longrightarrow> q \<noteq> p \<Longrightarrow> name_kept p s (discard os q s)"
  unfolding discard_def by (rule nm.obeysD [OF ops_names(11) prod.collapse [symmetric]])

lemma staged_path_Inr:
  assumes "staged_path os p s = (Inr tmp, t)"
  obtains random where "length random = 8"
    "tmp = p @ lit ''.onelf-update.'' @ show_nat (os_pid os) @ lit ''.'' @ hex_of random @ lit ''.tmp''"
  using assms unfolding staged_path_def by (auto elim!: seqS_Inr split: if_splits simp: that)

lemma staged_path_differs:
  assumes "staged_path os p s = (Inr tmp, t)"
  shows "tmp \<noteq> p" "tmp \<noteq> sibling_path p (lit ''.onelf-prev'')"
proof -
  obtain random where r: "length random = 8"
    "tmp = p @ lit ''.onelf-update.'' @ show_nat (os_pid os) @ lit ''.'' @ hex_of random @ lit ''.tmp''"
    by (rule staged_path_Inr [OF assms])
  show "tmp \<noteq> p" by (simp add: r lit_def)
  have "length (lit ''.onelf-prev'') < length (lit ''.onelf-update.'')" by simp
  then show "tmp \<noteq> sibling_path p (lit ''.onelf-prev'')"
    by (auto simp: r(2) sibling_path_def dest: arg_cong [where f = length])
qed

lemma staged_path_names: "alone os \<Longrightarrow> nm.obeys p (staged_path os q)"
  unfolding staged_path_def by (intro nm.obeys_rules ops_names)

lemma create_new_Inr:
  assumes "create_new os p s = (Inr i, t)"
  shows "fs_names (mc_fs t) p = Some i" "data_of (mc_fs t) i = Some []"
  using assms unfolding create_new_def
  by (cases rule: sys_cases; auto simp: create_call_def put_inode_def data_of_def inode_of_def split: if_splits)+

lemma write_handle_Inr:
  assumes "write_handle os i d s = (Inr u, t)"
  shows "data_of (mc_fs t) i = Some d"
  using assms unfolding write_handle_def
  by (cases rule: sys_cases; auto simp: write_call_def split: option.splits dest!: sym [of _ "mc_fs t"])

lemma sync_all_Inr:
  assumes "sync_all os i s = (Inr u, t)"
  shows "\<exists>k. (k, Synced i) \<in> set (mc_trace t)"
  using assms unfolding sync_all_def
  by (cases rule: sys_cases; auto simp: sync_call_def)

lemma rename_file_Inr:
  assumes "rename_file os a b s = (Inr u, t)" "alone os" "fs_names (mc_fs s) a = Some i"
  shows "fs_names (mc_fs t) b = Some i"
  using assms(1) unfolding rename_file_def
  by (cases rule: sys_cases; use assms(2,3) in \<open>auto simp: rename_call_def alone_def split: if_splits dest!: sym [of _ "mc_fs t"]\<close>)

text \<open>A rollback copy that was made has the bytes of the running binary and is on the disk.\<close>

lemma copy_running_Inr:
  assumes "copy_running os lock tmp prev_path s = (Inr u, t)" "alone os" "data_of (mc_fs s) lock = Some b"
    "tmp \<noteq> prev_path"
  obtains out k where "fs_names (mc_fs t) prev_path = Some out" "data_of (mc_fs t) out = Some b"
    "(k, Synced out) \<in> set (mc_trace t)"
proof -
  note leaves = alone_leaves [OF assms(2)]
  obtain out src meta s1 s2 s3 s4 s5 s6 where
      c: "create_new os tmp s = (Inr out, s1)" "read_handle os lock s1 = (Inr src, s2)"
      "write_handle os out (in_data src) s2 = (Inr (), s3)" "read_handle os lock s3 = (Inr meta, s4)"
      "fchmod os out (in_mode meta) s4 = (Inr (), s5)" "sync_all os out s5 = (Inr (), s6)"
      "rename_file os tmp prev_path s6 = (Inr (), t)"
    using assms(1) unfolding copy_running_def claim_staging_def by (auto elim!: seqS_Inr)
  have n: "fs_names (mc_fs s6) tmp = Some out"
    using create_new_Inr(1) [OF c(1)] nm.obeysD [OF ops_names(3) c(2)] nm.obeysD [OF ops_names(9) c(3)]
      nm.obeysD [OF ops_names(3) c(4)] nm.obeysD [OF ops_names(4) c(5)] nm.obeysD [OF ops_names(5) c(6)] assms(2)
    by (simp add: name_kept_def)
  have "in_data src = b"
    by (rule read_handle_Inr(1) [OF c(2) leaves create_new_other(2) [OF c(1) leaves assms(3)]])
  then have "data_of (mc_fs s3) out = Some b" using write_handle_Inr [OF c(3)] by simp
  then have "data_of (mc_fs s5) out = Some b"
    using keepsD [OF kp.obeysD [OF ops_keep(3) [OF leaves] c(4)]] keepsD [OF kp.obeysD [OF ops_keep(5) [OF leaves] c(5)]]
    by blast
  then have d: "data_of (mc_fs t) out = Some b"
    using keepsD [OF kp.obeysD [OF ops_keep(6) [OF leaves] c(6)]] keepsD [OF kp.obeysD [OF ops_keep(7) [OF leaves] c(7)]]
    by blast
  obtain k where "(k, Synced out) \<in> set (mc_trace s6)" using sync_all_Inr [OF c(6)] by blast
  moreover have "traces (\<lambda>_. True) s6 t" by (rule tr.obeysD [OF ops_trace(9) c(7)]) simp
  ultimately have "(k, Synced out) \<in> set (mc_trace t)" by (auto simp: traces_def)
  then show ?thesis using rename_file_Inr [OF c(7) assms(2) n] d by (intro that)
qed

lemma save_rollback_Inr:
  assumes "save_rollback os lock self_path (sibling_path self_path (lit ''.onelf-prev'')) s = (Inr u, t)"
    and "alone os" "data_of (mc_fs s) lock = Some b"
  obtains out k where "fs_names (mc_fs t) (sibling_path self_path (lit ''.onelf-prev'')) = Some out"
    "data_of (mc_fs t) out = Some b" "(k, Synced out) \<in> set (mc_trace t)"
proof -
  obtain tmp s1 u' where c: "staged_path os self_path s = (Inr tmp, s1)"
      "copy_running os lock tmp (sibling_path self_path (lit ''.onelf-prev'')) s1 = (Inr u', t)"
    using assms(1) unfolding save_rollback_def by (auto elim!: seqS_Inr split: prod.splits sum.splits)
  have "data_of (mc_fs s1) lock = Some b"
    using keepsD [OF kp.obeysD [OF staged_path_obeys(1) [OF alone_leaves [OF assms(2)]] c(1)]] assms(3) by blast
  from copy_running_Inr [OF c(2) assms(2) this staged_path_differs(2) [OF c(1)]] that show ?thesis by blast
qed

lemma save_rollback_names:
  assumes "alone os" "prev_path \<noteq> self_path" "save_rollback os lock self_path prev_path s = (r, t)"
  shows "name_kept self_path s t"
proof -
  obtain q s1 where q: "staged_path os self_path s = (q, s1)" by fastforce
  have k1: "name_kept self_path s s1" by (rule nm.obeysD [OF staged_path_names [OF assms(1)] q])
  show ?thesis
  proof (cases q)
    case (Inl e)
    then show ?thesis using assms(3) q k1 by (simp add: save_rollback_def)
  next
    case (Inr tmp)
    note tmp = staged_path_differs(1) [OF q [unfolded Inr]]
    obtain x s2 where x: "copy_running os lock tmp prev_path s1 = (x, s2)" by fastforce
    have "nm.obeys self_path (copy_running os lock tmp prev_path)"
      unfolding copy_running_def claim_staging_def
      using tmp assms(2) by (intro nm.obeys_rules ops_names assms(1)) auto
    from nm.obeysD [OF this x] have k2: "name_kept self_path s s2" by (rule nm.trans [OF k1])
    have "t = s2 \<or> t = discard os tmp s2"
      using assms(3) q x Inr by (auto simp: save_rollback_def split: sum.splits)
    then show ?thesis using k2 nm.trans [OF k2 discard_names [OF assms(1) tmp]] by blast
  qed
qed

text \<open>The running binary under its name, with its bytes.\<close>

definition holds :: "fs \<Rightarrow> bytes \<Rightarrow> bytes \<Rightarrow> bool" where
  "holds f p b \<longleftrightarrow> (\<exists>i. fs_names f p = Some i \<and> data_of f i = Some b)"

lemma holds_kept:
  "holds (mc_fs s) p b \<Longrightarrow> name_kept p s t \<Longrightarrow> (\<And>i. keeps i s t) \<Longrightarrow> holds (mc_fs t) p b"
  unfolding holds_def name_kept_def keeps_def by metis

lemma refuse_names: "alone os \<Longrightarrow> q \<noteq> p \<Longrightarrow> refuse os q s = (r, t) \<Longrightarrow> name_kept p s t"
  using discard_names by (auto simp: refuse_def)

lemma refuse_outcome: "refuse os q s = (r, t) \<Longrightarrow> r = Refused"
  by (simp add: refuse_def)

lemma replace_running_atomic:
  assumes run: "replace_running os self_path prev_path su l d s = (r, t)" and "alone os"
    and "holds (mc_fs s) self_path b" "holds (mc_fs s) prev_path b"
    and "su_path su \<noteq> self_path" "prev_path \<noteq> self_path" "su_path su \<noteq> prev_path"
  shows "r = Updated l d \<and> fs_names (mc_fs t) self_path = Some (su_identity su) \<and> holds (mc_fs t) prev_path b
    \<or> r = Refused \<and> holds (mc_fs t) self_path b"
proof -
  obtain x s1 where s1: "symlink_metadata os (su_path su) s = (x, s1)" by fastforce
  have h1: "holds (mc_fs s1) q b" if "holds (mc_fs s) q b" for q
    by (rule holds_kept [OF that nm.obeysD [OF ops_names(1) [OF assms(2)] s1]
          kp.obeysD [OF ops_keep(1) [OF alone_leaves [OF assms(2)]] s1]])
  have refused: "r = Refused \<and> holds (mc_fs t) self_path b"
    if "refuse os (su_path su) u = (r, t)" "holds (mc_fs u) self_path b" for u
    using refuse_outcome [OF that(1)] holds_kept [OF that(2) refuse_names [OF assms(2,5) that(1)]
      refuse_obeys(1) [OF that(1) alone_leaves [OF assms(2)]]] by blast
  show ?thesis
  proof (cases "x = Inr (su_identity su)")
    case False
    then have "refuse os (su_path su) s1 = (r, t)"
      using run s1 by (auto simp: replace_running_def split: sum.splits if_splits)
    from refused [OF this h1 [OF assms(3)]] show ?thesis by blast
  next
    case True
    obtain y s2 where s2: "rename_file os (su_path su) self_path s1 = (y, s2)" by fastforce
    have k2: "keeps i s1 s2" for i by (rule kp.obeysD [OF ops_keep(7) [OF alone_leaves [OF assms(2)]] s2])
    have p2: "holds (mc_fs s2) prev_path b"
      by (rule holds_kept [OF h1 [OF assms(4)] nm.obeysD [OF ops_names(12) [OF assms(2) assms(7)] s2] k2])
        (use assms(6) in simp)
    show ?thesis
    proof (cases y)
      case (Inr u)
      have n2: "fs_names (mc_fs s2) self_path = Some (su_identity su)"
        by (rule rename_file_Inr [OF s2 [unfolded Inr] assms(2) symlink_metadata_Inr [OF s1 [unfolded True]]])
      obtain v where v: "seqS (open_file os (parent_dir self_path)) (sync_all os) s2 = (v, t)" "r = Updated l d"
        using run s1 s2 True Inr by (simp add: replace_running_def) (metis prod.collapse)
      have o: "nm.obeys q (seqS (open_file os (parent_dir self_path)) (sync_all os))"
        "kp.obeys i (seqS (open_file os (parent_dir self_path)) (sync_all os))" for q i
        by (intro nm.obeys_rules kp.obeys_rules ops_names ops_keep alone_leaves assms(2))+
      have "holds (mc_fs t) prev_path b"
        by (rule holds_kept [OF p2 nm.obeysD [OF o(1) v(1)] kp.obeysD [OF o(2) v(1)]])
      moreover have "fs_names (mc_fs t) self_path = Some (su_identity su)"
        using nm.obeysD [OF o(1) v(1)] n2 by (simp add: name_kept_def)
      ultimately show ?thesis using v(2) by blast
    next
      case (Inl e)
      have "mc_fs s2 = mc_fs s1"
        using s2 Inl assms(2) unfolding rename_file_def by (cases rule: sys_cases) (auto simp: alone_def)
      then have h2: "holds (mc_fs s2) self_path b" using h1 [OF assms(3)] by simp
      obtain z s3 where s3: "path_exists os self_path s2 = (z, s3)" by fastforce
      have h3: "holds (mc_fs s3) q b" if "holds (mc_fs s2) q b" for q
        by (rule holds_kept [OF that nm.obeysD [OF ops_names(8) [OF assms(2)] s3]
              kp.obeysD [OF ops_keep(11) [OF alone_leaves [OF assms(2)]] s3]])
      obtain w s4 where s4: "rename_file os prev_path self_path s3 = (w, s4)" by fastforce
      have h4: "holds (mc_fs s4) self_path b"
      proof (cases w)
        case (Inl e')
        have "mc_fs s4 = mc_fs s3"
          using s4 Inl assms(2) unfolding rename_file_def by (cases rule: sys_cases) (auto simp: alone_def)
        then show ?thesis using h3 [OF h2] by simp
      next
        case (Inr u)
        obtain j where j: "fs_names (mc_fs s3) prev_path = Some j" "data_of (mc_fs s3) j = Some b"
          using h3 [OF p2] by (auto simp: holds_def)
        then show ?thesis
          using rename_file_Inr [OF s4 [unfolded Inr] assms(2) j(1)]
            keepsD [OF kp.obeysD [OF ops_keep(7) [OF alone_leaves [OF assms(2)]] s4] j(2)] by (auto simp: holds_def)
      qed
      have "refuse os (su_path su) s3 = (r, t) \<or> refuse os (su_path su) s4 = (r, t)"
        using run s1 s2 s3 s4 True Inl by (simp add: replace_running_def split: sum.splits bool.splits)
      then show ?thesis using refused h3 [OF h2] h4 by blast
    qed
  qed
qed

lemma file_identity_Inr: "file_identity os i s = (Inr j, t) \<Longrightarrow> j = i"
  unfolding file_identity_def by (auto elim!: seqS_Inr)

lemma install_staged_atomic:
  assumes run: "install_staged os lib self_path lock local_id cur su s = (r, t)" and al: "alone os"
    and "holds (mc_fs s) self_path b"
    and "su_path su \<noteq> self_path" "su_path su \<noteq> sibling_path self_path (lit ''.onelf-prev'')"
  shows "(\<exists>d. r = Updated local_id d) \<and> fs_names (mc_fs t) self_path = Some (su_identity su)
      \<and> holds (mc_fs t) (sibling_path self_path (lit ''.onelf-prev'')) b
    \<or> (\<forall>d. r \<noteq> Updated local_id d) \<and> holds (mc_fs t) self_path b"
proof -
  let ?prev = "sibling_path self_path (lit ''.onelf-prev'')"
  have prev: "?prev \<noteq> self_path" by (rule sibling_differs) simp
  note lv = alone_leaves [OF al]
  have kept: "holds (mc_fs v) p b" if "nm.obeys p m" "\<And>i. kp.obeys i m" "m u = (x, v)" "holds (mc_fs u) p b"
    for m :: "('a machine, string, 'x) step" and u v x p
    using that(4) nm.obeysD [OF that(1,3)] kp.obeysD [OF that(2,3)] by (rule holds_kept)
  have a: "nm.obeys p (seqS (read_handle os j) (\<lambda>n. liftS (staged_info lib (in_data n))))"
    "kp.obeys i (seqS (read_handle os j) (\<lambda>n. liftS (staged_info lib (in_data n))))"
    "nm.obeys p (file_identity os j)" for p i j
    unfolding file_identity_def by (intro nm.obeys_rules kp.obeys_rules ops_names ops_keep al lv)+
  have stop: "(\<forall>d. r \<noteq> Updated local_id d) \<and> holds (mc_fs t) self_path b"
    if "refuse os (su_path su) u = (r, t)" "holds (mc_fs u) self_path b" for u
    using refuse_outcome [OF that(1)] holds_kept [OF that(2) refuse_names [OF al assms(4) that(1)]
      refuse_obeys(1) [OF that(1) lv]] by simp
  show ?thesis using run
  proof (cases rule: install_stages)
    case (stopped s1 x)
    have "holds (mc_fs s1) self_path b" by (rule kept [OF a(1,2) stopped(1) assms(3)])
    from holds_kept [OF this discard_names [OF al assms(4)] discard_obeys(1) [OF lv]] stopped(2,3)
    show ?thesis by simp
  next
    case (unlocked info s1 x s2 y s3)
    have "holds (mc_fs s3) self_path b"
      by (rule kept [OF ops_names(1) [OF al] ops_keep(1) [OF lv] unlocked(5)
            kept [OF a(3) file_identity_obeys(1) [OF lv] unlocked(4) kept [OF a(1,2) unlocked(1) assms(3)]]])
    then show ?thesis using stop [OF unlocked(7)] by blast
  next
    case (unsaved info s1 named s2 s3 m s4 x s5 y s6)
    have h5: "holds (mc_fs s5) self_path b"
      by (rule kept [OF ops_names(4) [OF al] ops_keep(5) [OF lv] unsaved(7)
            kept [OF ops_names(3) [OF al] ops_keep(3) [OF lv] unsaved(6)
            kept [OF ops_names(1) [OF al] ops_keep(1) [OF lv] unsaved(5)
            kept [OF a(3) file_identity_obeys(1) [OF lv] unsaved(4) kept [OF a(1,2) unsaved(1) assms(3)]]]]])
    then have "holds (mc_fs s6) self_path b"
      using save_rollback_keeps [OF lv _ unsaved(8)] save_rollback_names [OF al prev unsaved(8)]
      unfolding holds_def name_kept_def by metis
    then show ?thesis using stop h5 unsaved(9) by blast
  next
    case (replaced info s1 named s2 s3 m s4 s5 s6 x s7)
    note r = replaced
    have h3: "holds (mc_fs s3) self_path b"
      by (rule kept [OF ops_names(1) [OF al] ops_keep(1) [OF lv] r(5)
            kept [OF a(3) file_identity_obeys(1) [OF lv] r(4) kept [OF a(1,2) r(1) assms(3)]]])
    moreover have "fs_names (mc_fs s3) self_path = Some lock"
      using symlink_metadata_Inr [OF r(5)] file_identity_Inr [OF r(4)] by simp
    ultimately have l3: "data_of (mc_fs s3) lock = Some b" by (simp add: holds_def)
    have h5: "holds (mc_fs s5) self_path b"
      by (rule kept [OF ops_names(4) [OF al] ops_keep(5) [OF lv] r(7)
            kept [OF ops_names(3) [OF al] ops_keep(3) [OF lv] r(6) h3]])
    have l5: "data_of (mc_fs s5) lock = Some b"
      by (rule keepsD [OF kp.obeysD [OF ops_keep(5) [OF lv] r(7)] keepsD [OF kp.obeysD [OF ops_keep(3) [OF lv] r(6)] l3]])
    have p6: "holds (mc_fs s6) ?prev b"
      by (rule save_rollback_Inr [OF r(8) al l5]) (auto simp: holds_def)
    have h6: "holds (mc_fs s6) self_path b"
      using h5 save_rollback_keeps [OF lv _ r(8)] save_rollback_names [OF al prev r(8)]
      unfolding holds_def name_kept_def by metis
    have k7: "holds (mc_fs s7) p b" if "holds (mc_fs s6) p b" for p
      by (rule kept [OF ops_names(5) [OF al] ops_keep(6) [OF lv] r(9) that])
    show ?thesis
      using replace_running_atomic [OF r(10) al k7 [OF h6] k7 [OF p6] assms(4) prev assms(5)] by blast
  qed
qed

lemma read_handle_works:
  assumes "leaves os i" "data_of (mc_fs s) i = Some b" "\<not> os_fails os (mc_clock s)"
  shows "\<exists>n t. read_handle os i s = (Inr n, t) \<and> in_data n = b"
proof -
  have "data_of (os_others os (mc_clock s) (mc_fs s)) i = Some b" using assms(1,2) by simp
  then obtain n where "inode_of (os_others os (mc_clock s) (mc_fs s)) i = Some n" "in_data n = b"
    unfolding data_of_def by blast
  then show ?thesis using assms(3) by (simp add: read_handle_def sys_def Let_def read_call_def)
qed

lemma check_verdict_cases:
  assumes "leaves os (su_file su)" "data_of (mc_fs s) (su_file su) = Some b"
    and "check_verdict os lib local_id cur su s = (v, t)" "\<not> os_fails os (mc_clock s)"
  obtains (unreadable) e where "staged_info lib b = Inl e" "v = Refused"
  | (same) info where "staged_info lib b = Inr info" "Some (si_id info) = local_id" "v = UpToDate (si_id info)"
  | (older) info why where "staged_info lib b = Inr info" "Some (si_id info) \<noteq> local_id"
      "revision_permits cur (si_revision info) = Inl why" "v = NotOffered why"
  | (newer) info where "staged_info lib b = Inr info" "Some (si_id info) \<noteq> local_id"
      "revision_permits cur (si_revision info) = Inr ()" "v = Offered local_id (si_id info)"
proof -
  obtain n u where n: "read_handle os (su_file su) s = (Inr n, u)" "in_data n = b"
    using read_handle_works [OF assms(1,2,4)] by blast
  have v: "v = (case staged_info lib b of Inl _ \<Rightarrow> Refused
      | Inr i \<Rightarrow> if Some (si_id i) = local_id then UpToDate (si_id i)
                else report_available local_id (si_id i) cur (si_revision i))"
    using assms(3) n by (simp add: check_verdict_def seqS_def liftS_def)
  show ?thesis
  proof (cases "staged_info lib b")
    case (Inr info)
    then show ?thesis using v same older newer
      by (cases "revision_permits cur (si_revision info)") (auto simp: report_available_def split: if_splits)
  qed (use v unreadable in simp)
qed

lemma replace_running_outcome:
  "replace_running os self_path prev_path su l d s = (r, t) \<Longrightarrow> r = Updated l d \<or> r = Refused"
  by (auto simp: replace_running_def refuse_def split: prod.splits sum.splits bool.splits if_splits)

lemma check_install_agree:
  assumes "leaves os (su_file su)" "data_of (mc_fs s) (su_file su) = Some b" "\<not> os_fails os (mc_clock s)"
    and c: "check_verdict os lib local_id cur su s = (v, t)"
    and i: "install_staged os lib self_path lock local_id cur su s = (r, u)"
  shows "((\<forall>l d. v \<noteq> Offered l d) \<longrightarrow> r = v)
    \<and> (\<forall>l d. v = Offered l d \<longrightarrow> l = local_id \<and> (r = Updated l d \<or> r = Refused))"
proof -
  obtain n w where n: "read_handle os (su_file su) s = (Inr n, w)" "in_data n = b"
    using read_handle_works [OF assms(1-3)] by blast
  have sr: "seqS (read_handle os (su_file su)) (\<lambda>n. liftS (staged_info lib (in_data n))) s = (staged_info lib b, w)"
    using n by (simp add: seqS_def liftS_def)
  show ?thesis
  proof (cases rule: check_verdict_cases [OF assms(1,2) c assms(3)])
    case (1 e)
    then show ?thesis using i sr by (auto simp: install_staged_def Let_def refuse_def)
  next
    case (2 info)
    then show ?thesis using i sr by (auto simp: install_staged_def Let_def)
  next
    case (3 info why)
    then show ?thesis using i sr by (auto simp: install_staged_def Let_def)
  next
    case (4 info)
    have "r = Updated local_id (si_id info) \<or> r = Refused" using i
    proof (cases rule: install_stages)
      case (stopped s1 x)
      have "x = Inr info" using sr 4(1) stopped(1) by simp
      then show ?thesis using stopped(4) 4(2,3) by blast
    next
      case (replaced info' s1 named s2 s3 m s4 s5 s6 x s7)
      then show ?thesis using sr 4 replace_running_outcome by fastforce
    qed (auto dest: refuse_outcome)
    then show ?thesis using 4 by simp
  qed
qed

end
