(* ===== verification/Install_Calm.thy ===== *)
theory Install_Calm
  imports Install_Recovery
begin

text \<open>
  Runs of the updater on a host where no call fails, and the properties of the update as a whole.
\<close>

section \<open>An install on a calm host\<close>

definition calm :: "os \<Rightarrow> bool" where
  "calm os \<longleftrightarrow> alone os \<and> (\<forall>n. \<not> os_fails os n \<and> length (os_random os n) = 8)"

definition staging_name :: "os \<Rightarrow> bytes \<Rightarrow> bytes \<Rightarrow> bytes" where
  "staging_name os p random =
     p @ lit ''.onelf-update.'' @ show_nat (os_pid os) @ lit ''.'' @ hex_of random @ lit ''.tmp''"

lemma sys_calm:
  "calm os \<Longrightarrow> c (mc_clock s) (mc_fs s) = Inr (x, f, w) \<Longrightarrow>
     sys os c s = (Inr x, s\<lparr> mc_clock := Suc (mc_clock s), mc_fs := f, mc_trace := (mc_clock s, w) # mc_trace s \<rparr>)"
  by (simp add: sys_def Let_def calm_def alone_def)

text \<open>\<open>works m f s x\<close>: from \<open>s\<close> the step succeeds with \<open>x\<close>, leaving the file system \<open>f\<close>.\<close>

definition works :: "('s, 'a) op \<Rightarrow> fs \<Rightarrow> 's machine \<Rightarrow> 'a \<Rightarrow> 's machine \<Rightarrow> bool" where
  "works m f s x t \<longleftrightarrow> m s = (Inr x, t) \<and> mc_fs t = f \<and> mc_clock s \<le> mc_clock t
     \<and> mc_src t = mc_src s \<and> traces (\<lambda>_. True) s t"

lemma sys_works:
  "calm os \<Longrightarrow> c (mc_clock s) (mc_fs s) = Inr (x, f, w) \<Longrightarrow> \<exists>t. works (sys os c) f s x t"
  by (simp add: works_def sys_calm traces_def)

lemma op_works:
  assumes "calm os"
  shows "inode_of (mc_fs s) i = Some n \<Longrightarrow> \<exists>t. works (read_handle os i) (mc_fs s) s n t"
    and "fs_names (mc_fs s) p = Some i \<Longrightarrow> \<exists>t. works (symlink_metadata os p) (mc_fs s) s i t"
    and "inode_of (mc_fs s) i = Some n \<Longrightarrow> \<exists>t. works (fchmod os i mode) (put_inode i (n\<lparr> in_mode := mode \<rparr>) (mc_fs s)) s () t"
    and "inode_of (mc_fs s) i = Some n \<Longrightarrow> \<exists>t. works (write_handle os i data) (put_inode i (n\<lparr> in_data := data \<rparr>) (mc_fs s)) s () t"
    and "\<exists>t. works (sync_all os i) (mc_fs s) s () t"
    and "\<exists>t. works (getrandom os) (mc_fs s) s (os_random os (mc_clock s)) t"
  unfolding op_defs
  by (rule sys_works [OF assms]; simp add: call_defs)+

lemma create_works:
  assumes "calm os" "fs_names (mc_fs s) p = None" "fs_nodes (mc_fs s) (os_fresh os (mc_clock s)) = None"
  shows "\<exists>t. works (create_new os p) (put_inode (os_fresh os (mc_clock s)) \<lparr> in_data = [], in_mode = 0x180 \<rparr>
      ((mc_fs s)\<lparr> fs_names := (fs_names (mc_fs s))(p \<mapsto> os_fresh os (mc_clock s)) \<rparr>)) s (os_fresh os (mc_clock s)) t"
  unfolding create_new_def
  by (rule sys_works [OF assms(1)]) (use assms(2,3) in \<open>simp add: create_call_def\<close>)

lemma rename_works:
  assumes "calm os" "fs_names (mc_fs s) p = Some i" "fs_names (mc_fs s) q \<noteq> Some i"
    "\<And>j. fs_names (mc_fs s) q = Some j \<Longrightarrow> fs_nodes (mc_fs s) j \<noteq> Some Directory"
  shows "\<exists>t. works (rename_file os p q) ((mc_fs s)\<lparr> fs_names := (fs_names (mc_fs s))(p := None, q \<mapsto> i) \<rparr>) s () t"
  unfolding rename_file_def
  by (rule sys_works [OF assms(1)])
    (use assms(2-4) in \<open>auto simp: rename_call_def bind_opt_Some_iff\<close>)

lemma works_seq:
  assumes "works m f s x u" "works (k x) g u y t"
  shows "works (seqS m k) g s y t"
  using assms tr.trans by (auto simp: works_def)

lemma copy_running_works:
  assumes "calm os" "fs_names (mc_fs s) tmp = None" "fs_nodes (mc_fs s) (os_fresh os (mc_clock s)) = None"
    "inode_of (mc_fs s) lock = Some m" "tmp \<noteq> prev_path"
    "\<And>j. fs_names (mc_fs s) prev_path = Some j \<Longrightarrow> fs_nodes (mc_fs s) j \<noteq> Some Directory \<and> fs_nodes (mc_fs s) j \<noteq> None"
  shows "\<exists>out t. out \<noteq> lock \<and> fs_nodes (mc_fs s) out = None
    \<and> works (copy_running os lock tmp prev_path)
        (put_inode out m ((mc_fs s)\<lparr> fs_names := (fs_names (mc_fs s))(tmp := None, prev_path \<mapsto> out) \<rparr>)) s () t"
proof -
  let ?out = "os_fresh os (mc_clock s)"
  have ne: "?out \<noteq> lock" using assms(3,4) by (auto simp: inode_of_Some)
  let ?g = "put_inode ?out \<lparr> in_data = [], in_mode = 0x180 \<rparr> ((mc_fs s)\<lparr> fs_names := (fs_names (mc_fs s))(tmp \<mapsto> ?out) \<rparr>)"
  obtain s1 where s1: "works (create_new os tmp) ?g s ?out s1" using create_works [OF assms(1,2,3)] by blast
  have i1: "inode_of (mc_fs s1) lock = Some m" using s1 ne assms(4) by (simp add: works_def)
  obtain s2 where s2: "works (read_handle os lock) ?g s1 m s2"
    using op_works(1) [OF assms(1) i1] s1 by (auto simp: works_def)
  have "inode_of (mc_fs s2) ?out = Some \<lparr> in_data = [], in_mode = 0x180 \<rparr>" using s2 by (simp add: works_def)
  from op_works(4) [OF assms(1) this, of "in_data m"] obtain s3 where
    s3: "works (write_handle os ?out (in_data m)) (put_inode ?out \<lparr> in_data = in_data m, in_mode = 0x180 \<rparr> ?g) s2 () s3"
    using s2 by (auto simp: works_def)
  have i3: "inode_of (mc_fs s3) lock = Some m" using s3 ne assms(4) by (simp add: works_def)
  obtain s4 where s4: "works (read_handle os lock) (mc_fs s3) s3 m s4" using op_works(1) [OF assms(1) i3] by blast
  have "inode_of (mc_fs s4) ?out = Some \<lparr> in_data = in_data m, in_mode = 0x180 \<rparr>" using s3 s4 by (simp add: works_def)
  moreover have "\<lparr> in_data = in_data m, in_mode = 0x180 \<rparr>\<lparr> in_mode := in_mode m \<rparr> = m" by (cases m) simp
  ultimately obtain s5 where
    s5: "works (fchmod os ?out (in_mode m)) (put_inode ?out m (mc_fs s4)) s4 () s5"
    using op_works(3) [OF assms(1), of s4 ?out _ "in_mode m"] by metis
  obtain s6 where s6: "works (sync_all os ?out) (mc_fs s5) s5 () s6" using op_works(5) [OF assms(1)] by blast
  have f6: "mc_fs s6 = put_inode ?out m ((mc_fs s)\<lparr> fs_names := (fs_names (mc_fs s))(tmp \<mapsto> ?out) \<rparr>)"
    using s1 s2 s3 s4 s5 s6 by (simp add: works_def put_inode_def)
  have np: "fs_names (mc_fs s6) prev_path = fs_names (mc_fs s) prev_path" using assms(5) by (simp add: f6)
  then have "fs_names (mc_fs s6) prev_path \<noteq> Some ?out" using assms(3,6) by metis
  moreover have "fs_nodes (mc_fs s6) j \<noteq> Some Directory" if "fs_names (mc_fs s6) prev_path = Some j" for j
    using assms(6) that np by (simp add: f6 put_inode_def)
  moreover have "fs_names (mc_fs s6) tmp = Some ?out" by (simp add: f6)
  ultimately obtain t where
    t: "works (rename_file os tmp prev_path) ((mc_fs s6)\<lparr> fs_names := (fs_names (mc_fs s6))(tmp := None, prev_path \<mapsto> ?out) \<rparr>) s6 () t"
    using rename_works [OF assms(1)] by blast
  have e: "(mc_fs s6)\<lparr> fs_names := (fs_names (mc_fs s6))(tmp := None, prev_path \<mapsto> ?out) \<rparr>
      = put_inode ?out m ((mc_fs s)\<lparr> fs_names := (fs_names (mc_fs s))(tmp := None, prev_path \<mapsto> ?out) \<rparr>)"
    by (simp add: f6 put_inode_def fun_upd_twist)
  have "works (copy_running os lock tmp prev_path)
      (put_inode ?out m ((mc_fs s)\<lparr> fs_names := (fs_names (mc_fs s))(tmp := None, prev_path \<mapsto> ?out) \<rparr>)) s () t"
    unfolding copy_running_def claim_staging_def e [symmetric]
    by (rule works_seq [OF s1], rule works_seq [OF s2], rule works_seq [OF s3], rule works_seq [OF s4],
        rule works_seq [OF s5], rule works_seq [OF s6], rule t)
  then show ?thesis using ne assms(3) by blast
qed

lemma save_rollback_works:
  assumes "calm os" "\<And>n. mc_clock s \<le> n \<Longrightarrow> fs_names (mc_fs s) (staging_name os self_path (os_random os n)) = None"
    "\<And>n. mc_clock s \<le> n \<Longrightarrow> fs_nodes (mc_fs s) (os_fresh os n) = None" "inode_of (mc_fs s) lock = Some m"
    "prev_path = sibling_path self_path (lit ''.onelf-prev'')"
    "\<And>j. fs_names (mc_fs s) prev_path = Some j \<Longrightarrow> fs_nodes (mc_fs s) j \<noteq> Some Directory \<and> fs_nodes (mc_fs s) j \<noteq> None"
  shows "\<exists>out tmp t. out \<noteq> lock \<and> fs_nodes (mc_fs s) out = None \<and> fs_names (mc_fs s) tmp = None \<and> tmp \<noteq> self_path
    \<and> works (save_rollback os lock self_path prev_path)
        (put_inode out m ((mc_fs s)\<lparr> fs_names := (fs_names (mc_fs s))(tmp := None, prev_path \<mapsto> out) \<rparr>)) s () t"
proof -
  let ?tmp = "staging_name os self_path (os_random os (mc_clock s))"
  obtain u where u: "works (getrandom os) (mc_fs s) s (os_random os (mc_clock s)) u" using op_works(6) [OF assms(1)] by blast
  have p: "works (staged_path os self_path) (mc_fs s) s ?tmp u"
    using u assms(1) by (simp add: works_def staged_path_def staging_name_def calm_def)
  have fu: "mc_fs u = mc_fs s" "mc_clock s \<le> mc_clock u" using u by (simp_all add: works_def)
  have d: "?tmp \<noteq> self_path" "?tmp \<noteq> prev_path"
    using staged_path_differs p assms(5) unfolding works_def by blast+
  obtain out t where t: "out \<noteq> lock" "fs_nodes (mc_fs s) out = None"
      "works (copy_running os lock ?tmp prev_path)
        (put_inode out m ((mc_fs s)\<lparr> fs_names := (fs_names (mc_fs s))(?tmp := None, prev_path \<mapsto> out) \<rparr>)) u () t"
    using copy_running_works [OF assms(1), of u ?tmp lock m prev_path] assms(2-4,6) d(2) fu by auto
  have "works (save_rollback os lock self_path prev_path)
        (put_inode out m ((mc_fs s)\<lparr> fs_names := (fs_names (mc_fs s))(?tmp := None, prev_path \<mapsto> out) \<rparr>)) s () t"
    unfolding save_rollback_def
    by (rule works_seq [OF p]) (use t(3) in \<open>simp add: works_def\<close>)
  then show ?thesis using t(1,2) assms(2) [of "mc_clock s"] d(1) by blast
qed

lemma parent_sync_fs:
  assumes "alone os" "seqS (open_file os p) (sync_all os) s = (r, t)"
  shows "mc_fs t = mc_fs s"
proof -
  obtain x u where u: "open_file os p s = (x, u)" by fastforce
  have "mc_fs u = mc_fs s"
    using u assms(1) unfolding open_file_def
    by (cases rule: sys_cases) (auto simp: open_call_def alone_def split: option.splits if_splits)
  moreover have "mc_fs v = mc_fs u" if "sync_all os i u = (y, v)" for v y i
    using that assms(1) unfolding sync_all_def
    by (cases rule: sys_cases) (auto simp: sync_call_def alone_def)
  ultimately show ?thesis using assms(2) u by (cases x) auto
qed

text \<open>
  The state an install wants: the running binary locked under its name, the staged file under its
  own, and the names it will use for copies free.
\<close>

definition ready :: "os \<Rightarrow> bytes \<Rightarrow> ident \<Rightarrow> staged_update \<Rightarrow> inode \<Rightarrow> inode \<Rightarrow> 's machine \<Rightarrow> bool" where
  "ready os self_path lock su old new s \<longleftrightarrow>
     fs_names (mc_fs s) self_path = Some lock \<and> inode_of (mc_fs s) lock = Some old
   \<and> su_identity su = su_file su \<and> fs_names (mc_fs s) (su_path su) = Some (su_file su)
   \<and> inode_of (mc_fs s) (su_file su) = Some new \<and> su_file su \<noteq> lock \<and> su_path su \<noteq> self_path
   \<and> su_path su \<noteq> sibling_path self_path (lit ''.onelf-prev'')
   \<and> (\<forall>j. fs_names (mc_fs s) (sibling_path self_path (lit ''.onelf-prev'')) = Some j \<longrightarrow>
         fs_nodes (mc_fs s) j \<noteq> Some Directory \<and> fs_nodes (mc_fs s) j \<noteq> None)
   \<and> (\<forall>n. mc_clock s \<le> n \<longrightarrow> fs_names (mc_fs s) (staging_name os self_path (os_random os n)) = None)
   \<and> (\<forall>n. mc_clock s \<le> n \<longrightarrow> fs_nodes (mc_fs s) (os_fresh os n) = None)"

lemma install_works:
  assumes "calm os" "ready os self_path lock su old new s" "staged_info lib (in_data new) = Inr info"
    "Some (si_id info) \<noteq> local_id" "revision_permits cur (si_revision info) = Inr ()"
  shows "\<exists>t out k. install_staged os lib self_path lock local_id cur su s = (Updated local_id (si_id info), t)
    \<and> fs_names (mc_fs t) self_path = Some (su_file su)
    \<and> inode_of (mc_fs t) (su_file su) = Some (new\<lparr> in_mode := in_mode old \<rparr>)
    \<and> fs_names (mc_fs t) (sibling_path self_path (lit ''.onelf-prev'')) = Some out
    \<and> inode_of (mc_fs t) out = Some old
    \<and> (\<exists>new. mc_trace t = new @ mc_trace s \<and> (k, Renamed (su_path su) self_path (su_file su)) \<in> set new)"
proof -
  let ?prev = "sibling_path self_path (lit ''.onelf-prev'')"
  have prev: "?prev \<noteq> self_path" by (rule sibling_differs) simp
  note r = assms(2) [unfolded ready_def]
  obtain s1 where s1: "works (read_handle os (su_file su)) (mc_fs s) s new s1"
    using op_works(1) [OF assms(1)] r by blast
  have i2: "inode_of (mc_fs s1) lock = Some old" using s1 r by (simp add: works_def)
  obtain s2 where s2: "works (read_handle os lock) (mc_fs s1) s1 old s2" using op_works(1) [OF assms(1) i2] by blast
  have n2: "fs_names (mc_fs s2) self_path = Some lock" using s1 s2 r by (simp add: works_def)
  obtain s3 where s3: "works (symlink_metadata os self_path) (mc_fs s2) s2 lock s3" using op_works(2) [OF assms(1) n2] by blast
  have i3: "inode_of (mc_fs s3) lock = Some old" using s1 s2 s3 r by (simp add: works_def)
  obtain s4 where s4: "works (read_handle os lock) (mc_fs s3) s3 old s4" using op_works(1) [OF assms(1) i3] by blast
  have f4: "mc_fs s4 = mc_fs s" "mc_clock s \<le> mc_clock s4" using s1 s2 s3 s4 by (simp_all add: works_def)
  have i4: "inode_of (mc_fs s4) (su_file su) = Some new" using r f4 by simp
  obtain s5 where s5: "works (fchmod os (su_file su) (in_mode old)) (put_inode (su_file su) (new\<lparr> in_mode := in_mode old \<rparr>) (mc_fs s4)) s4 () s5"
    using op_works(3) [OF assms(1) i4] by blast
  have f5: "mc_fs s5 = put_inode (su_file su) (new\<lparr> in_mode := in_mode old \<rparr>) (mc_fs s)" "mc_clock s \<le> mc_clock s5"
    using s5 f4 by (simp_all add: works_def)
  have nodes: "fs_nodes (mc_fs s5) j = (if j = su_file su then Some (Regular (new\<lparr> in_mode := in_mode old \<rparr>)) else fs_nodes (mc_fs s) j)" for j
    by (simp add: f5 put_inode_def)
  have su: "fs_nodes (mc_fs s) (su_file su) \<noteq> None" using r by (auto simp: inode_of_Some)
  have fresh: "fs_nodes (mc_fs s5) (os_fresh os n) = None" if "mc_clock s5 \<le> n" for n
    using r su nodes that f5(2) by (metis (no_types) le_trans)
  obtain out tmp s6 where s6: "out \<noteq> lock" "fs_nodes (mc_fs s5) out = None" "fs_names (mc_fs s5) tmp = None" "tmp \<noteq> self_path"
      "works (save_rollback os lock self_path ?prev)
        (put_inode out old ((mc_fs s5)\<lparr> fs_names := (fs_names (mc_fs s5))(tmp := None, ?prev \<mapsto> out) \<rparr>)) s5 () s6"
  proof -
    have a: "fs_names (mc_fs s5) (staging_name os self_path (os_random os n)) = None" if "mc_clock s5 \<le> n" for n
      using r that f5 by simp
    have b: "inode_of (mc_fs s5) lock = Some old" using r f5 by simp
    have c: "fs_nodes (mc_fs s5) j \<noteq> Some Directory \<and> fs_nodes (mc_fs s5) j \<noteq> None" if "fs_names (mc_fs s5) ?prev = Some j" for j
    proof -
      have "fs_names (mc_fs s) ?prev = Some j" using that f5 by simp
      then have "fs_nodes (mc_fs s) j \<noteq> Some Directory \<and> fs_nodes (mc_fs s) j \<noteq> None" using r by blast
      then show ?thesis using nodes [of j] by simp
    qed
    show ?thesis using save_rollback_works [OF assms(1) a fresh b refl c] that by blast
  qed
  have out: "out \<noteq> su_file su" using s6(2) nodes by auto
  have tmp: "tmp \<noteq> su_path su" using s6(3) r f5 by auto
  obtain s7 where s7: "works (sync_all os (su_file su)) (mc_fs s6) s6 () s7" using op_works(5) [OF assms(1)] by blast
  have f7: "mc_fs s7 = put_inode out old (put_inode (su_file su) (new\<lparr> in_mode := in_mode old \<rparr>)
      ((mc_fs s)\<lparr> fs_names := (fs_names (mc_fs s))(tmp := None, ?prev \<mapsto> out) \<rparr>))"
    using s6 s7 f5 by (simp add: works_def put_inode_def)
  have n7: "fs_names (mc_fs s7) (su_path su) = Some (su_file su)" using r tmp by (simp add: f7)
  obtain s8 where s8: "works (symlink_metadata os (su_path su)) (mc_fs s7) s7 (su_file su) s8"
    using op_works(2) [OF assms(1) n7] by blast
  have n8: "fs_names (mc_fs s8) (su_path su) = Some (su_file su)" "fs_names (mc_fs s8) self_path = Some lock"
    "fs_nodes (mc_fs s8) lock = Some (Regular old)"
    using s8 n7 r s6(1,4) prev by (auto simp: works_def f7 put_inode_def inode_of_Some)
  obtain s9 where s9: "works (rename_file os (su_path su) self_path)
      ((mc_fs s8)\<lparr> fs_names := (fs_names (mc_fs s8))(su_path su := None, self_path \<mapsto> su_file su) \<rparr>) s8 () s9"
    using rename_works [OF assms(1) n8(1), of self_path] n8(2,3) r by auto
  have t8: "traces (\<lambda>_. True) s s8"
    using s1 s2 s3 s4 s5 s6(5) s7 s8 unfolding works_def by (blast intro: tr.trans)
  obtain k where k: "mc_trace s9 = (k, Renamed (su_path su) self_path (su_file su)) # mc_trace s8"
  proof -
    have "rename_file os (su_path su) self_path s8 = (Inr (), s9)" using s9 by (simp add: works_def)
    then have "mc_trace s9 = (mc_clock s8, Renamed (su_path su) self_path (su_file su)) # mc_trace s8"
      unfolding rename_file_def using assms(1) n8(1)
      by (cases rule: sys_cases) (auto simp: rename_call_def calm_def alone_def split: if_splits)
    then show ?thesis by (rule that)
  qed
  define t where "t = snd (seqS (open_file os (parent_dir self_path)) (sync_all os) s9)"
  have al: "alone os" using assms(1) by (simp add: calm_def)
  have t: "seqS (open_file os (parent_dir self_path)) (sync_all os) s9 = (fst (seqS (open_file os (parent_dir self_path)) (sync_all os) s9), t)"
    by (simp add: t_def)
  have "tr.obeys (\<lambda>_. True) (seqS (open_file os (parent_dir self_path)) (sync_all os))"
    by (intro tr.obeys_rules ops_trace; simp)
  from tr.obeysD [OF this t] t8 k
  have kt: "\<exists>new. mc_trace t = new @ mc_trace s \<and> (k, Renamed (su_path su) self_path (su_file su)) \<in> set new"
    by (auto simp: traces_def)
  have "mc_fs s9 = (mc_fs s7)\<lparr> fs_names := (fs_names (mc_fs s7))(su_path su := None, self_path \<mapsto> su_file su) \<rparr>"
    using s9 s8 by (simp add: works_def)
  then have ft: "mc_fs t = (mc_fs s7)\<lparr> fs_names := (fs_names (mc_fs s7))(su_path su := None, self_path \<mapsto> su_file su) \<rparr>"
    using parent_sync_fs [OF al t] by simp
  have prev': "?prev \<noteq> su_path su" using r by metis
  have repl: "replace_running os self_path ?prev su local_id (si_id info) s7 = (Updated local_id (si_id info), t)"
    using s8 s9 r by (simp add: replace_running_def works_def t_def)
  have "install_staged os lib self_path lock local_id cur su s = (Updated local_id (si_id info), t)"
    using s1 s2 s3 s4 s5 s6(5) s7 repl assms(3-5)
    by (simp add: install_staged_def Let_def works_def file_identity_def liftS_def returnS_def)
  moreover have "inode_of (mc_fs t) (su_file su) = Some (new\<lparr> in_mode := in_mode old \<rparr>)"
    using out by (simp add: ft f7)
  moreover have "fs_names (mc_fs t) ?prev = Some out" "inode_of (mc_fs t) out = Some old"
    using prev prev' by (simp_all add: ft f7)
  moreover have "fs_names (mc_fs t) self_path = Some (su_file su)" by (simp add: ft)
  ultimately show ?thesis using kt by blast
qed

lemma length_show_hex2 [simp]: "length (show_hex2 b) = 2"
  by (simp add: show_hex2_def)

lemma hex_of_inject [simp]: "hex_of xs = hex_of ys \<longleftrightarrow> xs = ys"
proof (induction xs arbitrary: ys)
  case Nil
  then show ?case by (cases ys) (auto simp: hex_of_def dest: arg_cong [where f = length])
next
  case (Cons x xs)
  then show ?case by (cases ys) (auto simp: hex_of_def dest: arg_cong [where f = length])
qed

lemma staging_name_inject [simp]: "staging_name os p a = staging_name os p b \<longleftrightarrow> a = b"
  by (simp add: staging_name_def)

definition tidy :: "os \<Rightarrow> bytes \<Rightarrow> ident \<Rightarrow> inode \<Rightarrow> 's machine \<Rightarrow> bool" where
  "tidy os self_path lock old s \<longleftrightarrow>
     fs_names (mc_fs s) self_path = Some lock \<and> inode_of (mc_fs s) lock = Some old
   \<and> \<not> fs_locked (mc_fs s) lock
   \<and> (\<forall>j. fs_names (mc_fs s) (sibling_path self_path (lit ''.onelf-prev'')) = Some j \<longrightarrow>
         fs_nodes (mc_fs s) j \<noteq> Some Directory \<and> fs_nodes (mc_fs s) j \<noteq> None)
   \<and> (\<forall>n. mc_clock s \<le> n \<longrightarrow> fs_names (mc_fs s) (staging_name os self_path (os_random os n)) = None)
   \<and> (\<forall>n. mc_clock s \<le> n \<longrightarrow> fs_nodes (mc_fs s) (os_fresh os n) = None)
   \<and> (\<forall>n > mc_clock s + 4. os_random os n \<noteq> os_random os (mc_clock s + 4))
   \<and> (\<forall>n > mc_clock s + 5. os_fresh os n \<noteq> os_fresh os (mc_clock s + 5))"

lemma clock_Suc:
  "open_file os p s = (r, t) \<Longrightarrow> mc_clock t = Suc (mc_clock s)"
  "flock os i s = (r', t) \<Longrightarrow> mc_clock t = Suc (mc_clock s)"
  "read_handle os i s = (r'', t) \<Longrightarrow> mc_clock t = Suc (mc_clock s)"
  "getrandom os s = (r''', t) \<Longrightarrow> mc_clock t = Suc (mc_clock s)"
  unfolding open_file_def flock_def read_handle_def getrandom_def by (auto elim: sys_cases)

lemma resolve_file:
  "fs_names f p = Some i \<Longrightarrow> inode_of f i = Some n \<Longrightarrow> resolve f p = Some i"
  by (simp add: resolve_def inode_of_Some eval_nat_numeral)

lemma open_works:
  assumes "calm os" "fs_names (mc_fs s) p = Some i" "inode_of (mc_fs s) i = Some n"
  shows "\<exists>t. works (open_file os p) (mc_fs s) s i t"
  unfolding open_file_def
  by (rule sys_works [OF assms(1)]) (use assms(2,3) resolve_file in \<open>simp add: open_call_def inode_of_Some\<close>)

lemma flock_works:
  assumes "calm os" "\<not> fs_locked (mc_fs s) i"
  shows "\<exists>t. works (flock os i) ((mc_fs s)\<lparr> fs_locked := (fs_locked (mc_fs s))(i := True) \<rparr>) s () t"
  unfolding flock_def
  by (rule sys_works [OF assms(1)]) (use assms(2) in \<open>simp add: lock_call_def\<close>)

lemma open_read_works:
  assumes "calm os" "fs_names (mc_fs s) p = Some i" "inode_of (mc_fs s) i = Some n"
  shows "\<exists>t. works (seqS (open_file os p) (read_handle os)) (mc_fs s) s n t"
proof -
  obtain u where u: "works (open_file os p) (mc_fs s) s i u" using open_works [OF assms] by blast
  then have "inode_of (mc_fs u) i = Some n" using assms(3) by (simp add: works_def)
  from op_works(1) [OF assms(1) this] obtain t where "works (read_handle os i) (mc_fs s) u n t"
    using u by (auto simp: works_def)
  then have "works (seqS (open_file os p) (read_handle os)) (mc_fs s) s n t" by (rule works_seq [OF u])
  then show ?thesis ..
qed

text \<open>A host without range requests that delivers \<open>R\<close> whole and signed.\<close>

definition delivers :: "'r lib \<Rightarrow> 's release \<Rightarrow> 's \<Rightarrow> bytes \<Rightarrow> bytes \<Rightarrow> bool" where
  "delivers lib rl x R sig \<longleftrightarrow>
     (\<exists>x1 x2 x3 x4 n. probe lib (rl_size rl) (rl_range rl) x = (Inl NoRanges, x1)
        \<and> rl_signature rl x1 = (Inr sig, x2) \<and> rl_size rl x2 = (Inr n, x3) \<and> length R \<le> unat n
        \<and> rl_whole rl x3 = (Inr (R, False), x4))"

lemma apply_works:
  assumes "calm os" "tidy os self_path lock old s" "delivers lib rl (mc_src s) R sig"
    and "verify_update_signature ed R sig keys = Inr ()"
    and "staged_info lib R = Inr info" "revision_permits cur (si_revision info) = Inr ()"
    and "\<And>pkg. load_file lib (in_data old) = Inr pkg \<Longrightarrow> h_package_id (m_header (pd_manifest pkg)) \<noteq> si_id info"
  shows "\<exists>l t staged k out tmp. apply_update os lib im ed rl self_path (Some keys) cur s = Some (Updated l (si_id info), t)
    \<and> fs_names (mc_fs t) self_path = Some staged
    \<and> inode_of (mc_fs t) staged = Some \<lparr> in_data = R, in_mode = in_mode old \<rparr>
    \<and> fs_names (mc_fs t) (sibling_path self_path (lit ''.onelf-prev'')) = Some out
    \<and> inode_of (mc_fs t) out = Some old
    \<and> (\<exists>new. mc_trace t = new @ mc_trace s \<and> (k, Renamed tmp self_path staged) \<in> set new)
    \<and> tmp \<noteq> sibling_path self_path (lit ''.onelf-prev'')"
proof -
  let ?prev = "sibling_path self_path (lit ''.onelf-prev'')"
  note T = assms(2) [unfolded tidy_def]
  obtain x1 x2 x3 x4 n where x: "probe lib (rl_size rl) (rl_range rl) (mc_src s) = (Inl NoRanges, x1)"
      "rl_signature rl x1 = (Inr sig, x2)" "rl_size rl x2 = (Inr n, x3)" "length R \<le> unat n"
      "rl_whole rl x3 = (Inr (R, False), x4)"
    using assms(3) by (auto simp: delivers_def)
  obtain a1 where a1: "works (open_file os self_path) (mc_fs s) s lock a1" using open_works assms(1) T by blast
  define f where "f = (mc_fs s)\<lparr> fs_locked := (fs_locked (mc_fs s))(lock := True) \<rparr>"
  obtain s1 where s1: "works (flock os lock) f a1 () s1"
    using flock_works [OF assms(1), of a1 lock] a1 T by (auto simp: works_def f_def)
  have acq: "acquire os self_path s = (Inr lock, s1)"
    using a1 s1 by (simp add: acquire_def works_def returnS_def)
  have f1: "mc_fs s1 = f" "mc_clock s \<le> mc_clock s1" "mc_src s1 = mc_src s" "traces (\<lambda>_. True) s s1"
    using a1 s1 tr.trans by (auto simp: works_def)
  obtain s2 where s2: "works (seqS (open_file os self_path) (read_handle os)) f s1 old s2"
    using open_read_works [OF assms(1), of s1 self_path lock old] f1 T by (auto simp: f_def)
  define l where "l = (case load_file lib (in_data old) of Inl _ \<Rightarrow> None
      | Inr pkg \<Rightarrow> Some (h_package_id (m_header (pd_manifest pkg))))"
  have lid: "local_package_id os lib self_path s1 = (l, s2)"
    using s2 by (simp add: local_package_id_def works_def l_def split: sum.splits)
  have ne: "Some (si_id info) \<noteq> l" using assms(7) by (auto simp: l_def split: sum.splits)
  define s3 where "s3 = s2\<lparr> mc_src := x1 \<rparr>"
  have pr: "probe_release lib rl s2 = (Inl NoRanges, s3)"
    using x(1) s2 f1 by (simp add: probe_release_def works_def s3_def)
  define s4 where "s4 = s3\<lparr> mc_src := x2 \<rparr>"
  have sg: "seqS (on_source (rl_signature rl)) (\<lambda>sig. returnS (Some (keys, sig))) s3 = (Inr (Some (keys, sig)), s4)"
    using x(2) by (simp add: seqS_def on_source_def returnS_def s3_def s4_def)
  have f4: "mc_fs s4 = f" "mc_clock s \<le> mc_clock s4" "mc_src s4 = x2" "traces (\<lambda>_. True) s s4"
    using s2 f1 tr.trans by (auto simp: works_def s3_def s4_def traces_def)
  have c1: "mc_clock s1 = mc_clock s + 2"
    using clock_Suc(1) [OF a1 [unfolded works_def, THEN conjunct1]] clock_Suc(2) [OF s1 [unfolded works_def, THEN conjunct1]]
    by simp
  have c2: "mc_clock s2 = mc_clock s1 + 2"
  proof -
    have "seqS (open_file os self_path) (read_handle os) s1 = (Inr old, s2)" using s2 by (simp add: works_def)
    then obtain i u where u: "open_file os self_path s1 = (Inr i, u)" "read_handle os i u = (Inr old, s2)"
      by (rule seqS_Inr)
    show ?thesis using clock_Suc(1) [OF u(1)] clock_Suc(3) [OF u(2)] by simp
  qed
  have c4: "mc_clock s4 = mc_clock s + 4" using c1 c2 by (simp add: s3_def s4_def)
  let ?tmp = "staging_name os self_path (os_random os (mc_clock s4))"
  obtain s5 where s5: "works (getrandom os) f s4 (os_random os (mc_clock s4)) s5"
    using op_works(6) [OF assms(1), of s4] f4 by auto
  have sp: "staged_path os self_path s4 = (Inr ?tmp, s5)"
    using s5 assms(1) by (simp add: works_def staged_path_def staging_name_def calm_def returnS_def)
  have tmp: "?tmp \<noteq> self_path" "?tmp \<noteq> ?prev" using staged_path_differs [OF sp] by simp_all
  have c5': "mc_clock s5 = mc_clock s + 5"
    using c4 clock_Suc(4) [OF s5 [unfolded works_def, THEN conjunct1]] by simp
  let ?i = "os_fresh os (mc_clock s5)"
  define g where "g = put_inode ?i \<lparr> in_data = R, in_mode = 0x180 \<rparr> (f\<lparr> fs_names := (fs_names f)(?tmp \<mapsto> ?i) \<rparr>)"
  have c5: "mc_clock s \<le> mc_clock s4" "mc_clock s4 \<le> mc_clock s5" "mc_fs s5 = f" using s5 f4 by (simp_all add: works_def)
  obtain s6 where s6: "works (create_new os ?tmp) (put_inode ?i \<lparr> in_data = [], in_mode = 0x180 \<rparr>
      (f\<lparr> fs_names := (fs_names f)(?tmp \<mapsto> ?i) \<rparr>)) s5 ?i s6"
    using create_works [OF assms(1), of s5 ?tmp] T c5 by (auto simp: f_def)
  have nolock: "?i \<noteq> lock" using T c5 by (metis inode_of_Some le_trans option.distinct(1))
  define s7 where "s7 = s6\<lparr> mc_src := x4 \<rparr>"
  have i7: "inode_of (mc_fs s7) ?i = Some \<lparr> in_data = [], in_mode = 0x180 \<rparr>" using s6 by (simp add: works_def s7_def)
  obtain s8 where s8: "works (write_handle os ?i R) g s7 () s8"
    using op_works(4) [OF assms(1) i7, of R] s6 by (auto simp: works_def s7_def g_def put_inode_def)
  have i8: "inode_of (mc_fs s8) ?i = Some \<lparr> in_data = R, in_mode = 0x180 \<rparr>" using s8 by (simp add: works_def g_def)
  obtain s9 where s9: "works (read_handle os ?i) g s8 \<lparr> in_data = R, in_mode = 0x180 \<rparr> s9"
    using op_works(1) [OF assms(1) i8] s8 by (auto simp: works_def)
  have i9: "inode_of (mc_fs s9) ?i = Some \<lparr> in_data = R, in_mode = 0x180 \<rparr>" using s9 by (simp add: works_def g_def)
  obtain s10 where s10: "works (read_handle os ?i) g s9 \<lparr> in_data = R, in_mode = 0x180 \<rparr> s10"
    using op_works(1) [OF assms(1) i9] s9 by (auto simp: works_def)
  have most: "length R \<le> unat (saturating_add_u64 n 1)"
    using x(4) unat_saturating_add_u64 [of n 1] unat_bounds(4) [of n] by (simp add: min_def)
  have get: "seqS (on_source (rl_size rl)) (\<lambda>n. seqS (on_source (rl_whole rl)) (\<lambda>body. copy_into os body ?i n)) s6
      = (Inr (), s8)"
    using x(3-5) s6 s8 most f4 s5
    by (simp add: seqS_def on_source_def copy_into_def Let_def works_def s7_def returnS_def)
  let ?su = "\<lparr> su_path = ?tmp, su_file = ?i, su_identity = ?i \<rparr>"
  have full: "full_download os lib ed rl (Some (keys, sig)) ?tmp ?i s6 = (Inr ?su, s10)"
    using get s9 s10 assms(4)
    by (simp add: full_download_def verify_staged_def works_def liftS_def pin_verified_def file_identity_def returnS_def)
  have fetch: "fetch_verified os lib im ed rl self_path (Some keys) None s3 = Some (Inr ?su, s10)"
    using sg sp s6 full by (simp add: fetch_verified_def claim_staging_def works_def)
  have lt: "mc_clock s5 < mc_clock s6"
    using s6 unfolding works_def create_new_def by (auto elim!: sys_cases)
  have f10: "mc_fs s10 = g" "mc_clock s5 < mc_clock s10" "traces (\<lambda>_. True) s s10"
    using s5 s6 s8 s9 s10 lt f4(4) tr.trans by (auto simp: works_def s7_def traces_def)
  have rdy: "ready os self_path lock ?su old \<lparr> in_data = R, in_mode = 0x180 \<rparr> s10"
  proof -
    have r: "os_random os m \<noteq> os_random os (mc_clock s4)" "os_fresh os m \<noteq> ?i" if "mc_clock s10 \<le> m" for m
      using T that f10(2) c4 c5' by simp_all
    have names: "fs_names g (staging_name os self_path (os_random os m)) = None"
      and nodes: "fs_nodes g (os_fresh os m) = None" if "mc_clock s10 \<le> m" for m
      using T r [OF that] that f10(2) c5(1,2) by (simp_all add: g_def f_def put_inode_def)
    have "fs_names g self_path = Some lock" "inode_of g lock = Some old" "fs_names g ?tmp = Some ?i"
      "inode_of g ?i = Some \<lparr> in_data = R, in_mode = 0x180 \<rparr>"
      using T tmp nolock by (simp_all add: g_def f_def)
    moreover have "fs_nodes g j \<noteq> Some Directory \<and> fs_nodes g j \<noteq> None" if "fs_names g ?prev = Some j" for j
    proof -
      have "fs_names (mc_fs s) ?prev = Some j" using that tmp(2) by (simp add: g_def f_def)
      then have "fs_nodes (mc_fs s) j \<noteq> Some Directory \<and> fs_nodes (mc_fs s) j \<noteq> None" using T by blast
      then show ?thesis by (simp add: g_def f_def put_inode_def)
    qed
    ultimately show ?thesis unfolding ready_def using names nodes f10(1) tmp nolock by simp
  qed
  have si: "staged_info lib (in_data \<lparr> in_data = R, in_mode = 0x180 \<rparr>) = Inr info" using assms(5) by simp
  from install_works [OF assms(1) rdy si ne assms(6)] obtain t out k new where
    t: "install_staged os lib self_path lock l cur ?su s10 = (Updated l (si_id info), t)"
      "fs_names (mc_fs t) self_path = Some ?i"
      "inode_of (mc_fs t) ?i = Some \<lparr> in_data = R, in_mode = in_mode old \<rparr>"
      "fs_names (mc_fs t) ?prev = Some out" "inode_of (mc_fs t) out = Some old"
      "mc_trace t = new @ mc_trace s10" "(k, Renamed ?tmp self_path ?i) \<in> set new"
    by (simp only: staged_update.select_convs inode.update_convs) blast
  have "apply_update os lib im ed rl self_path (Some keys) cur s = Some (Updated l (si_id info), t)"
    using acq lid pr fetch t(1) by (simp add: apply_update_def)
  moreover have "\<exists>new. mc_trace t = new @ mc_trace s \<and> (k, Renamed ?tmp self_path ?i) \<in> set new"
    using t(6,7) f10(3) by (auto simp: traces_def)
  ultimately show ?thesis using t(2-5) tmp(2) by blast
qed

section \<open>Properties of the update\<close>


definition toy_ed :: "(bytes, bytes) ed25519" where
  "toy_ed = \<lparr> key_from_slice = (\<lambda>k. if length k = 32 then Some k else None),
     sig_from_slice = (\<lambda>g. if length g = 64 then Some g else None), key_verify = (\<lambda>k m g. take 32 g = k) \<rparr>"

definition calm_os :: os where
  "calm_os = \<lparr> os_others = (\<lambda>n f. f), os_fails = (\<lambda>n. False),
     os_fresh = (\<lambda>n. if n = 5 then (1, 1) else (1, 2)),
     os_random = (\<lambda>n. if n = 4 then replicate 8 4 else replicate 8 9), os_pid = 7 \<rparr>"

definition sample_machine :: "unit machine" where
  "sample_machine = \<lparr> mc_fs = \<lparr> fs_names = [lit ''/app'' \<mapsto> (1, 0)],
       fs_nodes = [(1, 0) \<mapsto> Regular \<lparr> in_data = [1, 2, 3], in_mode = 0x1ED \<rparr>], fs_locked = (\<lambda>_. False) \<rparr>,
     mc_src = (), mc_clock = 0, mc_trace = [] \<rparr>"

definition whole_release :: "unit release" where
  "whole_release = \<lparr> rl_size = returnS 1000000, rl_range = (\<lambda>_ _. failS NoRanges),
     rl_whole = returnS (sample_file, False), rl_signature = returnS (replicate 64 1) \<rparr>"

lemma sample_delivers: "delivers plain_lib whole_release () sample_file (replicate 64 1)"
proof -
  have "length sample_file \<le> 1000000"
    using length_sample_manifest by (simp add: length_sample_file)
  then show ?thesis
    by (simp add: delivers_def whole_release_def probe_def read_range_def seqS_def returnS_def failS_def FOOTER_SIZE_def)
qed

lemma sample_info: "staged_info plain_lib sample_file = Inr \<lparr> si_id = zero_hash, si_revision = None \<rparr>"
proof -
  have "entry_path sample_manifest 1 \<noteq> REVISION_PATH" by code_simp
  then have "package_revision plain_lib sample_loaded = Inr None"
    by (auto simp: package_revision_def sample_loaded_def sample_manifest_def sample_entry_def
        less_Suc_eq numeral_3_eq_3 nth_Cons split: nat.splits)
  then show ?thesis
    by (simp add: staged_info_def sample_file_loads) (simp add: sample_loaded_def sample_manifest_def sample_header_def)
qed

lemma calm_calm_os: "calm calm_os"
  by (simp add: calm_def alone_def calm_os_def)

lemma sample_tidy: "tidy calm_os (lit ''/app'') (1, 0) \<lparr> in_data = [1, 2, 3], in_mode = 0x1ED \<rparr> sample_machine"
proof -
  have "staging_name calm_os (lit ''/app'') r \<noteq> lit ''/app''" for r by (simp add: staging_name_def lit_def)
  moreover have "sibling_path (lit ''/app'') (lit ''.onelf-prev'') \<noteq> lit ''/app''" by (rule sibling_differs) simp
  ultimately show ?thesis
    by (simp add: tidy_def sample_machine_def inode_of_def calm_os_def)
qed

lemma sample_signed: "verify_update_signature toy_ed sample_file (replicate 64 1) (replicate 32 1) = Inr ()"
proof -
  have "keyring (concat [replicate 32 1] @ []) = [replicate 32 1]" by (rule keyring_concat) simp_all
  moreover have "sample_file \<noteq> []" "length sample_file \<le> usize_max"
    using length_sample_manifest length_sample_file by (auto simp: usize_max_def)
  ultimately show ?thesis
    by (simp add: verify_update_signature_Inr toy_ed_def)
qed

definition idle_image :: "(unit, unit, unit) image_lib" where
  "idle_image = \<lparr> image_new = (\<lambda>_ _ _. returnS ()), image_sections = (\<lambda>_. []),
     image_open = (\<lambda>_ _ _. returnS ()), section_absent = (\<lambda>_. False), flag_variable_blocks = 1,
     image_flags = (\<lambda>_. 1), image_block_size = (\<lambda>_. 4096), blocks_count = (\<lambda>_. 0),
     blocks_get = (\<lambda>_ _. None), blocks_locate = (\<lambda>_ _. None), file_extents = (\<lambda>_ _. []) \<rparr>"

lemma sample_apply:
  "\<exists>l t staged k out tmp. apply_update calm_os plain_lib idle_image toy_ed whole_release (lit ''/app'') (Some (replicate 32 1)) None sample_machine
       = Some (Updated l zero_hash, t)
    \<and> fs_names (mc_fs t) (lit ''/app'') = Some staged
    \<and> inode_of (mc_fs t) staged = Some \<lparr> in_data = sample_file, in_mode = 0x1ED \<rparr>
    \<and> fs_names (mc_fs t) (sibling_path (lit ''/app'') (lit ''.onelf-prev'')) = Some out
    \<and> inode_of (mc_fs t) out = Some \<lparr> in_data = [1, 2, 3], in_mode = 0x1ED \<rparr>
    \<and> (\<exists>new. mc_trace t = new @ mc_trace sample_machine \<and> (k, Renamed tmp (lit ''/app'') staged) \<in> set new)
    \<and> tmp \<noteq> sibling_path (lit ''/app'') (lit ''.onelf-prev'')"
proof -
  have d: "delivers plain_lib whole_release (mc_src sample_machine) sample_file (replicate 64 1)"
    using sample_delivers by (simp add: sample_machine_def)
  have p: "revision_permits None (si_revision \<lparr> si_id = zero_hash, si_revision = None \<rparr>) = Inr ()"
    by (simp add: revision_permits_def)
  have l: "load_file plain_lib [1, 2, 3] \<noteq> Inr pkg" for pkg by (simp add: load_file_def FOOTER_SIZE_def)
  from apply_works [OF calm_calm_os sample_tidy d sample_signed sample_info p, of idle_image] l show ?thesis
    by simp
qed





text \<open>
  C5: Whichever of its calls fail, an install either puts the verified file under the name of the
  running binary and leaves a copy of the old bytes beside it, or leaves the old bytes under that name.
\<close>

theorem install_atomic:
  assumes "install_staged os lib self_path lock local_id cur su s = (r, t)" "alone os"
    and "holds (mc_fs s) self_path b"
    and "su_path su \<noteq> self_path" "su_path su \<noteq> sibling_path self_path (lit ''.onelf-prev'')"
  shows "(\<exists>d. r = Updated local_id d) \<and> fs_names (mc_fs t) self_path = Some (su_identity su)
      \<and> holds (mc_fs t) (sibling_path self_path (lit ''.onelf-prev'')) b
    \<or> (\<forall>d. r \<noteq> Updated local_id d) \<and> holds (mc_fs t) self_path b"
  using assms by (rule install_staged_atomic)

definition sample_staged :: staged_update where
  "sample_staged = \<lparr> su_path = lit ''/app.new'', su_file = (1, 5), su_identity = (1, 5) \<rparr>"

definition staged_machine :: "unit machine" where
  "staged_machine = \<lparr> mc_fs = \<lparr> fs_names = [lit ''/app'' \<mapsto> (1, 0), lit ''/app.new'' \<mapsto> (1, 5)],
       fs_nodes = [(1, 0) \<mapsto> Regular \<lparr> in_data = [1, 2, 3], in_mode = 0x1ED \<rparr>,
                   (1, 5) \<mapsto> Regular \<lparr> in_data = sample_file, in_mode = 0x180 \<rparr>], fs_locked = (\<lambda>_. False) \<rparr>,
     mc_src = (), mc_clock = 0, mc_trace = [] \<rparr>"

text \<open>No name can be drawn for the rollback copy.\<close>

definition failing_os :: os where
  "failing_os = calm_os\<lparr> os_fails := (\<lambda>n. n = 5) \<rparr>"

theorem install_atomic_witness:
  "\<exists>t. install_staged failing_os plain_lib (lit ''/app'') (1, 0) None None sample_staged staged_machine = (Refused, t)
    \<and> holds (mc_fs t) (lit ''/app'') [1, 2, 3]"
proof -
  obtain r t where run: "install_staged failing_os plain_lib (lit ''/app'') (1, 0) None None sample_staged staged_machine = (r, t)"
    by fastforce
  then have r: "r = Refused"
    unfolding install_staged_def Let_def
    by (simp add: refuse_def save_rollback_def staged_path_def file_identity_def revision_permits_def
        op_defs call_defs sys_def Let_def seqS_def liftS_def returnS_def
        staged_machine_def sample_staged_def failing_os_def calm_os_def inode_of_def sample_info put_inode_def)
  have "alone failing_os" by (simp add: alone_def failing_os_def calm_os_def)
  moreover have "holds (mc_fs staged_machine) (lit ''/app'') [1, 2, 3]"
    by (simp add: holds_def staged_machine_def data_of_def inode_of_def)
  moreover have "su_path sample_staged \<noteq> lit ''/app''"
    "su_path sample_staged \<noteq> sibling_path (lit ''/app'') (lit ''.onelf-prev'')"
    by (simp_all add: sample_staged_def sibling_path_def lit_def)
  ultimately have "holds (mc_fs t) (lit ''/app'') [1, 2, 3]"
    using install_atomic [OF run] r by blast
  then show ?thesis using run r by blast
qed

text \<open>
  C38: A check and an install of the same staged file agree: what the check does not offer the
  install answers in the same words, and what it offers no gate of the install turns down.
\<close>

theorem check_agrees_with_install:
  assumes "leaves os (su_file su)" "data_of (mc_fs s) (su_file su) = Some b" "\<not> os_fails os (mc_clock s)"
    and "check_verdict os lib local_id cur su s = (v, t)"
    and "install_staged os lib self_path lock local_id cur su s = (r, u)"
  shows "((\<forall>l d. v \<noteq> Offered l d) \<longrightarrow> r = v)
    \<and> (\<forall>l d. v = Offered l d \<longrightarrow> l = local_id \<and> (r = Updated l d \<or> r = Refused))"
  using assms by (rule check_install_agree)

theorem check_agrees_with_install_witness:
  "fst (check_verdict calm_os plain_lib (Some zero_hash) None sample_staged staged_machine) = UpToDate zero_hash
   \<and> fst (install_staged calm_os plain_lib (lit ''/app'') (1, 0) (Some zero_hash) None sample_staged staged_machine)
       = UpToDate zero_hash"
proof -
  obtain v t where v: "check_verdict calm_os plain_lib (Some zero_hash) None sample_staged staged_machine = (v, t)" by fastforce
  obtain r u where r: "install_staged calm_os plain_lib (lit ''/app'') (1, 0) (Some zero_hash) None sample_staged staged_machine = (r, u)"
    by fastforce
  have "leaves calm_os (su_file sample_staged)" by (simp add: leaves_def calm_os_def)
  moreover have "data_of (mc_fs staged_machine) (su_file sample_staged) = Some sample_file"
    by (simp add: sample_staged_def staged_machine_def data_of_def inode_of_def)
  moreover have "\<not> os_fails calm_os (mc_clock staged_machine)" by (simp add: calm_os_def)
  moreover have "v = UpToDate zero_hash"
    using v by (auto simp: check_verdict_def op_defs call_defs sys_def Let_def seqS_def liftS_def
        staged_machine_def sample_staged_def calm_os_def inode_of_def sample_info)
  ultimately show ?thesis using check_agrees_with_install [OF _ _ _ v r] v r by simp
qed

text \<open>
  C39: A detached signature is accepted exactly when some whole key of the keyring verifies it over
  the staged bytes; a partial key at the end of the keyring counts for nothing, and an empty file never verifies.
\<close>

theorem signature_accepted_exact:
  assumes "\<forall>k \<in> set ks. length k = 32" "length rest < 32"
  shows "verify_update_signature ed staged sig (concat ks @ rest) = Inr () \<longleftrightarrow>
     staged \<noteq> [] \<and> length staged \<le> usize_max
     \<and> (\<exists>k \<in> set ks. \<exists>pk g. key_from_slice ed k = Some pk \<and> sig_from_slice ed sig = Some g \<and> key_verify ed pk staged g)"
  by (simp add: verify_update_signature_Inr keyring_concat [OF assms])

theorem signature_accepted_exact_witness:
  "verify_update_signature toy_ed [1] (replicate 64 7) (concat [replicate 32 5, replicate 32 7] @ [7, 7]) = Inr ()"
  using signature_accepted_exact [of "[replicate 32 5, replicate 32 7]" "[7, 7]" toy_ed "[1]" "replicate 64 7"]
  by (simp add: toy_ed_def usize_max_def)

lemma foldE_collect:
  "foldE (\<lambda>b acc. tryE (g b) (\<lambda>d. Inr (acc @ d))) bs a = Inr r \<longleftrightarrow>
     (\<exists>ds. list_all2 (\<lambda>b d. g b = Inr d) bs ds \<and> r = a @ concat ds)"
proof (induction bs arbitrary: a)
  case Nil
  then show ?case by auto
next
  case (Cons b bs)
  have "foldE (\<lambda>b acc. tryE (g b) (\<lambda>d. Inr (acc @ d))) (b # bs) a = Inr r \<longleftrightarrow>
      (\<exists>d ds. g b = Inr d \<and> list_all2 (\<lambda>b d. g b = Inr d) bs ds \<and> r = (a @ d) @ concat ds)"
    by (cases "g b") (simp_all add: Cons)
  also have "\<dots> \<longleftrightarrow> (\<exists>ds. list_all2 (\<lambda>b d. g b = Inr d) (b # bs) ds \<and> r = a @ concat ds)"
  proof
    assume "\<exists>d ds. g b = Inr d \<and> list_all2 (\<lambda>b d. g b = Inr d) bs ds \<and> r = (a @ d) @ concat ds"
    then obtain d ds where "g b = Inr d" "list_all2 (\<lambda>b d. g b = Inr d) bs ds" "r = (a @ d) @ concat ds" by blast
    then show "\<exists>ds. list_all2 (\<lambda>b d. g b = Inr d) (b # bs) ds \<and> r = a @ concat ds"
      by (intro exI [of _ "d # ds"]) simp
  next
    assume "\<exists>ds. list_all2 (\<lambda>b d. g b = Inr d) (b # bs) ds \<and> r = a @ concat ds"
    then obtain d ds where "g b = Inr d" "list_all2 (\<lambda>b d. g b = Inr d) bs ds" "r = a @ concat (d # ds)"
      by (auto simp: list_all2_Cons1)
    then show "\<exists>d ds. g b = Inr d \<and> list_all2 (\<lambda>b d. g b = Inr d) bs ds \<and> r = (a @ d) @ concat ds" by auto
  qed
  finally show ?case .
qed

text \<open>
  C40: The integrity check of an unsigned update accepts exactly the readable packages of manifest
  version 3 and up whose runtime prefix and every file, read block by block, hash to what the manifest records.
\<close>

theorem unsigned_accepted_exact:
  "verify_unsigned lib R = Inr () \<longleftrightarrow>
     (\<exists>pkg. load_file lib R = Inr pkg \<and> 3 \<le> h_version (m_header (pd_manifest pkg))
        \<and> blake3 lib (take (unat (f_manifest_offset (pd_footer pkg))) R) = h_prefix_hash (m_header (pd_manifest pkg))
        \<and> (\<forall>e \<in> set (m_entries (pd_manifest pkg)). e_kind e = File \<longrightarrow>
             (\<exists>ds. list_all2 (\<lambda>b d. read_payload_entry lib (pd_file pkg) (pd_footer pkg) b (pd_codec pkg) = Inr d) (e_blocks e) ds
                \<and> blake3 lib (concat ds) = e_content_hash e)))"
proof -
  have h: "hash_entry lib pkg e = Inr data \<longleftrightarrow>
      (\<exists>ds. list_all2 (\<lambda>b d. read_payload_entry lib (pd_file pkg) (pd_footer pkg) b (pd_codec pkg) = Inr d) (e_blocks e) ds
         \<and> data = concat ds)" for pkg e data
    by (simp add: hash_entry_def foldE_collect)
  have e: "(if e_kind e \<noteq> File then Inr () else tryE (hash_entry lib pkg e) (\<lambda>data.
        if blake3 lib data \<noteq> e_content_hash e then Inl ''unsigned entry content hash mismatch'' else Inr ())) = Inr () \<longleftrightarrow>
      (e_kind e = File \<longrightarrow> (\<exists>data. hash_entry lib pkg e = Inr data \<and> blake3 lib data = e_content_hash e))" for pkg e
    by (cases "hash_entry lib pkg e") auto
  have "verify_unsigned lib R = Inr () \<longleftrightarrow>
      (\<exists>pkg. load_file lib R = Inr pkg \<and> 3 \<le> h_version (m_header (pd_manifest pkg))
        \<and> blake3 lib (take (unat (f_manifest_offset (pd_footer pkg))) R) = h_prefix_hash (m_header (pd_manifest pkg))
        \<and> (\<forall>e \<in> set (m_entries (pd_manifest pkg)). e_kind e = File \<longrightarrow>
             (\<exists>data. hash_entry lib pkg e = Inr data \<and> blake3 lib data = e_content_hash e)))"
    unfolding verify_unsigned_def tryE_Inr_iff if_Inl_eq_Inr eachE_Inr_iff e map_err_Inr_iff by (simp add: linorder_not_less)
  then show ?thesis unfolding h by blast
qed

definition hashing_lib :: "unit lib" where
  "hashing_lib = plain_lib\<lparr> blake3 := (\<lambda>_. zero_hash) \<rparr>"

theorem unsigned_accepted_exact_witness: "verify_unsigned hashing_lib sample_file = Inr ()"
proof -
  have same: "codec_open hashing_lib = codec_open plain_lib" "zstd_bulk hashing_lib = zstd_bulk plain_lib"
    "xxh32 hashing_lib = xxh32 plain_lib"
    by (intro ext, simp add: hashing_lib_def codec_open_def) (simp_all add: hashing_lib_def)
  have "load_file hashing_lib f = load_file plain_lib f" for f unfolding load_file_def same ..
  then have load: "load_file hashing_lib sample_file = Inr sample_loaded" by (simp add: sample_file_loads)
  have e: "e_blocks e = [] \<and> e_content_hash e = zero_hash" if "e \<in> set (m_entries (pd_manifest sample_loaded))" for e
    using that by (auto simp: sample_loaded_def sample_manifest_def sample_entry_def)
  have h: "blake3 hashing_lib = (\<lambda>_. zero_hash)" by (simp add: hashing_lib_def)
  have m: "3 \<le> h_version (m_header (pd_manifest sample_loaded))"
    "h_prefix_hash (m_header (pd_manifest sample_loaded)) = zero_hash"
    by (simp_all add: sample_loaded_def sample_manifest_def sample_header_def)
  show ?thesis
    unfolding unsigned_accepted_exact
    by (intro exI [of _ sample_loaded] conjI ballI impI exI [of _ "[]"] load m(1)) (simp_all add: h m(2) e)
qed

end
