(* ===== verification/Provider_Index.thy ===== *)
theory Provider_Index
  imports Metadata_Wire
begin

text \<open>
  \<open>provider_index.rs\<close>: the index of the names a pinned set artifact exports, its validation, its
  reader and writer. The reader and the writer of this format have the code of the metadata
  transport with messages of their own, so each is shown to succeed where that one does, and its
  forms carry over.
\<close>

definition MAX_INDEX_BYTES :: nat where "MAX_INDEX_BYTES = 1024 * 1024"
definition INDEX_HEADER_BYTES :: nat where "INDEX_HEADER_BYTES = 16"
definition INDEX_VERSION :: u16 where "INDEX_VERSION = 1"

datatype provider_error = ProviderIndexError string | FromSetName rule_error

record provider_index =
  pi_set :: bytes
  pi_exports :: "bytes list"

section \<open>Validation\<close>

definition validate_set_name :: "bytes \<Rightarrow> provider_error + unit" where
  "validate_set_name name = map_err FromSetName (tryE (set_name name) (\<lambda>_. Inr ()))"

definition validate_export_name :: "bytes \<Rightarrow> provider_error + unit" where
  "validate_export_name name =
     (if name = [] \<or> length name > MAX_ID_BYTES \<or> 0 \<in> set name \<or> slash \<in> set name
      then Inl (ProviderIndexError ''exported name: requires 1..=128 UTF-8 bytes without NUL or /'')
      else Inr ())"

definition index_validate :: "provider_index \<Rightarrow> provider_error + unit" where
  "index_validate v =
     tryE (validate_set_name (pi_set v)) (\<lambda>_.
     if length (pi_exports v) + 1 > MAX_RECORDS
     then Inl (ProviderIndexError ''exports: identity plus names exceeds MAX_RECORDS (4096)'')
     else
       tryE (eachE validate_export_name (pi_exports v)) (\<lambda>_.
       if any_pair (\<lambda>a b. a \<ge> b) (pi_exports v)
       then Inl (ProviderIndexError ''exports: names must be sorted and unique'')
       else Inr ()))"

definition index_new :: "bytes \<Rightarrow> bytes list \<Rightarrow> provider_error + provider_index" where
  "index_new s exports =
     tryE (validate_set_name s) (\<lambda>_.
     let v = \<lparr> pi_set = s, pi_exports = sort exports \<rparr>
     in tryE (index_validate v) (\<lambda>_. Inr v))"

section \<open>The reader\<close>

definition px_take :: "nat \<Rightarrow> reader \<Rightarrow> provider_error + bytes \<times> reader" where
  "px_take count r =
     tryE (ok_or (ProviderIndexError ''length: arithmetic overflow'')
             (checked_add (rd_offset r) count)) (\<lambda>e.
     tryE (ok_or (ProviderIndexError ''index: truncated field or length exceeds remaining bytes'')
             (get_slice (rd_bytes r) (rd_offset r) e)) (\<lambda>bs.
     Inr (bs, r\<lparr> rd_offset := e \<rparr>)))"

definition px_byte :: "reader \<Rightarrow> provider_error + u8 \<times> reader" where
  "px_byte r = tryE (px_take 1 r) (\<lambda>(bs, r1). Inr (bs ! 0, r1))"

definition px_u32 :: "reader \<Rightarrow> provider_error + nat \<times> reader" where
  "px_u32 r = tryE (px_take 4 r) (\<lambda>(bs, r1). Inr (unat (le_value bs :: u32), r1))"

definition px_record :: "reader \<Rightarrow> provider_error + (u8 \<times> reader) \<times> reader" where
  "px_record r =
     tryE (px_u32 r) (\<lambda>(count, r1).
     if count = 0 then Inl (ProviderIndexError ''record length: must include a known tag'')
     else
       tryE (px_take count r1) (\<lambda>(bs, r2).
       tryE (px_byte \<lparr> rd_bytes = bs, rd_offset = 0 \<rparr>) (\<lambda>(tag, rec).
       Inr ((tag, rec), r2))))"

definition px_string :: "nat \<Rightarrow> reader \<Rightarrow> provider_error + bytes \<times> reader" where
  "px_string maximum r =
     tryE (px_u32 r) (\<lambda>(count, r1).
     if count = 0 \<or> count > maximum
     then Inl (ProviderIndexError ''name length: requires 1..=128 bytes'')
     else
       tryE (px_take count r1) (\<lambda>(bs, r2).
       tryE (ok_or (ProviderIndexError ''string: invalid UTF-8'') (from_utf8 bs)) (\<lambda>s.
       Inr (s, r2))))"

definition px_finish :: "reader \<Rightarrow> provider_error + unit" where
  "px_finish r =
     (if rd_offset r \<noteq> length (rd_bytes r)
      then Inl (ProviderIndexError ''index: trailing bytes in file or record'')
      else Inr ())"

section \<open>The writer\<close>

definition pw_bytes :: "bytes \<Rightarrow> bytes \<Rightarrow> provider_error + bytes" where
  "pw_bytes bs w =
     (case checked_add (length w) (length bs) of
        None \<Rightarrow> Inl (ProviderIndexError ''file: exceeds MAX_INDEX_BYTES (1 MiB)'')
      | Some n \<Rightarrow> if n > MAX_INDEX_BYTES
                  then Inl (ProviderIndexError ''file: exceeds MAX_INDEX_BYTES (1 MiB)'')
                  else Inr (w @ bs))"

definition pw_byte :: "u8 \<Rightarrow> bytes \<Rightarrow> provider_error + bytes" where
  "pw_byte b w = pw_bytes [b] w"

definition pw_count :: "nat \<Rightarrow> bytes \<Rightarrow> provider_error + bytes" where
  "pw_count count w =
     (if count < 2 ^ 32 then pw_bytes (le_bytes 4 (of_nat count :: u32)) w
      else Inl (ProviderIndexError ''length: exceeds u32''))"

definition pw_string :: "bytes \<Rightarrow> bytes \<Rightarrow> provider_error + bytes" where
  "pw_string s w = tryE (pw_count (length s) w) (pw_bytes s)"

definition pw_start_record :: "u8 \<Rightarrow> bytes \<Rightarrow> provider_error + nat \<times> bytes" where
  "pw_start_record tag w =
     tryE (pw_count 0 w) (\<lambda>w1. tryE (pw_byte tag w1) (\<lambda>w2. Inr (length w, w2)))"

definition pw_end_record :: "nat \<Rightarrow> bytes \<Rightarrow> provider_error + bytes" where
  "pw_end_record start w =
     (let count = length w - start - 4
      in if count < 2 ^ 32 then Inr (patch4 start (le_bytes 4 (of_nat count :: u32)) w)
         else Inl (ProviderIndexError ''record length: exceeds u32''))"

definition pw_new :: "nat \<Rightarrow> provider_error + bytes" where
  "pw_new records =
     tryE (pw_bytes (lit ''OPRV'') []) (\<lambda>w1.
     tryE (pw_bytes (le_bytes 2 INDEX_VERSION) w1) (\<lambda>w2.
     tryE (pw_bytes [0, 0] w2) (\<lambda>w3.
     tryE (pw_count 0 w3) (pw_count records))))"

definition pw_finish :: "bytes \<Rightarrow> provider_error + bytes" where
  "pw_finish w =
     (let count = length w - INDEX_HEADER_BYTES
      in if count < 2 ^ 32 then Inr (patch4 8 (le_bytes 4 (of_nat count :: u32)) w)
         else Inl (ProviderIndexError ''payload length: exceeds u32''))"

section \<open>Encoding and decoding\<close>

definition pw_name :: "u8 \<Rightarrow> bytes \<Rightarrow> bytes \<Rightarrow> provider_error + bytes" where
  "pw_name tag s w =
     tryE (pw_start_record tag w) (\<lambda>(start, w1).
     tryE (pw_string s w1) (pw_end_record start))"

definition index_encode :: "provider_index \<Rightarrow> provider_error + bytes" where
  "index_encode v =
     tryE (index_validate v) (\<lambda>_.
     tryE (pw_new (length (pi_exports v) + 1)) (\<lambda>w.
     tryE (pw_name 1 (pi_set v) w) (\<lambda>w1.
     tryE (foldE (pw_name 2) (pi_exports v) w1) pw_finish)))"

definition px_item :: "bytes option \<times> bytes list \<Rightarrow> reader
    \<Rightarrow> provider_error + (bytes option \<times> bytes list) \<times> reader" where
  "px_item st r =
     (case st of (s, exports) \<Rightarrow>
       tryE (px_record r) (\<lambda>((tag, rec), r1).
       tryE (if tag = 1 then
               if s \<noteq> None then Inl (ProviderIndexError ''identity: duplicate record'')
               else tryE (px_string MAX_ID_BYTES rec) (\<lambda>(name, rec1). Inr ((Some name, exports), rec1))
             else if tag = 2 then
               if s = None then Inl (ProviderIndexError ''exports: the identity record must come first'')
               else tryE (px_string MAX_ID_BYTES rec) (\<lambda>(name, rec1). Inr ((s, exports @ [name]), rec1))
             else Inl (ProviderIndexError ''record: unknown or misplaced variant tag'')) (\<lambda>(st1, rec1).
       tryE (px_finish rec1) (\<lambda>_. Inr (st1, r1)))))"

fun px_items :: "nat \<Rightarrow> bytes option \<times> bytes list \<Rightarrow> reader
    \<Rightarrow> provider_error + (bytes option \<times> bytes list) \<times> reader" where
  "px_items 0 st r = Inr (st, r)"
| "px_items (Suc n) st r = tryE (px_item st r) (\<lambda>(st1, r1). px_items n st1 r1)"

definition index_header :: "bytes \<Rightarrow> provider_error + nat \<times> nat" where
  "index_header bs =
     tryE (px_take 4 \<lparr> rd_bytes = bs, rd_offset = 0 \<rparr>) (\<lambda>(magic, r1).
     if magic \<noteq> lit ''OPRV'' then Inl (ProviderIndexError ''header: invalid index magic'')
     else
       tryE (px_take 2 r1) (\<lambda>(version, r2).
       if le_value version \<noteq> INDEX_VERSION
       then Inl (ProviderIndexError ''header: unsupported index version'')
       else
         tryE (px_take 2 r2) (\<lambda>(flags, r3).
         if flags \<noteq> [0, 0] then Inl (ProviderIndexError ''header: unknown reserved flags'')
         else
           tryE (px_u32 r3) (\<lambda>(payload, r4).
           tryE (px_u32 r4) (\<lambda>(records, r5). Inr (payload, records))))))"

definition index_decode :: "bytes \<Rightarrow> provider_error + provider_index" where
  "index_decode bs =
     (if length bs > MAX_INDEX_BYTES then Inl (ProviderIndexError ''file: exceeds MAX_INDEX_BYTES (1 MiB)'')
      else
        tryE (index_header bs) (\<lambda>(payload, records).
        if records > MAX_RECORDS then Inl (ProviderIndexError ''header: exceeds MAX_RECORDS (4096)'')
        else if payload \<noteq> length bs - INDEX_HEADER_BYTES
        then Inl (ProviderIndexError ''header payload length: inconsistent with complete file'')
        else
          tryE (px_items records (None, []) \<lparr> rd_bytes = drop INDEX_HEADER_BYTES bs, rd_offset = 0 \<rparr>)
            (\<lambda>((s, exports), body).
          tryE (px_finish body) (\<lambda>_.
          tryE (ok_or (ProviderIndexError ''identity: record missing'') s) (\<lambda>name.
          let v = \<lparr> pi_set = name, pi_exports = exports \<rparr>
          in tryE (index_validate v) (\<lambda>_. Inr v))))))"

section \<open>The reader and the writer are those of the metadata transport\<close>

lemma limits: "MAX_INDEX_BYTES = MAX_METADATA_BYTES" "INDEX_HEADER_BYTES = HEADER_BYTES" "INDEX_VERSION = METADATA_VERSION"
  by (simp_all add: MAX_INDEX_BYTES_def MAX_METADATA_BYTES_def INDEX_HEADER_BYTES_def HEADER_BYTES_def
      INDEX_VERSION_def METADATA_VERSION_def)

lemma px_take_rd: "px_take n r = Inr x \<longleftrightarrow> rd_take n r = Inr x"
  by (simp add: px_take_def rd_take_def tryE_Inr_iff)

lemma px_byte_rd: "px_byte r = Inr x \<longleftrightarrow> rd_byte r = Inr x"
  by (simp add: px_byte_def rd_byte_def tryE_Inr_iff px_take_rd)

lemma px_u32_rd: "px_u32 r = Inr x \<longleftrightarrow> rd_u32 r = Inr x"
  by (simp add: px_u32_def rd_u32_def tryE_Inr_iff px_take_rd)

lemma px_string_rd: "px_string n r = Inr x \<longleftrightarrow> rd_string n r = Inr x"
  by (auto simp: px_string_def rd_string_def tryE_Inr_iff px_take_rd px_u32_rd)

lemma px_finish_rd: "px_finish r = Inr u \<longleftrightarrow> rd_finish r = Inr u"
  by (simp add: px_finish_def rd_finish_def)

lemma px_record_rd: "px_record r = Inr ((tag, rec), r1) \<longleftrightarrow> rd_record tag r = Inr (rec, r1)"
  by (auto simp: px_record_def rd_record_def tryE_Inr_iff px_take_rd px_u32_rd px_byte_rd Let_def)

lemma pw_bytes_wr: "pw_bytes bs w = Inr w' \<longleftrightarrow> wr_bytes bs w = Inr w'"
  by (auto simp: pw_bytes_def wr_bytes_def limits split: option.splits)

lemma pw_count_wr: "pw_count n w = Inr w' \<longleftrightarrow> wr_count n w = Inr w'"
  by (simp add: pw_count_def wr_count_def pw_bytes_wr)

lemma pw_name_wr: "pw_name tag s w = Inr w' \<longleftrightarrow> out_record tag (wr_string s) w = Inr w'"
proof -
  have "pw_start_record tag w = Inr x \<longleftrightarrow> wr_start_record tag w = Inr x" for x
    by (simp add: pw_start_record_def wr_start_record_def tryE_Inr_iff pw_count_wr pw_byte_def wr_byte_def pw_bytes_wr)
  moreover have "pw_string s u = Inr v \<longleftrightarrow> wr_string s u = Inr v" for u v
    by (simp add: pw_string_def wr_string_def tryE_Inr_iff pw_count_wr pw_bytes_wr)
  moreover have "pw_end_record start u = Inr v \<longleftrightarrow> wr_end_record start u = Inr v" for start u v
    by (simp add: pw_end_record_def wr_end_record_def Let_def)
  ultimately show ?thesis by (simp add: pw_name_def out_record_def tryE_Inr_iff)
qed

section \<open>The form of an index\<close>

definition name_ok :: "bytes \<Rightarrow> bool" where
  "name_ok s \<longleftrightarrow> s \<noteq> [] \<and> length s \<le> MAX_ID_BYTES \<and> utf8 s"

definition name_form :: "u8 \<Rightarrow> bytes \<Rightarrow> bytes" where
  "name_form tag s = record_form tag (string_form s)"

definition index_form :: "provider_index \<Rightarrow> bytes" where
  "index_form v = file_form (lit ''OPRV'') (Suc (length (pi_exports v)))
     (name_form 1 (pi_set v) @ concat (map (name_form 2) (pi_exports v)))"

lemma in_record_name:
  assumes "reader_ok r"
  shows "in_record tag (rd_string MAX_ID_BYTES) r = Inr (x, r') \<longleftrightarrow>
    name_ok x \<and> prefix (name_form tag x) (rest_of r) \<and> r' = advance (length (name_form tag x)) r"
proof -
  have "MAX_ID_BYTES < 2 ^ 32" by (simp add: MAX_ID_BYTES_def)
  from parses_plainD [OF parses_in_record [OF parses_string [OF this]] assms]
  show ?thesis by (auto simp: name_ok_def name_form_def)
qed

lemma px_item_Inr:
  "px_item (s, exports) r = Inr (st, r') \<longleftrightarrow>
     (\<exists>name. in_record (if s = None then 1 else 2) (rd_string MAX_ID_BYTES) r = Inr (name, r')
        \<and> st = (case s of None \<Rightarrow> (Some name, exports) | Some i \<Rightarrow> (s, exports @ [name])))"
  (is "?l \<longleftrightarrow> ?r")
proof
  assume ?l
  then obtain tag rec rec1 where a: "rd_record tag r = Inr (rec, r')"
    "(if tag = 1 then
        if s \<noteq> None then Inl (ProviderIndexError ''identity: duplicate record'')
        else tryE (px_string MAX_ID_BYTES rec) (\<lambda>(name, rec1). Inr ((Some name, exports), rec1))
      else if tag = 2 then
        if s = None then Inl (ProviderIndexError ''exports: the identity record must come first'')
        else tryE (px_string MAX_ID_BYTES rec) (\<lambda>(name, rec1). Inr ((s, exports @ [name]), rec1))
      else Inl (ProviderIndexError ''record: unknown or misplaced variant tag'')) = Inr (st, rec1)"
    "rd_finish rec1 = Inr ()"
    by (auto simp: px_item_def tryE_Inr_iff px_record_rd px_finish_rd)
  then show ?r
    by (cases s) (auto simp: tryE_Inr_iff px_string_rd in_record_def split: if_splits)
next
  assume ?r
  then obtain name rec rec1 where "rd_record (if s = None then 1 else 2) r = Inr (rec, r')"
    "rd_string MAX_ID_BYTES rec = Inr (name, rec1)" "rd_finish rec1 = Inr ()"
    "st = (case s of None \<Rightarrow> (Some name, exports) | Some i \<Rightarrow> (s, exports @ [name]))"
    by (auto simp: in_record_def tryE_Inr_iff)
  then show ?l
    unfolding px_item_def prod.case tryE_Inr_iff
    by (intro exI [of _ "((if s = None then 1 else 2, rec), r')"])
      (cases s; simp add: px_record_rd px_string_rd [symmetric] px_finish_rd [symmetric])
qed

lemma px_items_Inr:
  assumes "reader_ok r"
  shows "px_items n (Some i, exports) r = Inr (st, r') \<longleftrightarrow>
    (\<exists>ys. length ys = n \<and> (\<forall>y \<in> set ys. name_ok y) \<and> prefix (concat (map (name_form 2) ys)) (rest_of r)
       \<and> r' = advance (length (concat (map (name_form 2) ys))) r \<and> st = (Some i, exports @ ys))"
  using assms
proof (induction n arbitrary: exports r)
  case 0
  then show ?case by auto
next
  case (Suc n)
  have step: "px_items n (Some i, exports @ [y]) (advance (length (name_form 2 y)) r) = Inr (st, r') \<longleftrightarrow>
      (\<exists>ys. length ys = n \<and> (\<forall>y \<in> set ys. name_ok y)
         \<and> prefix (concat (map (name_form 2) ys)) (drop (length (name_form 2 y)) (rest_of r))
         \<and> r' = advance (length (name_form 2 y) + length (concat (map (name_form 2) ys))) r
         \<and> st = (Some i, exports @ y # ys))"
    if "prefix (name_form 2 y) (rest_of r)" for y
    using Suc.IH [OF advance_ok [OF Suc.prems that], of "exports @ [y]"] by simp
  have "px_items (Suc n) (Some i, exports) r = Inr (st, r') \<longleftrightarrow>
      (\<exists>y. name_ok y \<and> prefix (name_form 2 y) (rest_of r)
         \<and> px_items n (Some i, exports @ [y]) (advance (length (name_form 2 y)) r) = Inr (st, r'))"
    by (auto simp: tryE_Inr_iff px_item_Inr in_record_name [OF Suc.prems])
  also have "\<dots> \<longleftrightarrow> (\<exists>y ys. length ys = n \<and> (\<forall>z \<in> set (y # ys). name_ok z)
       \<and> prefix (concat (map (name_form 2) (y # ys))) (rest_of r)
       \<and> r' = advance (length (concat (map (name_form 2) (y # ys)))) r \<and> st = (Some i, exports @ y # ys))"
    using step by (auto simp: prefix_append_drop)
  also have "\<dots> \<longleftrightarrow> (\<exists>ys. length ys = Suc n \<and> (\<forall>y \<in> set ys. name_ok y)
       \<and> prefix (concat (map (name_form 2) ys)) (rest_of r)
       \<and> r' = advance (length (concat (map (name_form 2) ys))) r \<and> st = (Some i, exports @ ys))"
    by (auto simp: length_Suc_conv)
  finally show ?case .
qed

lemma index_header_Inr:
  "index_header bs = Inr (payload, records) \<longleftrightarrow>
     (\<exists>r. header_fields (lit ''OPRV'') \<lparr> rd_bytes = bs, rd_offset = 0 \<rparr> = Inr ((payload, records), r))"
  by (auto simp: index_header_def header_fields_def tryE_Inr_iff px_take_rd px_u32_rd limits)

lemma length_index_magic: "length (lit ''OPRV'') = 4"
  by simp

lemma finished_prefix:
  "prefix bs payload \<Longrightarrow> rd_finish (advance (length bs) \<lparr> rd_bytes = payload, rd_offset = 0 \<rparr>) = Inr () \<longleftrightarrow> bs = payload"
  by (auto simp: rd_finish_def advance_def prefix_def)

text \<open>All the records of a payload.\<close>

lemma px_all_Inr:
  assumes "length payload \<le> MAX_METADATA_BYTES"
  shows "(\<exists>r. px_items n (None, []) \<lparr> rd_bytes = payload, rd_offset = 0 \<rparr> = Inr ((Some i, xs), r) \<and> rd_finish r = Inr ())
    \<longleftrightarrow> n = Suc (length xs) \<and> name_ok i \<and> (\<forall>x \<in> set xs. name_ok x)
      \<and> payload = name_form 1 i @ concat (map (name_form 2) xs)"
proof (cases n)
  case 0
  then show ?thesis by simp
next
  case (Suc m)
  let ?r = "\<lparr> rd_bytes = payload, rd_offset = 0 \<rparr>"
  have ok: "reader_ok ?r" using assms by (simp add: reader_ok_def)
  have rest: "rest_of ?r = payload" by (simp add: rest_of_def)
  have first: "px_item (None, []) ?r = Inr (st, r1) \<longleftrightarrow>
      (\<exists>name. name_ok name \<and> prefix (name_form 1 name) payload \<and> r1 = advance (length (name_form 1 name)) ?r
         \<and> st = (Some name, []))" for st r1
    by (auto simp: px_item_Inr in_record_name [OF ok] rest)
  have "(\<exists>r. px_items n (None, []) ?r = Inr ((Some i, xs), r) \<and> rd_finish r = Inr ()) \<longleftrightarrow>
      (\<exists>r name. name_ok name \<and> prefix (name_form 1 name) payload
         \<and> px_items m (Some name, []) (advance (length (name_form 1 name)) ?r) = Inr ((Some i, xs), r)
         \<and> rd_finish r = Inr ())"
  proof -
    have "px_items (Suc m) (None, []) ?r = Inr x \<longleftrightarrow> (\<exists>name. name_ok name \<and> prefix (name_form 1 name) payload
         \<and> px_items m (Some name, []) (advance (length (name_form 1 name)) ?r) = Inr x)" for x
      by (simp add: tryE_Inr_iff first) blast
    then show ?thesis unfolding Suc by blast
  qed
  also have "\<dots> \<longleftrightarrow> (name_ok i \<and> prefix (name_form 1 i @ concat (map (name_form 2) xs)) payload \<and> length xs = m
      \<and> (\<forall>x \<in> set xs. name_ok x)
      \<and> rd_finish (advance (length (name_form 1 i @ concat (map (name_form 2) xs))) ?r) = Inr ())"
  proof -
    have "px_items m (Some name, []) (advance (length (name_form 1 name)) ?r) = Inr ((Some i, xs), r) \<longleftrightarrow>
        name = i \<and> length xs = m \<and> (\<forall>x \<in> set xs. name_ok x)
        \<and> prefix (concat (map (name_form 2) xs)) (drop (length (name_form 1 name)) payload)
        \<and> r = advance (length (name_form 1 name @ concat (map (name_form 2) xs))) ?r"
      if "prefix (name_form 1 name) payload" for name r
      using px_items_Inr [OF advance_ok [OF ok], of "name_form 1 name" m name "[]" "(Some i, xs)" r] that
      by (auto simp: rest)
    then show ?thesis by (auto simp: prefix_append_drop)
  qed
  also have "\<dots> \<longleftrightarrow> n = Suc (length xs) \<and> name_ok i \<and> (\<forall>x \<in> set xs. name_ok x)
      \<and> payload = name_form 1 i @ concat (map (name_form 2) xs)"
    using finished_prefix [of "name_form 1 i @ concat (map (name_form 2) xs)" payload] Suc by auto
  finally show ?thesis .
qed

lemma index_validate_Inr:
  "index_validate v = Inr () \<longleftrightarrow> rule_id_ok (pi_set v) \<and> dot \<notin> set (pi_set v)
     \<and> length (pi_exports v) < MAX_RECORDS
     \<and> (\<forall>x \<in> set (pi_exports v). x \<noteq> [] \<and> length x \<le> MAX_ID_BYTES \<and> 0 \<notin> set x \<and> slash \<notin> set x)
     \<and> sorted_wrt (<) (pi_exports v)"
  using any_pair_strict [of "\<lambda>x. x" "pi_exports v"]
  by (auto simp: index_validate_def tryE_Inr_iff validate_set_name_def validate_export_name_def)

lemma index_decode_Inr:
  "index_decode bs = Inr v \<longleftrightarrow> index_validate v = Inr () \<and> name_ok (pi_set v)
     \<and> (\<forall>x \<in> set (pi_exports v). name_ok x) \<and> bs = index_form v \<and> length bs \<le> MAX_INDEX_BYTES"
proof -
  have "index_decode bs = Inr v \<longleftrightarrow> index_validate v = Inr ()
      \<and> (\<exists>n. metadata_read_header bs (lit ''OPRV'') = Inr (\<lparr> rd_bytes = drop HEADER_BYTES bs, rd_offset = 0 \<rparr>, n)
        \<and> (\<exists>r. px_items n (None, []) \<lparr> rd_bytes = drop HEADER_BYTES bs, rd_offset = 0 \<rparr>
                = Inr ((Some (pi_set v), pi_exports v), r) \<and> rd_finish r = Inr ()))"
    (is "?l \<longleftrightarrow> ?r")
  proof
    assume ?l
    then show ?r
      by (auto simp: index_decode_def metadata_read_header_def tryE_Inr_iff index_header_Inr limits px_finish_rd
          Let_def split: if_splits)
  next
    assume ?r
    then obtain n r where a: "index_validate v = Inr ()" "length bs \<le> MAX_METADATA_BYTES" "n \<le> MAX_RECORDS"
      "index_header bs = Inr (length bs - HEADER_BYTES, n)"
      "px_items n (None, []) \<lparr> rd_bytes = drop HEADER_BYTES bs, rd_offset = 0 \<rparr> = Inr ((Some (pi_set v), pi_exports v), r)"
      "px_finish r = Inr ()"
      by (auto simp: metadata_read_header_def tryE_Inr_iff index_header_Inr px_finish_rd split: if_splits)
    have v: "\<lparr> pi_set = pi_set v, pi_exports = pi_exports v \<rparr> = v" by (cases v) simp
    have "tryE (index_validate \<lparr> pi_set = pi_set v, pi_exports = pi_exports v \<rparr>)
        (\<lambda>_. Inr \<lparr> pi_set = pi_set v, pi_exports = pi_exports v \<rparr>) = Inr v"
      unfolding v using a(1) by simp
    then show ?l using a by (simp add: index_decode_def limits Let_def)
  qed
  also have "\<dots> \<longleftrightarrow> index_validate v = Inr () \<and> name_ok (pi_set v)
     \<and> (\<forall>x \<in> set (pi_exports v). name_ok x) \<and> bs = index_form v \<and> length bs \<le> MAX_INDEX_BYTES" (is "?l \<longleftrightarrow> ?r")
  proof
    assume ?l
    then obtain n r where a: "index_validate v = Inr ()" "length bs \<le> MAX_METADATA_BYTES"
      "bs = file_form (lit ''OPRV'') n (drop HEADER_BYTES bs)"
      "px_items n (None, []) \<lparr> rd_bytes = drop HEADER_BYTES bs, rd_offset = 0 \<rparr> = Inr ((Some (pi_set v), pi_exports v), r)"
      "rd_finish r = Inr ()"
      by (auto simp: metadata_read_header_Inr [OF length_index_magic])
    have "length (drop HEADER_BYTES bs) \<le> MAX_METADATA_BYTES" using a(2) by simp
    from px_all_Inr [OF this, of n "pi_set v" "pi_exports v"] a(4,5)
    have p: "n = Suc (length (pi_exports v))" "name_ok (pi_set v)" "\<forall>x \<in> set (pi_exports v). name_ok x"
      "drop HEADER_BYTES bs = name_form 1 (pi_set v) @ concat (map (name_form 2) (pi_exports v))" by blast+
    then have "bs = index_form v" using a(3) unfolding index_form_def by simp
    then show ?r using a(1,2) p limits by simp
  next
    assume r: ?r
    let ?p = "name_form 1 (pi_set v) @ concat (map (name_form 2) (pi_exports v))"
    have bs: "bs = file_form (lit ''OPRV'') (Suc (length (pi_exports v))) ?p" using r by (simp add: index_form_def)
    have d: "drop HEADER_BYTES bs = ?p" by (simp add: bs file_form_def HEADER_BYTES_def)
    then have "length ?p \<le> MAX_METADATA_BYTES" using r by (metis length_drop diff_le_self le_trans limits(1))
    from px_all_Inr [OF this, of "Suc (length (pi_exports v))" "pi_set v" "pi_exports v"] r
    have "\<exists>r. px_items (Suc (length (pi_exports v))) (None, []) \<lparr> rd_bytes = ?p, rd_offset = 0 \<rparr>
        = Inr ((Some (pi_set v), pi_exports v), r) \<and> rd_finish r = Inr ()" by simp
    moreover have "Suc (length (pi_exports v)) \<le> MAX_RECORDS" using r by (simp add: index_validate_Inr)
    ultimately show ?l using r bs d by (auto simp: metadata_read_header_Inr [OF length_index_magic] limits)
  qed
  finally show ?thesis .
qed

lemma index_encode_Inr:
  "index_encode v = Inr bs \<longleftrightarrow> index_validate v = Inr () \<and> bs = index_form v \<and> length bs \<le> MAX_INDEX_BYTES"
proof -
  let ?n = "Suc (length (pi_exports v))"
  let ?body = "\<lambda>w. tryE (out_record 1 (wr_string (pi_set v)) w) (foldE (\<lambda>s. out_record 2 (wr_string s)) (pi_exports v))"
  have f: "foldE (pw_name 2) xs w = Inr w' \<longleftrightarrow> foldE (\<lambda>s. out_record 2 (wr_string s)) xs w = Inr w'" for xs w w'
    by (induction xs arbitrary: w) (auto simp: tryE_Inr_iff pw_name_wr)
  have new: "pw_new n = Inr w \<longleftrightarrow> wr_new (lit ''OPRV'') n = Inr w" for n w
    by (simp add: pw_new_def wr_new_def tryE_Inr_iff pw_bytes_wr pw_count_wr limits)
  have fin: "pw_finish w = Inr w' \<longleftrightarrow> wr_finish w = Inr w'" for w w'
    by (simp add: pw_finish_def wr_finish_def Let_def limits)
  have "writes ?body (name_form 1 (pi_set v) @ concat (map (name_form 2) (pi_exports v)))"
    unfolding name_form_def
    by (rule writes_then, rule writes_record, rule writes_string, rule writes_foldE, rule writes_record, rule writes_string)
  note out = out_file_Inr [OF length_index_magic, of ?n ?body _ bs, OF _ this]
  have "index_encode v = Inr bs \<longleftrightarrow> index_validate v = Inr () \<and> out_file (lit ''OPRV'') ?n ?body = Inr bs"
    by (auto simp: index_encode_def out_file_def tryE_Inr_iff new f fin pw_name_wr)
  then show ?thesis using out by (auto simp: index_validate_Inr index_form_def limits)
qed

section \<open>Properties\<close>

text \<open>
  C15: The index format has one spelling per index: the decoder accepts bytes just when they are what
  the encoder makes of the index it returns, whose names are then text; so nothing malformed,
  duplicate or out of order is accepted and every accepted file re-encodes byte for byte.
\<close>

theorem index_codec_exact:
  "index_decode bs = Inr v \<longleftrightarrow>
     index_encode v = Inr bs \<and> utf8 (pi_set v) \<and> (\<forall>x \<in> set (pi_exports v). utf8 x)"
proof -
  have "name_ok (pi_set v) \<longleftrightarrow> utf8 (pi_set v)" if "index_validate v = Inr ()"
  proof -
    have "rule_id_ok (pi_set v)" using that unfolding index_validate_Inr by blast
    then show ?thesis by (cases "pi_set v") (simp_all add: name_ok_def rule_id_ok_def id_start_def)
  qed
  moreover have "(\<forall>x \<in> set (pi_exports v). name_ok x) \<longleftrightarrow> (\<forall>x \<in> set (pi_exports v). utf8 x)" if "index_validate v = Inr ()"
    using that unfolding index_validate_Inr name_ok_def by blast
  ultimately show ?thesis unfolding index_decode_Inr index_encode_Inr by blast
qed

theorem index_codec_exact_witness:
  "index_decode (index_form \<lparr> pi_set = lit ''gl'', pi_exports = [lit ''libEGL.so.1'', lit ''libGL.so.1''] \<rparr>)
     = Inr \<lparr> pi_set = lit ''gl'', pi_exports = [lit ''libEGL.so.1'', lit ''libGL.so.1''] \<rparr>"
proof -
  let ?v = "\<lparr> pi_set = lit ''gl'', pi_exports = [lit ''libEGL.so.1'', lit ''libGL.so.1''] \<rparr>"
  have "list_all (\<lambda>x. x \<noteq> [] \<and> length x \<le> MAX_ID_BYTES \<and> 0 \<notin> set x \<and> slash \<notin> set x) (pi_exports ?v)"
    "rule_id_ok (pi_set ?v) \<and> dot \<notin> set (pi_set ?v)" "sorted_wrt (<) (pi_exports ?v)" by code_simp+
  then have "index_encode ?v = Inr (index_form ?v)"
    unfolding index_encode_Inr index_validate_Inr
    by (simp add: list_all_iff MAX_RECORDS_def index_form_def file_form_def name_form_def MAX_INDEX_BYTES_def)
  moreover have "utf8 (lit ''gl'')" "utf8 (lit ''libEGL.so.1'')" "utf8 (lit ''libGL.so.1'')" by code_simp+
  ultimately show ?thesis using index_codec_exact [of "index_form ?v" ?v] by simp
qed

text \<open>
  C16: A new index holds the reported names in their one canonical order, whichever order they were
  reported in, and a name reported twice is refused.
\<close>

theorem index_new_exact:
  "index_new s exports = Inr v \<longleftrightarrow>
     v = \<lparr> pi_set = s, pi_exports = sort exports \<rparr> \<and> rule_id_ok s \<and> dot \<notin> set s
     \<and> length exports < MAX_RECORDS \<and> distinct exports
     \<and> (\<forall>x \<in> set exports. x \<noteq> [] \<and> length x \<le> MAX_ID_BYTES \<and> 0 \<notin> set x \<and> slash \<notin> set x)"
proof -
  have "sorted_wrt (<) (sort exports) \<longleftrightarrow> distinct exports"
    by (metis distinct_sort sorted_sort strict_sorted_iff)
  then show ?thesis
    by (auto simp: index_new_def Let_def tryE_Inr_iff index_validate_Inr validate_set_name_def)
qed

theorem index_new_exact_witness:
  "index_new (lit ''gl'') [lit ''libGL.so.1'', lit ''libEGL.so.1'']
     = Inr \<lparr> pi_set = lit ''gl'', pi_exports = [lit ''libEGL.so.1'', lit ''libGL.so.1''] \<rparr>"
proof -
  have "list_all (\<lambda>x. x \<noteq> [] \<and> length x \<le> MAX_ID_BYTES \<and> 0 \<notin> set x \<and> slash \<notin> set x)
      [lit ''libGL.so.1'', lit ''libEGL.so.1'']"
    "rule_id_ok (lit ''gl'') \<and> dot \<notin> set (lit ''gl'')"
    "sort [lit ''libGL.so.1'', lit ''libEGL.so.1''] = [lit ''libEGL.so.1'', lit ''libGL.so.1'']" by code_simp+
  then show ?thesis unfolding index_new_exact by (simp add: MAX_RECORDS_def list_all_iff)
qed

end
