(* ===== verification/Spec2Isabelle.thy ===== *)
theory Spec2Isabelle
  imports Bounds Manifest_Paths Metadata Elf_Note Elf_Facts Loader Range_Source Delta_Plan Delta_Write
    Delta_Rebuild Delta_Stipple Delta_Images Delta_Assemble Host_System Update_Gates
    Update_Install Install_Safety Install_Recovery Install_Calm Provider_Index
begin

text \<open>
  onelf: a verification library for the package format, its metadata, and the tools around it.
\<close>

end
